(* ===== verification/Prelude.thy ===== *)
theory Prelude
  imports Main "HOL-Library.Word" "HOL-Library.Sublist"
begin

text \<open>
  Shared vocabulary of the development: the machine integers of the source, results as sums,
  the collections of simplification facts (\<^theory_text>\<open>named_theorems\<close>), generic lemmas on lists,
  options and maps, and the two library interfaces that several components share: a transition
  system with an invariant, and a pair of functions that name the values of an enumeration.
\<close>

section \<open>Types\<close>

type_synonym u8 = "8 word"
type_synonym u16 = "16 word"
type_synonym u32 = "32 word"
type_synonym u64 = "64 word"
type_synonym i64 = int

text \<open>
  Rust's \<open>Result<T, E>\<close> is \<open>'e + 'a\<close>: \<open>Inl\<close> is \<open>Err\<close>, \<open>Inr\<close> is \<open>Ok\<close>.
  The \<open>?\<close> operator is \<open>try_bind\<close>; \<open>map_err\<close> is the method of that name.
\<close>

definition try_bind :: "('e + 'a) \<Rightarrow> ('a \<Rightarrow> 'e + 'b) \<Rightarrow> 'e + 'b" where
  "try_bind r f = (case r of Inl e \<Rightarrow> Inl e | Inr x \<Rightarrow> f x)"

definition map_err :: "('e \<Rightarrow> 'f) \<Rightarrow> ('e + 'a) \<Rightarrow> 'f + 'a" where
  "map_err f r = (case r of Inl e \<Rightarrow> Inl (f e) | Inr x \<Rightarrow> Inr x)"

definition is_ok :: "('e + 'a) \<Rightarrow> bool" where
  "is_ok r = (case r of Inl _ \<Rightarrow> False | Inr _ \<Rightarrow> True)"

lemma try_bind_simps [simp]:
  "try_bind (Inl e) f = Inl e" "try_bind (Inr x) f = f x"
  by (simp_all add: try_bind_def)

lemma try_bind_Inr_iff: "try_bind r f = Inr y \<longleftrightarrow> (\<exists>x. r = Inr x \<and> f x = Inr y)"
  by (cases r) simp_all

lemma try_bind_Inl_iff:
  "try_bind r f = Inl e \<longleftrightarrow> r = Inl e \<or> (\<exists>x. r = Inr x \<and> f x = Inl e)"
  by (cases r) simp_all

lemma map_err_simps [simp]: "map_err f (Inl e) = Inl (f e)" "map_err f (Inr x) = Inr x"
  by (simp_all add: map_err_def)

lemma map_err_Inr_iff [simp]: "map_err f r = Inr x \<longleftrightarrow> r = Inr x"
  by (cases r) simp_all

lemma map_err_Inl_iff: "map_err f r = Inl e \<longleftrightarrow> (\<exists>e'. r = Inl e' \<and> e = f e')"
  by (cases r) auto

lemma is_ok_simps [simp]: "\<not> is_ok (Inl e)" "is_ok (Inr x)"
  by (simp_all add: is_ok_def)

lemma is_ok_iff: "is_ok r \<longleftrightarrow> (\<exists>x. r = Inr x)"
  by (cases r) simp_all

text \<open>Collections: unfoldings of record-valued operations, and the facts about each step.\<close>

named_theorems frame_simps "what an operation leaves unchanged"
named_theorems op_defs "definitions of straight-line operations, unfolded together"

section \<open>Lists\<close>

text \<open>
  \<open>Iterator::find\<close> and \<open>Iterator::position\<close>. \<open>find\<close> is HOL's; \<open>position\<close> is the
  index of the first element that satisfies the test.
\<close>

fun position :: "('a \<Rightarrow> bool) \<Rightarrow> 'a list \<Rightarrow> nat option" where
  "position P [] = None"
| "position P (x # xs) = (if P x then Some 0 else map_option Suc (position P xs))"

lemma position_None_iff: "position P xs = None \<longleftrightarrow> (\<forall>x\<in>set xs. \<not> P x)"
  by (induction xs) auto

lemma position_SomeD: "position P xs = Some i \<Longrightarrow> i < length xs \<and> P (xs ! i)"
  by (induction xs arbitrary: i) (auto split: if_splits)

lemma find_None_all: "find P xs = None \<longleftrightarrow> (\<forall>x\<in>set xs. \<not> P x)"
  by (auto simp: find_None_iff)

lemma find_SomeD: "find P xs = Some x \<Longrightarrow> x \<in> set xs \<and> P x"
  by (auto simp: find_Some_iff)

lemma ex_le_Suc_iff: "(\<exists>k\<le>Suc n. P k) \<longleftrightarrow> P 0 \<or> (\<exists>k\<le>n. P (Suc k))"
proof
  assume "\<exists>k\<le>Suc n. P k"
  then obtain k where "k \<le> Suc n" "P k" by blast
  then show "P 0 \<or> (\<exists>k\<le>n. P (Suc k))" by (cases k) auto
qed auto

lemma sum_list_update_pred:
  fixes xs :: "nat list"
  assumes "i < length xs" and "xs ! i = Suc k"
  shows "Suc (sum_list (xs[i := k])) = sum_list xs"
  using assms
proof (induction xs arbitrary: i)
  case Nil
  then show ?case by simp
next
  case (Cons x xs)
  then show ?case by (cases i) auto
qed

lemma distinct_map_nth_eq:
  assumes "distinct (map f xs)" "i < length xs" "j < length xs" "f (xs ! i) = f (xs ! j)"
  shows "i = j"
  using assms by (simp add: distinct_conv_nth) metis

text \<open>Association of keys with positions, as \<open>iter().enumerate()\<close> collected into a map.\<close>

lemma map_of_rev_zip_distinct:
  assumes "distinct ks" "length ks = length vs" "i < length ks"
  shows "map_of (rev (zip ks vs)) (ks ! i) = Some (vs ! i)"
proof (rule map_of_is_SomeI)
  show "distinct (map fst (rev (zip ks vs)))"
    using assms by (simp add: rev_map [symmetric])
  show "(ks ! i, vs ! i) \<in> set (rev (zip ks vs))"
    using assms by (auto simp: set_zip)
qed

section \<open>Transition systems\<close>

text \<open>
  The interface between a step relation and the invariants proved about it. A component
  provides the three parameters and the two laws; the client lemmas (every reachable state,
  every state of a run, satisfies the invariant) are proved once here.
\<close>

locale invariant_system =
  fixes start :: "'s \<Rightarrow> bool"
    and step :: "'s \<Rightarrow> 's \<Rightarrow> bool"
    and inv :: "'s \<Rightarrow> bool"
  assumes start_inv: "start s \<Longrightarrow> inv s"
    and step_inv: "step s t \<Longrightarrow> inv s \<Longrightarrow> inv t"
begin

lemma run_keeps_inv: "step\<^sup>*\<^sup>* s t \<Longrightarrow> inv s \<Longrightarrow> inv t"
  by (induction rule: rtranclp_induct) (auto intro: step_inv)

lemma reached_inv: "start s \<Longrightarrow> step\<^sup>*\<^sup>* s t \<Longrightarrow> inv t"
  by (blast intro: run_keeps_inv start_inv)

text \<open>A relation between two states that every step from a good state keeps holds over runs.\<close>

lemma run_relation:
  assumes refl: "\<And>s. R s s" and trans: "\<And>a b c. R a b \<Longrightarrow> R b c \<Longrightarrow> R a c"
    and one: "\<And>a b. inv a \<Longrightarrow> step a b \<Longrightarrow> R a b"
    and run: "step\<^sup>*\<^sup>* s t" and s: "inv s"
  shows "R s t"
  using run
proof (induction rule: rtranclp_induct)
  case base
  show ?case by (rule refl)
next
  case (step y z)
  from step.hyps(1) s have "inv y" by (rule run_keeps_inv)
  with step show ?case by (blast intro: trans one)
qed

end

text \<open>
  A transition system that also has a measure which every step decreases: no run is infinite,
  and a run from a good state has at most as many steps as the measure says.
\<close>

locale terminating_system = invariant_system +
  fixes rank :: "'a \<Rightarrow> nat"
  assumes step_rank: "inv s \<Longrightarrow> step s t \<Longrightarrow> rank t < rank s"
begin

lemma steps_rank: "(step ^^ n) s t \<Longrightarrow> inv s \<Longrightarrow> n + rank t \<le> rank s"
proof (induction n arbitrary: t)
  case 0
  then show ?case by simp
next
  case (Suc n)
  then obtain u where u: "(step ^^ n) s u" "step u t" by auto
  then have "step\<^sup>*\<^sup>* s u" by (simp add: relpowp_imp_rtranclp)
  then have "inv u" using Suc.prems(2) by (rule run_keeps_inv)
  then have "rank t < rank u" using u(2) by (rule step_rank)
  then show ?case using Suc.IH [OF u(1) Suc.prems(2)] by simp
qed

lemma runs_bounded: "(step ^^ n) s t \<Longrightarrow> inv s \<Longrightarrow> n \<le> rank s"
  using steps_rank by fastforce

text \<open>From every good state some run ends in a state with no further step.\<close>

lemma reaches_quiescence:
  assumes "inv s"
  shows "\<exists>t. step\<^sup>*\<^sup>* s t \<and> (\<forall>u. \<not> step t u)"
  using assms
proof (induction "rank s" arbitrary: s rule: less_induct)
  case less
  show ?case
  proof (cases "\<exists>u. step s u")
    case True
    then obtain u where u: "step s u" by blast
    with less.prems have "rank u < rank s" "inv u" by (auto intro: step_rank step_inv)
    then obtain t where "step\<^sup>*\<^sup>* u t" "\<forall>v. \<not> step t v" using less.hyps by blast
    with u show ?thesis by (meson converse_rtranclp_into_rtranclp)
  next
    case False
    then show ?thesis by blast
  qed
qed

end

section \<open>Names of enumerations\<close>

text \<open>
  \<open>as_str\<close> and \<open>from_str\<close> of the status enumerations, which the stores write to and
  read from text columns.
\<close>

locale str_codec =
  fixes enc :: "'a \<Rightarrow> string" and dec :: "string \<Rightarrow> 'a option"
  assumes dec_enc: "dec (enc x) = Some x"
    and enc_dec: "dec s = Some x \<Longrightarrow> enc x = s"
begin

lemma dec_iff: "dec s = Some x \<longleftrightarrow> s = enc x"
  using dec_enc enc_dec by auto

lemma enc_inj: "enc x = enc y \<longleftrightarrow> x = y"
  by (metis dec_enc option.inject)

lemma dec_None_iff: "dec s = None \<longleftrightarrow> s \<notin> range enc"
  by (metis dec_iff not_None_eq rangeE rangeI)

end

end
