(* ===== verification/RustStr.thy ===== *)
theory RustStr
  imports Prelude
begin

text \<open>
  The part of Rust's \<open>str\<close> the source uses. A \<open>String\<close> is modelled by its UTF-8 bytes
  (a \<open>char list\<close>, one \<open>char\<close> per byte), so \<open>len()\<close> is \<open>length\<close>. UTF-8 is
  self-synchronising: on well-formed text the encoding of a character or of a substring
  matches only at character boundaries, so the byte-wise searches below find exactly what
  the library's character-wise ones find.
\<close>

section \<open>White space: trim and split\<close>

text \<open>The UTF-8 encodings of the 25 characters with the Unicode property White_Space.\<close>

definition ws_chars :: "string list" where
  "ws_chars =
     [[CHR 0x20], [CHR 0x09], [CHR 0x0A], [CHR 0x0B], [CHR 0x0C], [CHR 0x0D],
      [CHR 0xC2, CHR 0x85], [CHR 0xC2, CHR 0xA0],
      [CHR 0xE1, CHR 0x9A, CHR 0x80],
      [CHR 0xE2, CHR 0x80, CHR 0x80], [CHR 0xE2, CHR 0x80, CHR 0x81],
      [CHR 0xE2, CHR 0x80, CHR 0x82], [CHR 0xE2, CHR 0x80, CHR 0x83],
      [CHR 0xE2, CHR 0x80, CHR 0x84], [CHR 0xE2, CHR 0x80, CHR 0x85],
      [CHR 0xE2, CHR 0x80, CHR 0x86], [CHR 0xE2, CHR 0x80, CHR 0x87],
      [CHR 0xE2, CHR 0x80, CHR 0x88], [CHR 0xE2, CHR 0x80, CHR 0x89],
      [CHR 0xE2, CHR 0x80, CHR 0x8A],
      [CHR 0xE2, CHR 0x80, CHR 0xA8], [CHR 0xE2, CHR 0x80, CHR 0xA9],
      [CHR 0xE2, CHR 0x80, CHR 0xAF], [CHR 0xE2, CHR 0x81, CHR 0x9F],
      [CHR 0xE3, CHR 0x80, CHR 0x80]]"

text \<open>The text after the first of the given (nonempty) strings that it starts with.\<close>

fun drop_one :: "string list \<Rightarrow> string \<Rightarrow> string option" where
  "drop_one [] s = None"
| "drop_one (e # es) s =
     (if e \<noteq> [] \<and> prefix e s then Some (drop (length e) s) else drop_one es s)"

lemma drop_one_SomeD: "drop_one es s = Some r \<Longrightarrow> \<exists>e. e \<noteq> [] \<and> s = e @ r"
  by (induction es) (auto simp: prefix_def split: if_splits)

lemma drop_one_shorter: "drop_one es s = Some r \<Longrightarrow> length r < length s"
  by (auto dest!: drop_one_SomeD)

lemma drop_one_Nil [simp]: "drop_one es [] = None"
  by (induction es) auto

function strip_left :: "string list \<Rightarrow> string \<Rightarrow> string" where
  "strip_left es s = (case drop_one es s of None \<Rightarrow> s | Some r \<Rightarrow> strip_left es r)"
  by pat_completeness auto
termination
  by (relation "measure (\<lambda>(es, s). length s)") (auto dest: drop_one_shorter)

declare strip_left.simps [simp del]

lemma strip_left_suffix: "\<exists>p. s = p @ strip_left es s"
proof (induction es s rule: strip_left.induct)
  case (1 es s)
  show ?case
  proof (cases "drop_one es s")
    case None
    then show ?thesis by (simp add: strip_left.simps [of es s])
  next
    case (Some r)
    then obtain p where p: "r = p @ strip_left es r" using 1 by blast
    obtain e where e: "s = e @ r" using drop_one_SomeD [OF Some] by blast
    have "strip_left es s = strip_left es r"
      using Some by (simp add: strip_left.simps [of es s])
    with p e have "s = (e @ p) @ strip_left es s" by (metis append.assoc)
    then show ?thesis by blast
  qed
qed

definition trim_start :: "string \<Rightarrow> string" where
  "trim_start s = strip_left ws_chars s"

definition trim_end :: "string \<Rightarrow> string" where
  "trim_end s = rev (strip_left (map rev ws_chars) (rev s))"

definition trim :: "string \<Rightarrow> string" where
  "trim s = trim_end (trim_start s)"

lemma trim_sublist: "\<exists>a b. s = a @ trim s @ b"
proof -
  obtain a where a: "s = a @ trim_start s"
    using strip_left_suffix [of s ws_chars] by (auto simp: trim_start_def)
  obtain b where "rev (trim_start s) = b @ strip_left (map rev ws_chars) (rev (trim_start s))"
    using strip_left_suffix by blast
  then have "trim_start s = trim s @ rev b"
    by (metis rev_append rev_rev_ident trim_def trim_end_def)
  with a show ?thesis by metis
qed

lemma length_trim_le: "length (trim s) \<le> length s"
  using trim_sublist [of s] by (metis length_append trans_le_add1 trans_le_add2 le_refl)

lemma set_trim_subset: "set (trim s) \<subseteq> set s"
  using trim_sublist [of s] by (metis set_append sup.cobounded1 sup.cobounded2 subset_trans)

text \<open>Text without any white space is left alone.\<close>

lemma drop_one_None_if: "\<forall>e\<in>set es. e = [] \<or> \<not> prefix e s \<Longrightarrow> drop_one es s = None"
  by (induction es) auto

lemma strip_left_fix: "drop_one es s = None \<Longrightarrow> strip_left es s = s"
  by (simp add: strip_left.simps [of es s])

text \<open>\<open>split_whitespace\<close>: the nonempty pieces between white space; \<open>w\<close> is the piece read so far.\<close>

function split_ws_from :: "string \<Rightarrow> string \<Rightarrow> string list" where
  "split_ws_from w s =
     (case drop_one ws_chars s of
        Some r \<Rightarrow> (if w = [] then [] else [w]) @ split_ws_from [] r
      | None \<Rightarrow> (case s of
            [] \<Rightarrow> (if w = [] then [] else [w])
          | c # cs \<Rightarrow> split_ws_from (w @ [c]) cs))"
  by pat_completeness auto
termination
  by (relation "measure (\<lambda>(w, s). length s)") (auto dest: drop_one_shorter)

declare split_ws_from.simps [simp del]

definition split_whitespace :: "string \<Rightarrow> string list" where
  "split_whitespace s = split_ws_from [] s"

lemma split_ws_from_nonempty: "[] \<notin> set (split_ws_from w s)"
proof (induction w s rule: split_ws_from.induct)
  case (1 w s)
  then show ?case
    by (subst split_ws_from.simps) (auto split: option.split list.split)
qed

section \<open>Prefixes, search and replacement\<close>

definition starts_with :: "string \<Rightarrow> string \<Rightarrow> bool" where
  "starts_with s p = prefix p s"

definition strip_prefix :: "string \<Rightarrow> string \<Rightarrow> string option" where
  "strip_prefix p s = (if prefix p s then Some (drop (length p) s) else None)"

lemma strip_prefix_append [simp]: "strip_prefix p (p @ s) = Some s"
  by (simp add: strip_prefix_def)

fun str_contains :: "string \<Rightarrow> string \<Rightarrow> bool" where
  "str_contains [] p = (p = [])"
| "str_contains (c # s) p = (prefix p (c # s) \<or> str_contains s p)"

lemma str_contains_sublist: "str_contains s p \<longleftrightarrow> sublist p s"
  by (induction s) (auto simp: sublist_Cons_right)

text \<open>
  \<open>str::replace\<close>: every non-overlapping match from left to right. No caller in the source
  passes an empty pattern (the library would insert the replacement between all characters);
  the model returns the text unchanged there.
\<close>

function str_replace :: "string \<Rightarrow> string \<Rightarrow> string \<Rightarrow> string" where
  "str_replace p r [] = []"
| "str_replace p r (c # s) =
     (if p \<noteq> [] \<and> prefix p (c # s) then r @ str_replace p r (drop (length p) (c # s))
      else c # str_replace p r s)"
  by pat_completeness auto
termination
  by (relation "measure (\<lambda>(p, r, s). length s)") auto

text \<open>
  What replacing by a marker can and cannot create. The marker \<open>m\<close> is delimited by
  characters that the pattern \<open>u\<close> does not contain, so no occurrence of \<open>u\<close> can straddle
  the edge of a marker: every occurrence in the result lies in text copied from the input.
\<close>

lemma replace_prefixD:
  "m \<noteq> [] \<Longrightarrow> hd m \<notin> set u \<Longrightarrow> prefix u (str_replace v m s) \<Longrightarrow> prefix u s"
proof (induction v m s arbitrary: u rule: str_replace.induct)
  case (1 p r)
  then show ?case by simp
next
  case (2 p r c s)
  show ?case
  proof (cases "u = [] \<or> (p \<noteq> [] \<and> prefix p (c # s))")
    case True
    then show ?thesis using "2.prems" by (cases u; cases r) auto
  next
    case False
    then obtain d u' where u: "u = d # u'" by (cases u) auto
    with False "2.prems" have "d = c" "prefix u' (str_replace p r s)" by auto
    moreover from u "2.prems" have "hd r \<notin> set u'" by simp
    ultimately have "prefix u' s" using "2.IH"(2) False "2.prems"(1) by blast
    with u \<open>d = c\<close> show ?thesis by simp
  qed
qed

lemma replace_not_prefix:
  assumes "m \<noteq> []" "hd m \<notin> set v" "v \<noteq> []"
  shows "\<not> prefix v (str_replace v m s)"
proof
  assume p: "prefix v (str_replace v m s)"
  with assms have "prefix v s" by (blast dest: replace_prefixD)
  with assms obtain c t where s: "s = c # t" by (cases s) auto
  with \<open>prefix v s\<close> assms have "str_replace v m s = m @ str_replace v m (drop (length v) s)"
    by simp
  with p assms show False by (cases v; cases m) auto
qed

lemma sublist_after_marker:
  assumes "sublist u (m @ r)" "m \<noteq> []" "last m \<notin> set u" "\<not> sublist u m"
  shows "sublist u r"
proof -
  consider "sublist u r" | a b where "u = a @ b" "suffix a m" "prefix b r"
    using assms(1,4) by (auto simp: sublist_append)
  then show ?thesis
  proof cases
    case 1
    then show ?thesis .
  next
    case 2
    have "a = []"
    proof (rule ccontr)
      assume "a \<noteq> []"
      with 2 have "last m = last a" by (auto simp: suffix_def)
      with 2 \<open>a \<noteq> []\<close> assms(3) show False by simp
    qed
    with 2 show ?thesis by auto
  qed
qed

lemma sublist_snocD:
  assumes "sublist v (w @ [c])" and "c \<notin> set v"
  shows "sublist v w"
proof -
  obtain a b where ab: "w @ [c] = a @ v @ b" using assms(1) by (auto simp: sublist_def)
  show ?thesis
  proof (cases b rule: rev_cases)
    case Nil
    with ab assms(2) have "v = []" by (cases v rule: rev_cases) auto
    then show ?thesis by simp
  next
    case (snoc b' d)
    with ab have "w = a @ v @ b'" by simp
    then show ?thesis by (auto simp: sublist_def)
  qed
qed

definition marker_for :: "string \<Rightarrow> string \<Rightarrow> bool" where
  "marker_for m u \<longleftrightarrow> m \<noteq> [] \<and> hd m \<notin> set u \<and> last m \<notin> set u \<and> \<not> str_contains m u"

lemma str_replace_keeps_out:
  "marker_for m u \<Longrightarrow> \<not> str_contains s u \<Longrightarrow> \<not> str_contains (str_replace v m s) u"
proof (induction v m s rule: str_replace.induct)
  case (1 p r)
  then show ?case by simp
next
  case (2 p r c s)
  note m = "2.prems"(1) [unfolded marker_for_def str_contains_sublist]
  show ?case
  proof (cases "p \<noteq> [] \<and> prefix p (c # s)")
    case True
    have "sublist (drop (length p) (c # s)) (c # s)"
      by (rule suffix_imp_sublist) (rule suffix_drop)
    then have "\<not> str_contains (str_replace p r (drop (length p) (c # s))) u"
      using "2.IH"(1) [OF True] "2.prems"
      by (metis str_contains_sublist sublist_order.order_trans)
    then show ?thesis
      using True m sublist_after_marker by (auto simp: str_contains_sublist)
  next
    case False
    then have eq: "str_replace p r (c # s) = c # str_replace p r s" by auto
    have "\<not> str_contains (str_replace p r s) u"
      using "2.IH"(2) [OF False] "2.prems" by simp
    moreover have "\<not> prefix u (c # str_replace p r s)"
      using replace_prefixD [of r u p "c # s"] "2.prems"(2) m eq by auto
    ultimately show ?thesis unfolding eq by simp
  qed
qed

lemma str_replace_removes:
  "marker_for m v \<Longrightarrow> v \<noteq> [] \<Longrightarrow> \<not> str_contains (str_replace v m s) v"
proof (induction v m s rule: str_replace.induct)
  case (1 p r)
  then show ?case by simp
next
  case (2 p r c s)
  note m = "2.prems"(1) [unfolded marker_for_def str_contains_sublist]
  show ?case
  proof (cases "p \<noteq> [] \<and> prefix p (c # s)")
    case True
    then have "\<not> str_contains (str_replace p r (drop (length p) (c # s))) p"
      using "2.IH"(1) "2.prems" by blast
    then show ?thesis
      using True m sublist_after_marker by (auto simp: str_contains_sublist)
  next
    case False
    then have eq: "str_replace p r (c # s) = c # str_replace p r s" by auto
    have "\<not> str_contains (str_replace p r s) p"
      using "2.IH"(2) [OF False] "2.prems" by simp
    moreover have "\<not> prefix p (c # str_replace p r s)"
      using replace_not_prefix [of r p "c # s"] "2.prems" m eq by auto
    ultimately show ?thesis unfolding eq by simp
  qed
qed

lemma str_replace_absent: "\<not> str_contains s v \<Longrightarrow> str_replace v m s = s"
  by (induction v m s rule: str_replace.induct) auto

section \<open>Joining\<close>

fun str_join :: "string \<Rightarrow> string list \<Rightarrow> string" where
  "str_join sep [] = []"
| "str_join sep [x] = x"
| "str_join sep (x # y # ys) = x @ sep @ str_join sep (y # ys)"

end
