(* ===== verification/Json.thy ===== *)
theory Json
  imports RustStr "HOL-Library.Char_ord" "HOL-Library.List_Lexorder"
begin

text \<open>
  The value type of the JSON library as the source uses it, and the third-party functions the
  source calls on it. \<open>serde_json::Map\<close> is an ordered map (its \<open>preserve_order\<close> feature is
  off), so an object is a list of entries in ascending key order. A number is one of the three
  cases of the library's \<open>Number\<close>; the text of a floating-point number is opaque, since the
  source never looks inside one.
\<close>

datatype json_number = PosInt u64 | NegInt i64 | Float string

datatype json =
    JNull
  | JBool bool
  | JNumber json_number
  | JString string
  | JArray "json list"
  | JObject "(string \<times> json) list"

fun json_get :: "json \<Rightarrow> string \<Rightarrow> json option" where
  "json_get (JObject m) k = map_of m k"
| "json_get _ k = None"

fun as_str :: "json \<Rightarrow> string option" where
  "as_str (JString s) = Some s"
| "as_str _ = None"

fun as_array :: "json \<Rightarrow> json list option" where
  "as_array (JArray a) = Some a"
| "as_array _ = None"

fun as_u64 :: "json \<Rightarrow> u64 option" where
  "as_u64 (JNumber (PosInt n)) = Some n"
| "as_u64 _ = None"

fun is_object :: "json \<Rightarrow> bool" where
  "is_object (JObject _) = True"
| "is_object _ = False"

fun is_null :: "json \<Rightarrow> bool" where
  "is_null JNull = True"
| "is_null _ = False"

fun is_string :: "json \<Rightarrow> bool" where
  "is_string (JString _) = True"
| "is_string _ = False"

text \<open>\<open>v.get(k).and_then(|x| x.as_str())\<close>, the accessor chain used throughout.\<close>

definition get_str :: "json \<Rightarrow> string \<Rightarrow> string option" where
  "get_str v k = Option.bind (json_get v k) as_str"

text \<open>The \<open>json!({...})\<close> macro: entries are inserted one by one into an ordered map.\<close>

fun put_key :: "string \<Rightarrow> json \<Rightarrow> (string \<times> json) list \<Rightarrow> (string \<times> json) list" where
  "put_key k v [] = [(k, v)]"
| "put_key k v ((k', v') # m) =
     (if k < k' then (k, v) # (k', v') # m
      else if k = k' then (k, v) # m
      else (k', v') # put_key k v m)"

definition json_object :: "(string \<times> json) list \<Rightarrow> json" where
  "json_object kvs = JObject (fold (\<lambda>(k, v) m. put_key k v m) kvs [])"

lemma map_of_put_key [simp]: "map_of (put_key k v m) = (map_of m)(k \<mapsto> v)"
  by (induction m) (auto simp: fun_eq_iff)

lemma map_of_fold_put_key:
  "map_of (fold (\<lambda>(k, v) m. put_key k v m) kvs m) = map_of m ++ map_of (rev kvs)"
  by (induction kvs arbitrary: m) (auto simp: map_add_def fun_eq_iff split: option.split)

lemma json_get_object [simp]: "json_get (json_object kvs) k = map_of (rev kvs) k"
  by (simp add: json_object_def map_of_fold_put_key)

text \<open>
  Third-party functions, as parameters: \<open>serde_json::to_string\<close> (\<open>None\<close> for its error),
  \<open>serde_json::from_str\<close> and \<open>Sha256::digest\<close>.
\<close>

record libs =
  lib_to_string :: "json \<Rightarrow> string option"
  lib_from_str :: "string \<Rightarrow> json option"
  lib_sha256 :: "string \<Rightarrow> u8 list"

end
