(* ===== verification/Ids.thy ===== *)
theory Ids
  imports RustStr
begin

text \<open>
  \<open>src/sessions/id.rs\<close> and \<open>src/events/id.rs\<close>: the prefixed string identifiers and their
  conversions to and from the canonical 128-bit identifiers. A local identifier is its string
  (\<open>from_string\<close> and \<open>as_str\<close> are the identity on it). The \<open>uuid\<close> crate is a parameter: parsing,
  the simple (hyphen-free) form, and the name-based version 5 of a text.
\<close>

type_synonym session_id = string
type_synonym run_id = string
type_synonym action_id = string
type_synonym approval_id = string
type_synonym message_id = string
type_synonym event_id = string

record 'u uuid_lib =
  uuid_parse :: "string \<Rightarrow> 'u option"
  uuid_simple :: "'u \<Rightarrow> string"
  uuid_v5_oid :: "string \<Rightarrow> 'u"

text \<open>The crate's documented law: the simple form of an identifier parses back to it.\<close>

definition uuid_lib_ok :: "'u uuid_lib \<Rightarrow> bool" where
  "uuid_lib_ok U \<longleftrightarrow> (\<forall>u. uuid_parse U (uuid_simple U u) = Some u)"

section \<open>Minting: the macro \<open>define_id!\<close>\<close>

text \<open>\<open>format!("{}_{}", $prefix, Uuid::new_v4().simple())\<close>; the fresh identifier is given.\<close>

definition mint_id :: "'u uuid_lib \<Rightarrow> string \<Rightarrow> 'u \<Rightarrow> string" where
  "mint_id U name u = name @ ''_'' @ uuid_simple U u"

definition new_session_id :: "'u uuid_lib \<Rightarrow> 'u \<Rightarrow> session_id" where
  "new_session_id U = mint_id U ''sess''"

definition new_run_id :: "'u uuid_lib \<Rightarrow> 'u \<Rightarrow> run_id" where
  "new_run_id U = mint_id U ''run''"

definition new_action_id :: "'u uuid_lib \<Rightarrow> 'u \<Rightarrow> action_id" where
  "new_action_id U = mint_id U ''act''"

definition new_approval_id :: "'u uuid_lib \<Rightarrow> 'u \<Rightarrow> approval_id" where
  "new_approval_id U = mint_id U ''appr''"

definition new_message_id :: "'u uuid_lib \<Rightarrow> 'u \<Rightarrow> message_id" where
  "new_message_id U = mint_id U ''msg''"

definition new_event_id :: "'u uuid_lib \<Rightarrow> 'u \<Rightarrow> event_id" where
  "new_event_id U u = ''evt_'' @ uuid_simple U u"

section \<open>Conversions\<close>

text \<open>
  \<open>let raw = s.as_str().strip_prefix(p).unwrap_or(s.as_str())\<close>; a raw text that parses is the
  identifier, any other is hashed whole (prefix included).
\<close>

definition raw_of :: "string \<Rightarrow> string \<Rightarrow> string" where
  "raw_of p s = (case strip_prefix p s of Some r \<Rightarrow> r | None \<Rightarrow> s)"

definition canonical_of :: "'u uuid_lib \<Rightarrow> string \<Rightarrow> string \<Rightarrow> 'u" where
  "canonical_of U p s =
     (case uuid_parse U (raw_of p s) of Some u \<Rightarrow> u | None \<Rightarrow> uuid_v5_oid U s)"

definition session_to_canonical :: "'u uuid_lib \<Rightarrow> session_id \<Rightarrow> 'u" where
  "session_to_canonical U = canonical_of U ''sess_''"

definition session_from_canonical :: "'u uuid_lib \<Rightarrow> 'u \<Rightarrow> session_id" where
  "session_from_canonical U u = ''sess_'' @ uuid_simple U u"

definition run_to_canonical :: "'u uuid_lib \<Rightarrow> run_id \<Rightarrow> 'u" where
  "run_to_canonical U = canonical_of U ''run_''"

definition run_from_canonical :: "'u uuid_lib \<Rightarrow> 'u \<Rightarrow> run_id" where
  "run_from_canonical U u = ''run_'' @ uuid_simple U u"

definition action_to_canonical :: "'u uuid_lib \<Rightarrow> action_id \<Rightarrow> 'u" where
  "action_to_canonical U = canonical_of U ''act_''"

definition action_from_canonical :: "'u uuid_lib \<Rightarrow> 'u \<Rightarrow> action_id" where
  "action_from_canonical U u = ''act_'' @ uuid_simple U u"

definition approval_to_canonical :: "'u uuid_lib \<Rightarrow> approval_id \<Rightarrow> 'u" where
  "approval_to_canonical U = canonical_of U ''appr_''"

definition approval_from_canonical :: "'u uuid_lib \<Rightarrow> 'u \<Rightarrow> approval_id" where
  "approval_from_canonical U u = ''appr_'' @ uuid_simple U u"

definition event_to_canonical :: "'u uuid_lib \<Rightarrow> event_id \<Rightarrow> 'u" where
  "event_to_canonical U = canonical_of U ''evt_''"

definition event_from_canonical :: "'u uuid_lib \<Rightarrow> 'u \<Rightarrow> event_id" where
  "event_from_canonical U u = ''evt_'' @ uuid_simple U u"

section \<open>Properties\<close>

lemma raw_of_append [simp]: "raw_of p (p @ s) = s"
  by (simp add: raw_of_def)

lemma canonical_of_prefixed:
  "uuid_lib_ok U \<Longrightarrow> canonical_of U p (p @ uuid_simple U u) = u"
  by (simp add: canonical_of_def uuid_lib_ok_def)

text \<open>
  C30: For each of the five identifier kinds that have a canonical form, converting a canonical
  identifier to the local one and back gives it again, and a freshly minted local identifier
  carries exactly the identifier it was minted from.
\<close>

theorem id_roundtrips:
  assumes "uuid_lib_ok U"
  shows "session_to_canonical U (session_from_canonical U u) = u \<and>
    run_to_canonical U (run_from_canonical U u) = u \<and>
    action_to_canonical U (action_from_canonical U u) = u \<and>
    approval_to_canonical U (approval_from_canonical U u) = u \<and>
    event_to_canonical U (event_from_canonical U u) = u \<and>
    session_to_canonical U (new_session_id U u) = u \<and>
    run_to_canonical U (new_run_id U u) = u \<and>
    action_to_canonical U (new_action_id U u) = u \<and>
    approval_to_canonical U (new_approval_id U u) = u \<and>
    event_to_canonical U (new_event_id U u) = u"
proof -
  have m: "canonical_of U (n @ ''_'') (mint_id U n u) = u" for n
    using canonical_of_prefixed [OF assms, of "n @ ''_''" u] by (simp add: mint_id_def)
  note c = canonical_of_prefixed [OF assms]
  show ?thesis
    using c [of "''sess_''" u] c [of "''run_''" u] c [of "''act_''" u] c [of "''appr_''" u]
      c [of "''evt_''" u] m [of "''sess''"] m [of "''run''"] m [of "''act''"] m [of "''appr''"]
    unfolding session_to_canonical_def session_from_canonical_def run_to_canonical_def
      run_from_canonical_def action_to_canonical_def action_from_canonical_def
      approval_to_canonical_def approval_from_canonical_def event_to_canonical_def
      event_from_canonical_def new_session_id_def new_run_id_def new_action_id_def
      new_approval_id_def new_event_id_def
    by simp
qed

text \<open>A library of two identifiers, for the witness.\<close>

definition unit_uuids :: "bool uuid_lib" where
  "unit_uuids = \<lparr>uuid_parse = (\<lambda>s. if s = ''00'' then Some False else if s = ''01'' then Some True else None),
     uuid_simple = (\<lambda>u. if u then ''01'' else ''00''), uuid_v5_oid = (\<lambda>s. False)\<rparr>"

theorem id_roundtrips_witness:
  "uuid_lib_ok unit_uuids \<and> session_from_canonical unit_uuids True = ''sess_01'' \<and>
   session_to_canonical unit_uuids ''sess_01'' = True"
proof -
  have ok: "uuid_lib_ok unit_uuids" by (simp add: uuid_lib_ok_def unit_uuids_def)
  have e: "session_from_canonical unit_uuids True = ''sess_01''"
    by (simp add: session_from_canonical_def unit_uuids_def)
  show ?thesis using ok e id_roundtrips [OF ok, of True] by simp
qed

end
