(* ===== verification/Failure.thy ===== *)
theory Failure
  imports Json
begin

text \<open>
  \<open>src/failure.rs\<close>: the failure vocabulary, the retry rule and the bounded retry loop, cause
  chains with truncated messages, redaction of echoed arguments, and the walk to the root cause.
  Clock readings are supplied by the caller (\<open>now_millis\<close> has no model of its own).
\<close>

section \<open>Vocabulary\<close>

datatype failure_class =
    FcRejected | FcUnavailable | FcTimeout | FcCancelled | FcUncertain | FcFailed
  | FcMalformed | FcApprovalPending

datatype effect_certainty = NoEffect | EcUncertain | EffectOccurred

datatype retry_elig = Retryable nat | NotRetryable

record retry_policy =
  max_attempts :: nat

definition MAX_CAUSE_ENTRIES :: nat where "MAX_CAUSE_ENTRIES = 8"
definition MAX_CAUSE_MESSAGE_BYTES :: nat where "MAX_CAUSE_MESSAGE_BYTES = 512"
definition MAX_ATTEMPTS_CEILING :: nat where "MAX_ATTEMPTS_CEILING = 5"
definition REDACTION_PLACEHOLDER :: string where "REDACTION_PLACEHOLDER = ''[redacted]''"

definition default_retry_policy :: retry_policy where
  "default_retry_policy = \<lparr>max_attempts = 1\<rparr>"

definition retry_eligibility ::
  "failure_class \<Rightarrow> effect_certainty \<Rightarrow> bool \<Rightarrow> retry_policy \<Rightarrow> retry_elig" where
  "retry_eligibility cls certainty idempotent policy =
     (let class_ok = (cls = FcUnavailable);
          attempts = min (max_attempts policy) MAX_ATTEMPTS_CEILING
      in if class_ok \<and> certainty = NoEffect \<and> idempotent \<and> attempts > 1
         then Retryable attempts else NotRetryable)"

definition skill_idempotent :: "string \<Rightarrow> bool" where
  "skill_idempotent skill_name \<longleftrightarrow>
     skill_name \<in> {''read_file'', ''list_dir'', ''git_status'', ''cortex.search'', ''cortex_recall''}"

section \<open>Records and cause chains\<close>

record cause_entry =
  ce_source :: string
  ce_message :: string
  ce_payload_digest :: "string option"

record failure_record =
  fr_sequence :: nat
  fr_run_id :: string
  fr_step_index :: nat
  fr_tool_call_id :: string
  fr_parent_call_id :: "string option"
  fr_tool_name :: string
  fr_attempt :: nat
  fr_class :: failure_class
  fr_certainty :: effect_certainty
  fr_created_at :: i64
  fr_failed_at :: i64
  fr_cause :: "cause_entry list"
  fr_cause_truncated :: bool

record tool_fault =
  tf_class :: failure_class
  tf_certainty :: effect_certainty
  tf_message :: string

definition fault_rejected :: "string \<Rightarrow> tool_fault" where
  "fault_rejected m = \<lparr>tf_class = FcRejected, tf_certainty = NoEffect, tf_message = m\<rparr>"

definition fault_unavailable :: "string \<Rightarrow> tool_fault" where
  "fault_unavailable m = \<lparr>tf_class = FcUnavailable, tf_certainty = NoEffect, tf_message = m\<rparr>"

text \<open>\<open>str::is_char_boundary\<close>: an end of the text, or a byte that does not continue a character.\<close>

definition cont_byte :: "char \<Rightarrow> bool" where
  "cont_byte c \<longleftrightarrow> 128 \<le> (of_char c :: nat) \<and> (of_char c :: nat) < 192"

definition is_char_boundary :: "string \<Rightarrow> nat \<Rightarrow> bool" where
  "is_char_boundary s i \<longleftrightarrow> i = 0 \<or> i = length s \<or> (i < length s \<and> \<not> cont_byte (s ! i))"

text \<open>The loop \<open>while end > 0 && !s.is_char_boundary(end) { end -= 1; }\<close>.\<close>

fun back_to_boundary :: "string \<Rightarrow> nat \<Rightarrow> nat" where
  "back_to_boundary s 0 = 0"
| "back_to_boundary s (Suc e) =
     (if is_char_boundary s (Suc e) then Suc e else back_to_boundary s e)"

definition truncate_bytes :: "string \<Rightarrow> nat \<Rightarrow> string" where
  "truncate_bytes s n = (if length s \<le> n then s else take (back_to_boundary s n) s)"

text \<open>\<open>{:02x}\<close>\<close>

definition hex_digit :: "nat \<Rightarrow> char" where
  "hex_digit n = ''0123456789abcdef'' ! (n mod 16)"

definition hex_byte :: "u8 \<Rightarrow> string" where
  "hex_byte b = [hex_digit (unat b div 16), hex_digit (unat b)]"

definition payload_digest :: "libs \<Rightarrow> json \<Rightarrow> string" where
  "payload_digest L payload =
     (let bytes = (case lib_to_string L payload of Some t \<Rightarrow> t | None \<Rightarrow> [])
      in ''sha256:'' @ concat (map hex_byte (lib_sha256 L bytes)))"

definition new_failure_record ::
  "nat \<Rightarrow> string \<Rightarrow> nat \<Rightarrow> string \<Rightarrow> string option \<Rightarrow> string \<Rightarrow> nat \<Rightarrow> failure_class \<Rightarrow>
   effect_certainty \<Rightarrow> i64 \<Rightarrow> i64 \<Rightarrow> failure_record" where
  "new_failure_record sq run step call parent tool attempt cls certainty created failed =
     \<lparr>fr_sequence = sq, fr_run_id = run, fr_step_index = step, fr_tool_call_id = call,
      fr_parent_call_id = parent, fr_tool_name = tool, fr_attempt = attempt, fr_class = cls,
      fr_certainty = certainty, fr_created_at = created, fr_failed_at = failed,
      fr_cause = [], fr_cause_truncated = False\<rparr>"

definition push_cause ::
  "libs \<Rightarrow> string \<Rightarrow> string \<Rightarrow> json option \<Rightarrow> failure_record \<Rightarrow> failure_record" where
  "push_cause L src message payload r =
     (if length (fr_cause r) \<ge> MAX_CAUSE_ENTRIES then r\<lparr>fr_cause_truncated := True\<rparr>
      else r\<lparr>fr_cause := fr_cause r @
        [\<lparr>ce_source = src, ce_message = truncate_bytes message MAX_CAUSE_MESSAGE_BYTES,
          ce_payload_digest = map_option (payload_digest L) payload\<rparr>]\<rparr>)"

section \<open>Redaction\<close>

fun collect_strings :: "json \<Rightarrow> string list" where
  "collect_strings (JString s) = (if length s \<ge> 4 then [s] else [])"
| "collect_strings (JArray a) = concat (map collect_strings a)"
| "collect_strings (JObject m) = concat (map (\<lambda>e. collect_strings (snd e)) m)"
| "collect_strings _ = []"

definition redact_step :: "string \<Rightarrow> string \<Rightarrow> string" where
  "redact_step v out =
     (if str_contains out v then str_replace v REDACTION_PLACEHOLDER out else out)"

definition redact_payload_echoes :: "string \<Rightarrow> json \<Rightarrow> string" where
  "redact_payload_echoes message args =
     fold redact_step (sort_key (\<lambda>v. - int (length v)) (collect_strings args)) message"

section \<open>Root cause\<close>

definition known_parent :: "failure_record list \<Rightarrow> failure_record \<Rightarrow> failure_record option" where
  "known_parent records current =
     Option.bind (fr_parent_call_id current)
       (\<lambda>pid. find (\<lambda>r. fr_tool_call_id r = pid) (rev records))"

text \<open>\<open>n\<close> is the number of iterations left of \<open>for _ in 0..=records.len()\<close>.\<close>

fun root_walk :: "failure_record list \<Rightarrow> nat \<Rightarrow> failure_record \<Rightarrow> failure_record" where
  "root_walk records 0 current = current"
| "root_walk records (Suc n) current =
     (case known_parent records current of
        Some p \<Rightarrow> (if fr_sequence p \<noteq> fr_sequence current then root_walk records n p else current)
      | None \<Rightarrow> current)"

definition root_cause :: "failure_record list \<Rightarrow> failure_record \<Rightarrow> failure_record option" where
  "root_cause records start =
     map_option (root_walk records (Suc (length records)))
       (find (\<lambda>r. fr_tool_call_id r = fr_tool_call_id start \<and> fr_attempt r = fr_attempt start)
          records)"

section \<open>The retry loop\<close>

record attempt_failure =
  af_attempt :: nat
  af_fault :: tool_fault
  af_created_at :: i64
  af_failed_at :: i64

text \<open>
  \<open>attempt_fn\<close> is one asynchronous dispatch: it takes the attempt number and the state of the
  world and gives its result with the world afterwards; \<open>now\<close> reads the clock of a world.
\<close>

function retry_from ::
  "('w \<Rightarrow> i64) \<Rightarrow> retry_policy \<Rightarrow> bool \<Rightarrow> (nat \<Rightarrow> 'w \<Rightarrow> (tool_fault + 'a) \<times> 'w) \<Rightarrow>
   nat \<Rightarrow> attempt_failure list \<Rightarrow> 'w \<Rightarrow> ((tool_fault + 'a) \<times> attempt_failure list) \<times> 'w" where
  "retry_from now policy idempotent attempt_fn attempt failures w =
     (case attempt_fn attempt w of
        (Inr v, w') \<Rightarrow> ((Inr v, failures), w')
      | (Inl fault, w') \<Rightarrow>
          let failures' = failures @ [\<lparr>af_attempt = attempt, af_fault = fault,
                af_created_at = now w, af_failed_at = now w'\<rparr>];
              again = (case retry_eligibility (tf_class fault) (tf_certainty fault) idempotent policy of
                  Retryable m \<Rightarrow> attempt < m | NotRetryable \<Rightarrow> False)
          in if again then retry_from now policy idempotent attempt_fn (attempt + 1) failures' w'
             else ((Inl fault, failures'), w'))"
  by pat_completeness auto
termination
  by (relation "measure (\<lambda>(now, policy, idem, f, attempt, fs, w). MAX_ATTEMPTS_CEILING - attempt)")
    (auto simp: retry_eligibility_def Let_def split: if_splits)

declare retry_from.simps [simp del]

definition retry_loop ::
  "('w \<Rightarrow> i64) \<Rightarrow> retry_policy \<Rightarrow> bool \<Rightarrow> (nat \<Rightarrow> 'w \<Rightarrow> (tool_fault + 'a) \<times> 'w) \<Rightarrow> 'w \<Rightarrow>
   ((tool_fault + 'a) \<times> attempt_failure list) \<times> 'w" where
  "retry_loop now policy idempotent attempt_fn w =
     retry_from now policy idempotent attempt_fn 1 [] w"

section \<open>Properties\<close>

subsection \<open>Retry\<close>

lemma retry_eligibility_Retryable:
  "retry_eligibility cls e idem p = Retryable m \<Longrightarrow>
   cls = FcUnavailable \<and> e = NoEffect \<and> idem \<and> m = min (max_attempts p) MAX_ATTEMPTS_CEILING \<and> 1 < m"
  by (auto simp: retry_eligibility_def Let_def split: if_splits)

definition attempts_ok :: "retry_policy \<Rightarrow> bool \<Rightarrow> attempt_failure list \<Rightarrow> bool" where
  "attempts_ok policy idem fs \<longleftrightarrow>
     (\<forall>i<length fs. af_attempt (fs ! i) = i + 1 \<and> tf_class (af_fault (fs ! i)) = FcUnavailable \<and>
        tf_certainty (af_fault (fs ! i)) = NoEffect) \<and>
     (fs \<noteq> [] \<longrightarrow> idem \<and> length fs < min (max_attempts policy) MAX_ATTEMPTS_CEILING)"

text \<open>
  The attempts made so far all failed retryably; the loop either returns a value, with those
  failures, or one more failure, which is the fault returned.
\<close>

lemma retry_from_result:
  "attempts_ok policy idem fs \<Longrightarrow>
   \<exists>gs. attempts_ok policy idem gs \<and>
     (case fst (retry_from now policy idem f (Suc (length fs)) fs w) of
        (Inr v, hs) \<Rightarrow> hs = gs
      | (Inl e, hs) \<Rightarrow> \<exists>a. hs = gs @ [a] \<and> af_fault a = e \<and> af_attempt a = Suc (length gs))"
proof (induction "MAX_ATTEMPTS_CEILING - length fs" arbitrary: fs w rule: less_induct)
  case less
  obtain r w' where r: "f (Suc (length fs)) w = (r, w')" by force
  show ?case
  proof (cases r)
    case (Inr v)
    with r less.prems show ?thesis by (subst retry_from.simps) auto
  next
    case (Inl e)
    let ?a = "\<lparr>af_attempt = Suc (length fs), af_fault = e, af_created_at = now w,
      af_failed_at = now w'\<rparr>"
    show ?thesis
    proof (cases "\<exists>m. retry_eligibility (tf_class e) (tf_certainty e) idem policy = Retryable m
        \<and> Suc (length fs) < m")
      case True
      then obtain m where m: "retry_eligibility (tf_class e) (tf_certainty e) idem policy = Retryable m"
        "Suc (length fs) < m" by blast
      note el = retry_eligibility_Retryable [OF m(1)]
      have ok: "attempts_ok policy idem (fs @ [?a])"
        using less.prems el m(2) by (auto simp: attempts_ok_def nth_append less_Suc_eq)
      from el m(2) have "length fs < MAX_ATTEMPTS_CEILING" by simp
      then have smaller: "MAX_ATTEMPTS_CEILING - length (fs @ [?a]) < MAX_ATTEMPTS_CEILING - length fs"
        by simp
      have "retry_from now policy idem f (Suc (length fs)) fs w =
          retry_from now policy idem f (Suc (length (fs @ [?a]))) (fs @ [?a]) w'"
        using r Inl m by (subst retry_from.simps) (simp add: Let_def)
      then show ?thesis using less.hyps [OF smaller ok, of w'] by simp
    next
      case False
      then have "retry_from now policy idem f (Suc (length fs)) fs w = ((Inl e, fs @ [?a]), w')"
        using r Inl
        by (subst retry_from.simps) (auto simp: Let_def split: retry_elig.split)
      with less.prems show ?thesis by (intro exI [of _ fs]) simp
    qed
  qed
qed

lemma retry_loop_shape:
  assumes "retry_loop now policy idem f w = ((res, fs), w')"
  shows "map af_attempt fs = [1..<length fs + 1] \<and>
    length fs \<le> max 1 (min (max_attempts policy) MAX_ATTEMPTS_CEILING) \<and>
    (\<not> idem \<longrightarrow> length fs = (if is_ok res then 0 else 1)) \<and>
    (\<forall>a\<in>set (if is_ok res then fs else butlast fs).
       tf_class (af_fault a) = FcUnavailable \<and> tf_certainty (af_fault a) = NoEffect) \<and>
    (\<forall>e. res = Inl e \<longrightarrow> fs \<noteq> [] \<and> af_fault (last fs) = e)"
proof -
  have "attempts_ok policy idem []" by (simp add: attempts_ok_def)
  from retry_from_result [OF this, of now f w]
  obtain gs where gs: "attempts_ok policy idem gs"
    "case (res, fs) of (Inr v, hs) \<Rightarrow> hs = gs
      | (Inl e, hs) \<Rightarrow> \<exists>a. hs = gs @ [a] \<and> af_fault a = e \<and> af_attempt a = Suc (length gs)"
    using assms by (auto simp: retry_loop_def)
  have nums: "map af_attempt gs = [1..<length gs + 1]"
    using gs(1) by (intro nth_equalityI) (simp_all add: attempts_ok_def del: upt_Suc)
  show ?thesis
  proof (cases res)
    case (Inr v)
    with gs nums show ?thesis
      by (auto simp: attempts_ok_def in_set_conv_nth)
  next
    case (Inl e)
    with gs obtain a where "fs = gs @ [a]" "af_fault a = e" "af_attempt a = Suc (length gs)" by auto
    with gs(1) nums Inl show ?thesis
      by (auto simp: attempts_ok_def in_set_conv_nth)
  qed
qed

text \<open>
  C14: The retry loop numbers its attempts 1, 2, 3 and so on; it makes one more attempt only after a
  failure of class Unavailable with no effect, on an idempotent capability, and never more than
  the policy's limit or the ceiling of five. A call that may have had an effect, or that was
  rejected, is therefore dispatched exactly once, as is every call of a capability that is not idempotent; when the loop reports a failure it is the last
  one recorded.
\<close>

theorem retry_loop_only_safe_retries:
  assumes "retry_loop now policy idem f w = ((res, fs), w')"
  shows "map af_attempt fs = [1..<length fs + 1] \<and>
    length fs \<le> max 1 (min (max_attempts policy) MAX_ATTEMPTS_CEILING) \<and>
    (\<not> idem \<longrightarrow> length fs = (if is_ok res then 0 else 1)) \<and>
    (\<forall>a\<in>set (if is_ok res then fs else butlast fs).
       tf_class (af_fault a) = FcUnavailable \<and> tf_certainty (af_fault a) = NoEffect) \<and>
    (\<forall>e. res = Inl e \<longrightarrow> fs \<noteq> [] \<and> af_fault (last fs) = e)"
  by (rule retry_loop_shape [OF assms])

text \<open>A backend that is unreachable twice and then answers, under a policy of three attempts.\<close>

definition flaky :: "nat \<Rightarrow> nat \<Rightarrow> (tool_fault + string) \<times> nat" where
  "flaky attempt w = (if w < 2 then Inl (fault_unavailable ''down'') else Inr ''ok'', w + 1)"

lemma flaky_run:
  "retry_loop int \<lparr>max_attempts = 3\<rparr> True flaky 0 =
    ((Inr ''ok'',
      [\<lparr>af_attempt = 1, af_fault = fault_unavailable ''down'', af_created_at = 0, af_failed_at = 1\<rparr>,
       \<lparr>af_attempt = 2, af_fault = fault_unavailable ''down'', af_created_at = 1, af_failed_at = 2\<rparr>]), 3)"
  by (simp add: retry_loop_def retry_from.simps flaky_def fault_unavailable_def
      retry_eligibility_def MAX_ATTEMPTS_CEILING_def Let_def)

theorem retry_loop_only_safe_retries_witness:
  "\<exists>res fs. retry_loop int \<lparr>max_attempts = 3\<rparr> True flaky 0 = ((res, fs), 3) \<and>
     length fs = 2 \<and> map af_attempt fs = [1..<length fs + 1]"
  using retry_loop_only_safe_retries [OF flaky_run] flaky_run by simp

subsection \<open>Truncation on a character boundary\<close>

text \<open>A character of well-formed UTF-8: a leading byte and at most three continuation bytes.\<close>

definition utf8_char :: "string \<Rightarrow> bool" where
  "utf8_char c \<longleftrightarrow> c \<noteq> [] \<and> \<not> cont_byte (hd c) \<and> list_all cont_byte (tl c) \<and> length c \<le> 4"

lemma back_to_boundary_le: "back_to_boundary s e \<le> e"
  by (induction e) auto

lemma back_to_boundary_boundary: "is_char_boundary s (back_to_boundary s e)"
  by (induction e) (auto simp: is_char_boundary_def)

lemma back_to_boundary_greatest:
  "b \<le> e \<Longrightarrow> is_char_boundary s b \<Longrightarrow> b \<le> back_to_boundary s e"
  by (induction e) (auto simp: le_Suc_eq)

text \<open>In a text made of whole characters the boundaries are exactly the ends of its characters.\<close>

lemma boundary_prefix_iff:
  "list_all utf8_char cs \<Longrightarrow> b \<le> length (concat cs) \<Longrightarrow>
   is_char_boundary (concat cs) b \<longleftrightarrow> (\<exists>k\<le>length cs. b = length (concat (take k cs)))"
proof (induction cs arbitrary: b)
  case Nil
  then show ?case by (simp add: is_char_boundary_def)
next
  case (Cons c cs)
  then have c: "utf8_char c" and cs: "list_all utf8_char cs" by auto
  have tail: "(\<exists>k\<le>length (c # cs). b = length (concat (take k (c # cs)))) \<longleftrightarrow>
      b = 0 \<or> (\<exists>k\<le>length cs. b = length c + length (concat (take k cs)))"
    by (simp add: ex_le_Suc_iff)
  show ?case
  proof (cases "b < length c")
    case True
    with c have "b \<noteq> 0 \<Longrightarrow> cont_byte (c ! b)"
      by (cases c; cases b) (auto simp: utf8_char_def list_all_length)
    with True c have "is_char_boundary (concat (c # cs)) b \<longleftrightarrow> b = 0"
      by (auto simp: is_char_boundary_def nth_append)
    with True show ?thesis unfolding tail by auto
  next
    case False
    then obtain d where d: "b = length c + d" by (metis le_iff_add not_less)
    with Cons.prems have "d \<le> length (concat cs)" by simp
    with cs have IH: "is_char_boundary (concat cs) d \<longleftrightarrow> (\<exists>k\<le>length cs. d = length (concat (take k cs)))"
      by (rule Cons.IH)
    have nz: "c \<noteq> []" using c by (simp add: utf8_char_def)
    have first: "concat cs \<noteq> [] \<Longrightarrow> \<not> cont_byte (concat cs ! 0)"
      using cs by (cases cs) (auto simp: utf8_char_def nth_append hd_conv_nth)
    have "is_char_boundary (concat (c # cs)) b \<longleftrightarrow> is_char_boundary (concat cs) d"
      using d nz first
      by (cases "concat cs = []"; cases "d = 0") (auto simp: is_char_boundary_def nth_append simp del: concat_eq_Nil_conv)
    with IH d nz show ?thesis unfolding tail by auto
  qed
qed

text \<open>
  Cutting a well-formed UTF-8 text to a byte limit keeps a whole number of characters, fits
  the limit, and drops a character only when it would not fit: at most three bytes of the limit
  are left unused.
\<close>

lemma truncate_bytes_whole_chars:
  assumes "list_all utf8_char cs"
  shows "\<exists>k\<le>length cs. truncate_bytes (concat cs) n = concat (take k cs) \<and>
    length (truncate_bytes (concat cs) n) \<le> n \<and>
    (k < length cs \<longrightarrow> n < length (truncate_bytes (concat cs) n) + 4)"
proof (cases "length (concat cs) \<le> n")
  case True
  then show ?thesis by (intro exI [of _ "length cs"]) (simp add: truncate_bytes_def)
next
  case False
  let ?s = "concat cs" and ?b = "back_to_boundary (concat cs) n"
  have b: "?b \<le> n" "is_char_boundary ?s ?b"
    by (rule back_to_boundary_le back_to_boundary_boundary)+
  with False have "?b \<le> length ?s" by simp
  with b(2) assms obtain k where k: "k \<le> length cs" "?b = length (concat (take k cs))"
    by (auto simp: boundary_prefix_iff)
  have eq: "truncate_bytes ?s n = concat (take k cs)"
    using False k
    by (simp add: truncate_bytes_def) (metis append_eq_conv_conj append_take_drop_id concat_append)
  have "n < length (concat (take k cs)) + 4" if "k < length cs"
  proof (rule ccontr)
    assume far: "\<not> n < length (concat (take k cs)) + 4"
    have next_len: "length (concat (take (Suc k) cs)) = ?b + length (cs ! k)"
      using that k(2) by (simp add: take_Suc_conv_app_nth)
    have "0 < length (cs ! k)" "length (cs ! k) \<le> 4"
      using assms that by (auto simp: list_all_length utf8_char_def)
    with next_len far k(2) have le: "length (concat (take (Suc k) cs)) \<le> n" by simp
    have "is_char_boundary ?s (length (concat (take (Suc k) cs)))"
      using assms that le False by (subst boundary_prefix_iff) (auto intro!: exI [of _ "Suc k"])
    from back_to_boundary_greatest [OF le this] next_len \<open>0 < length (cs ! k)\<close>
    show False by simp
  qed
  with k b(1) eq show ?thesis by (intro exI [of _ k]) simp
qed

lemma truncate_bytes_whole_chars_example:
  "list_all utf8_char [''a'', [CHR 0xC3, CHR 0xA9], ''b''] \<and>
   truncate_bytes (concat [''a'', [CHR 0xC3, CHR 0xA9], ''b'']) 2 = ''a'' \<and>
   (\<exists>k\<le>3. truncate_bytes (concat [''a'', [CHR 0xC3, CHR 0xA9], ''b'']) 2
      = concat (take k [''a'', [CHR 0xC3, CHR 0xA9], ''b'']))"
proof -
  have u: "list_all utf8_char [''a'', [CHR 0xC3, CHR 0xA9], ''b'']"
    by (simp add: utf8_char_def cont_byte_def)
  have "truncate_bytes (concat [''a'', [CHR 0xC3, CHR 0xA9], ''b'']) 2 = ''a''"
    by (simp add: truncate_bytes_def is_char_boundary_def cont_byte_def numeral_2_eq_2)
  moreover have "length [''a'', [CHR 0xC3, CHR 0xA9], ''b''] = 3" by simp
  ultimately show ?thesis using u truncate_bytes_whole_chars [OF u, of 2] by metis
qed

subsection \<open>Cause chains\<close>

lemma length_truncate_bytes: "length (truncate_bytes s n) \<le> n"
  using back_to_boundary_le [of s n] by (simp add: truncate_bytes_def)

definition push_causes ::
  "libs \<Rightarrow> (string \<times> string \<times> json option) list \<Rightarrow> failure_record \<Rightarrow> failure_record" where
  "push_causes L cs r = fold (\<lambda>(src, msg, payload). push_cause L src msg payload) cs r"

lemma push_causes_snoc:
  "push_causes L (cs @ [(src, msg, payload)]) r = push_cause L src msg payload (push_causes L cs r)"
  by (simp add: push_causes_def)

text \<open>
  Whatever causes are pushed onto a fresh failure record, it keeps the first eight of them in
  order, cuts every message to 512 bytes, sets the truncation flag exactly when a ninth was
  pushed, and changes nothing else of the record.
\<close>

lemma push_causes_bounded:
  assumes "fr_cause r = []" and "\<not> fr_cause_truncated r"
  shows "map ce_source (fr_cause (push_causes L cs r)) = map fst (take MAX_CAUSE_ENTRIES cs) \<and>
    (\<forall>c\<in>set (fr_cause (push_causes L cs r)). length (ce_message c) \<le> MAX_CAUSE_MESSAGE_BYTES) \<and>
    fr_cause_truncated (push_causes L cs r) = (MAX_CAUSE_ENTRIES < length cs) \<and>
    (push_causes L cs r)\<lparr>fr_cause := [], fr_cause_truncated := False\<rparr> = r"
proof (induction cs rule: rev_induct)
  case Nil
  with assms show ?case by (simp add: push_causes_def)
next
  case (snoc x cs)
  obtain src msg payload where x: "x = (src, msg, payload)" by (cases x) auto
  let ?q = "push_causes L cs r"
  have len: "length (fr_cause ?q) = min (length cs) MAX_CAUSE_ENTRIES"
    using snoc.IH by (metis length_map length_take)
  show ?case
  proof (cases "length cs < MAX_CAUSE_ENTRIES")
    case True
    with snoc.IH len show ?thesis
      unfolding x push_causes_snoc push_cause_def
      by (auto simp: length_truncate_bytes take_Cons')
  next
    case False
    with snoc.IH len show ?thesis
      unfolding x push_causes_snoc push_cause_def by auto
  qed
qed

definition blank_record :: failure_record where
  "blank_record = new_failure_record 1 ''run'' 1 ''call'' None ''read_file'' 1 FcFailed NoEffect 0 0"

definition no_libs :: libs where
  "no_libs = \<lparr>lib_to_string = (\<lambda>_. None), lib_from_str = (\<lambda>_. None), lib_sha256 = (\<lambda>_. [])\<rparr>"

lemma push_causes_bounded_witness:
  "fr_cause blank_record = [] \<and>
   map ce_source (fr_cause (push_causes no_libs (replicate 9 (''tool'', ''boom'', None)) blank_record))
     = replicate 8 ''tool'' \<and>
   fr_cause_truncated (push_causes no_libs (replicate 9 (''tool'', ''boom'', None)) blank_record)"
proof -
  have r: "fr_cause blank_record = []" "\<not> fr_cause_truncated blank_record"
    by (simp_all add: blank_record_def new_failure_record_def)
  show ?thesis
    using push_causes_bounded [OF r, of no_libs "replicate 9 (''tool'', ''boom'', None)"] r
    by (simp add: MAX_CAUSE_ENTRIES_def min_def)
qed

subsection \<open>Redaction of echoed arguments\<close>

lemma redact_step_keeps_out:
  "marker_for REDACTION_PLACEHOLDER u \<Longrightarrow> \<not> str_contains s u \<Longrightarrow> \<not> str_contains (redact_step v s) u"
  by (simp add: redact_step_def str_replace_keeps_out)

lemma redact_step_removes:
  "marker_for REDACTION_PLACEHOLDER v \<Longrightarrow> v \<noteq> [] \<Longrightarrow> \<not> str_contains (redact_step v s) v"
  by (simp add: redact_step_def str_replace_removes)

lemma fold_redact_keeps_out:
  "marker_for REDACTION_PLACEHOLDER u \<Longrightarrow> \<not> str_contains s u \<Longrightarrow> \<not> str_contains (fold redact_step vs s) u"
  by (induction vs arbitrary: s) (auto simp: redact_step_keeps_out)

lemma fold_redact_removes:
  "marker_for REDACTION_PLACEHOLDER v \<Longrightarrow> v \<noteq> [] \<Longrightarrow> v \<in> set vs \<Longrightarrow>
   \<not> str_contains (fold redact_step vs s) v"
proof (induction vs arbitrary: s)
  case Nil
  then show ?case by simp
next
  case (Cons u vs)
  show ?case
  proof (cases "v \<in> set vs")
    case True
    with Cons show ?thesis by simp
  next
    case False
    with Cons.prems have "u = v" by simp
    with Cons.prems show ?thesis
      by (simp add: fold_redact_keeps_out redact_step_removes)
  qed
qed

lemma collect_strings_long: "v \<in> set (collect_strings a) \<Longrightarrow> 4 \<le> length v"
  by (induction a rule: collect_strings.induct) (auto split: if_splits)

text \<open>
  C29: An error text that echoes an argument does not leak it: after redaction, no string value of the
  arguments (nested at any depth, four bytes or longer) occurs in the message, whatever the
  other values are and in whatever order they are replaced. The value must not contain the
  placeholder's brackets nor be a piece of the placeholder itself.
\<close>

theorem redact_payload_no_leak:
  assumes "v \<in> set (collect_strings args)"
    and "CHR ''['' \<notin> set v" and "CHR '']'' \<notin> set v" and "\<not> str_contains ''redacted'' v"
  shows "\<not> str_contains (redact_payload_echoes message args) v"
proof -
  have ne: "v \<noteq> []" using collect_strings_long [OF assms(1)] by auto
  have "\<not> prefix v (CHR ''['' # w)" for w using assms(2) ne by (cases v) auto
  moreover have "\<not> str_contains ''redacted]'' v"
    using assms(3,4) sublist_snocD [of v "''redacted''" "CHR '']''"]
    by (auto simp: str_contains_sublist)
  ultimately have "marker_for REDACTION_PLACEHOLDER v"
    using assms(2,3) by (auto simp: marker_for_def REDACTION_PLACEHOLDER_def)
  then show ?thesis
    unfolding redact_payload_echoes_def using ne assms(1) by (intro fold_redact_removes) auto
qed

theorem redact_payload_no_leak_witness:
  "redact_payload_echoes ''cannot open hunter2 now'' (JObject [(''k'', JArray [JString ''hunter2''])])
     = ''cannot open [redacted] now'' \<and>
   \<not> str_contains (redact_payload_echoes ''cannot open hunter2 now''
        (JObject [(''k'', JArray [JString ''hunter2''])])) ''hunter2''"
proof
  show "redact_payload_echoes ''cannot open hunter2 now'' (JObject [(''k'', JArray [JString ''hunter2''])])
     = ''cannot open [redacted] now''"
    by (simp add: redact_payload_echoes_def redact_step_def REDACTION_PLACEHOLDER_def)
  show "\<not> str_contains (redact_payload_echoes ''cannot open hunter2 now''
        (JObject [(''k'', JArray [JString ''hunter2''])])) ''hunter2''"
    by (rule redact_payload_no_leak) simp_all
qed

subsection \<open>Root cause\<close>

lemma known_parent_mem: "known_parent records r = Some p \<Longrightarrow> p \<in> set records"
  by (auto simp: known_parent_def bind_eq_Some_conv dest: find_SomeD)

definition parents_older :: "failure_record list \<Rightarrow> bool" where
  "parents_older records \<longleftrightarrow>
     (\<forall>r\<in>set records. \<forall>p. known_parent records r = Some p \<longrightarrow> fr_sequence p < fr_sequence r)"

lemma root_walk_reaches_root:
  assumes "parents_older records"
  shows "c \<in> set records \<Longrightarrow> card {r \<in> set records. fr_sequence r < fr_sequence c} \<le> n \<Longrightarrow>
    root_walk records n c \<in> set records \<and> known_parent records (root_walk records n c) = None"
proof (induction n arbitrary: c)
  case 0
  then have none: "{r \<in> set records. fr_sequence r < fr_sequence c} = {}" by simp
  have "known_parent records c = None"
  proof (cases "known_parent records c")
    case (Some p)
    with assms 0 have "fr_sequence p < fr_sequence c" by (auto simp: parents_older_def)
    with none Some known_parent_mem show ?thesis by blast
  qed simp
  with 0 show ?case by simp
next
  case (Suc n)
  show ?case
  proof (cases "known_parent records c")
    case None
    with Suc.prems show ?thesis by simp
  next
    case (Some p)
    then have p: "p \<in> set records" "fr_sequence p < fr_sequence c"
      using assms Suc.prems by (auto simp: parents_older_def known_parent_mem)
    have "{r \<in> set records. fr_sequence r < fr_sequence p} \<subset>
        {r \<in> set records. fr_sequence r < fr_sequence c}"
      using p by auto
    then have "card {r \<in> set records. fr_sequence r < fr_sequence p} <
        card {r \<in> set records. fr_sequence r < fr_sequence c}"
      by (intro psubset_card_mono) auto
    with Suc.prems have "card {r \<in> set records. fr_sequence r < fr_sequence p} \<le> n" by simp
    with Suc.IH p Some show ?thesis by auto
  qed
qed

text \<open>
  When every recorded parent has a smaller sequence number than its child, following the parent
  links from a recorded failure really ends at an original failure: the answer is one of the
  records and has no parent among them. The bound on the walk never cuts it short.
\<close>

lemma root_cause_is_root:
  assumes "parents_older records" and "start \<in> set records"
  shows "\<exists>r. root_cause records start = Some r \<and> r \<in> set records \<and> known_parent records r = None"
proof -
  let ?P = "\<lambda>r. fr_tool_call_id r = fr_tool_call_id start \<and> fr_attempt r = fr_attempt start"
  have "find ?P records \<noteq> None" using assms(2) by (auto simp: find_None_all)
  then obtain c where f: "find ?P records = Some c" by blast
  then have c: "find ?P records = Some c" "c \<in> set records" by (auto dest: find_SomeD)
  have "card {r \<in> set records. fr_sequence r < fr_sequence c} \<le> card (set records)"
    by (intro card_mono) auto
  also have "\<dots> \<le> Suc (length records)" using card_length le_Suc_eq by blast
  finally show ?thesis
    using root_walk_reaches_root [OF assms(1) c(2)] c(1) by (simp add: root_cause_def del: root_walk.simps)
qed

definition chain_record :: "nat \<Rightarrow> string \<Rightarrow> string option \<Rightarrow> failure_record" where
  "chain_record sq call parent =
     new_failure_record sq ''run_1'' 1 call parent ''read_file'' 1 FcFailed NoEffect 1 2"

lemma root_cause_is_root_witness:
  "\<exists>r. root_cause [chain_record 1 ''a'' None, chain_record 2 ''b'' (Some ''a''),
       chain_record 3 ''c'' (Some ''b'')] (chain_record 3 ''c'' (Some ''b'')) = Some r \<and>
     fr_tool_call_id r = ''a'' \<and>
     known_parent [chain_record 1 ''a'' None, chain_record 2 ''b'' (Some ''a''),
       chain_record 3 ''c'' (Some ''b'')] r = None"
proof -
  let ?rs = "[chain_record 1 ''a'' None, chain_record 2 ''b'' (Some ''a''),
    chain_record 3 ''c'' (Some ''b'')]"
  have "parents_older ?rs"
    by (simp add: parents_older_def known_parent_def chain_record_def new_failure_record_def)
  from root_cause_is_root [OF this, of "chain_record 3 ''c'' (Some ''b'')"]
  obtain r where r: "root_cause ?rs (chain_record 3 ''c'' (Some ''b'')) = Some r"
    "known_parent ?rs r = None" by auto
  have "fr_tool_call_id r = ''a''"
    using r(1) by (auto simp: root_cause_def known_parent_def chain_record_def new_failure_record_def)
  with r show ?thesis by blast
qed

end
