(* ===== verification/Cancel.thy ===== *)
theory Cancel
  imports Prelude
begin

text \<open>
  \<open>CancelToken\<close> of \<open>src/failure.rs\<close>: a flag and a notifier shared by any number of callers of \<open>cancel\<close> and any
  number of tasks that await \<open>cancelled\<close>. The notifier is tokio's \<open>Notify\<close>: \<open>notify_waiters\<close> wakes every future
  that \<open>notified\<close> has created by then, awaited or not, and stores nothing for later ones. Every atomic access and
  every call of the notifier is a step, and the steps of all parties interleave.
\<close>

section \<open>The parties\<close>

text \<open>
  A task in \<open>cancelled\<close>: at the top of the loop, with a future it has not awaited, awaiting it (each with whether
  the future was notified), back from the call, or dropped by its caller.
\<close>

datatype wait_phase = AtTop | Armed bool | Awaiting bool | Returned_cancelled | Gone

text \<open>A caller of \<open>cancel\<close>: before the flag is stored, between the store and the notification, and after both.\<close>

datatype cancel_phase = BeforeStore | Stored | Cancelled_all

record cancel_token =
  ct_flag :: bool
  ct_waiters :: "wait_phase list"
  ct_cancellers :: "cancel_phase list"

definition new_token :: cancel_token where
  "new_token = \<lparr>ct_flag = False, ct_waiters = [], ct_cancellers = []\<rparr>"

definition is_cancelled :: "cancel_token \<Rightarrow> bool" where
  "is_cancelled s = ct_flag s"

section \<open>Steps\<close>

text \<open>The next step of a waiting task under the flag, \<open>None\<close> when it is blocked or has left.\<close>

fun waiter_next :: "bool \<Rightarrow> wait_phase \<Rightarrow> wait_phase option" where
  "waiter_next flag AtTop = Some (Armed False)"
| "waiter_next flag (Armed notified) = Some (if flag then Returned_cancelled else Awaiting notified)"
| "waiter_next flag (Awaiting True) = Some AtTop"
| "waiter_next flag _ = None"

text \<open>\<open>notify_waiters\<close>\<close>

fun notify :: "wait_phase \<Rightarrow> wait_phase" where
  "notify (Armed _) = Armed True"
| "notify (Awaiting _) = Awaiting True"
| "notify p = p"

text \<open>\<open>cancel\<close>: the store, then the notification.\<close>

fun canceller_next :: "cancel_phase \<Rightarrow> cancel_token \<Rightarrow> (cancel_phase \<times> cancel_token) option" where
  "canceller_next BeforeStore s = Some (Stored, s\<lparr>ct_flag := True\<rparr>)"
| "canceller_next Stored s = Some (Cancelled_all, s\<lparr>ct_waiters := map notify (ct_waiters s)\<rparr>)"
| "canceller_next Cancelled_all s = None"

inductive cancel_step :: "cancel_token \<Rightarrow> cancel_token \<Rightarrow> bool" where
  cs_wait: "cancel_step s (s\<lparr>ct_waiters := ct_waiters s @ [AtTop]\<rparr>)"
| cs_cancel: "cancel_step s (s\<lparr>ct_cancellers := ct_cancellers s @ [BeforeStore]\<rparr>)"
| cs_waiter: "i < length (ct_waiters s) \<Longrightarrow> waiter_next (ct_flag s) (ct_waiters s ! i) = Some p \<Longrightarrow>
     cancel_step s (s\<lparr>ct_waiters := (ct_waiters s)[i := p]\<rparr>)"
| cs_drop: "i < length (ct_waiters s) \<Longrightarrow> ct_waiters s ! i \<noteq> Returned_cancelled \<Longrightarrow>
     cancel_step s (s\<lparr>ct_waiters := (ct_waiters s)[i := Gone]\<rparr>)"
| cs_canceller: "i < length (ct_cancellers s) \<Longrightarrow> canceller_next (ct_cancellers s ! i) s = Some (p, t) \<Longrightarrow>
     cancel_step s (t\<lparr>ct_cancellers := (ct_cancellers s)[i := p]\<rparr>)"

inductive_cases cancel_stepE: "cancel_step s t"

section \<open>No cancellation is missed\<close>

definition cancel_inv :: "cancel_token \<Rightarrow> bool" where
  "cancel_inv s \<longleftrightarrow> ((\<exists>c\<in>set (ct_cancellers s). c \<noteq> BeforeStore) \<longleftrightarrow> ct_flag s) \<and>
     (Returned_cancelled \<in> set (ct_waiters s) \<longrightarrow> ct_flag s) \<and>
     (Cancelled_all \<in> set (ct_cancellers s) \<longrightarrow> Awaiting False \<notin> set (ct_waiters s))"

lemma set_list_update_cases: "x \<in> set (xs[i := y]) \<Longrightarrow> x \<in> set xs \<or> x = y"
  using set_update_subset_insert [of xs i y] by auto

lemma waiter_keeps:
  assumes "cancel_inv s" "i < length (ct_waiters s)" "p = Gone \<or> waiter_next (ct_flag s) (ct_waiters s ! i) = Some p"
  shows "cancel_inv (s\<lparr>ct_waiters := (ct_waiters s)[i := p]\<rparr>)"
proof -
  have flag: "ct_flag s" if "Cancelled_all \<in> set (ct_cancellers s)" using assms(1) that by (force simp: cancel_inv_def)
  have "p = Returned_cancelled \<Longrightarrow> ct_flag s" "p = Awaiting False \<Longrightarrow> \<not> ct_flag s"
    using assms(3) by (auto elim: waiter_next.elims split: if_splits)
  with assms(1) flag show ?thesis by (auto simp: cancel_inv_def dest!: set_list_update_cases)
qed

lemma notify_facts [simp]: "Returned_cancelled = notify p \<longleftrightarrow> p = Returned_cancelled" "Awaiting False \<noteq> notify p"
  by (cases p; simp)+

lemma canceller_keeps:
  assumes "cancel_inv s" "i < length (ct_cancellers s)" "canceller_next (ct_cancellers s ! i) s = Some (p, t)"
  shows "cancel_inv (t\<lparr>ct_cancellers := (ct_cancellers s)[i := p]\<rparr>)"
proof (cases "ct_cancellers s ! i")
  case BeforeStore
  with assms have t: "p = Stored" "t = s\<lparr>ct_flag := True\<rparr>" by auto
  have "Stored \<in> set ((ct_cancellers s)[i := Stored])" using assms(2) by (rule set_update_memI)
  moreover have "Cancelled_all \<in> set (ct_cancellers s)" if "Cancelled_all \<in> set ((ct_cancellers s)[i := Stored])"
    using set_list_update_cases [OF that] by simp
  ultimately show ?thesis using assms(1) by (auto simp: cancel_inv_def t intro: bexI [of _ Stored])
next
  case Stored
  with assms have t: "p = Cancelled_all" "t = s\<lparr>ct_waiters := map notify (ct_waiters s)\<rparr>" by auto
  have "Stored \<in> set (ct_cancellers s)" using Stored assms(2) by (metis nth_mem)
  then have "ct_flag s" using assms(1) by (force simp: cancel_inv_def)
  moreover have "Cancelled_all \<in> set ((ct_cancellers s)[i := Cancelled_all])" using assms(2) by (rule set_update_memI)
  ultimately show ?thesis by (auto simp: cancel_inv_def t intro: bexI [of _ Cancelled_all])
qed (use assms in simp)

lemma arrival_keeps:
  assumes "cancel_inv s"
  shows "cancel_inv (s\<lparr>ct_waiters := ct_waiters s @ [AtTop]\<rparr>)"
    "cancel_inv (s\<lparr>ct_cancellers := ct_cancellers s @ [BeforeStore]\<rparr>)"
  using assms by (simp_all add: cancel_inv_def)

interpretation cancel: invariant_system "\<lambda>s. s = new_token" cancel_step cancel_inv
proof
  show "s = new_token \<Longrightarrow> cancel_inv s" for s by (simp add: cancel_inv_def new_token_def)
  show "cancel_step s t \<Longrightarrow> cancel_inv s \<Longrightarrow> cancel_inv t" for s t
    by (erule cancel_stepE) (blast intro: waiter_keeps canceller_keeps arrival_keeps)+
qed

text \<open>A waiting task left to itself, for at most \<open>n\<close> steps.\<close>

fun run_waiter :: "nat \<Rightarrow> bool \<Rightarrow> wait_phase \<Rightarrow> wait_phase" where
  "run_waiter 0 flag p = p"
| "run_waiter (Suc n) flag p = (case waiter_next flag p of None \<Rightarrow> p | Some q \<Rightarrow> run_waiter n flag q)"

lemma cancelled_token:
  assumes "cancel_step\<^sup>*\<^sup>* new_token s"
  shows "cancel_inv s"
  using cancel.reached_inv [OF refl assms] .

text \<open>
  C18: No cancellation is missed and none is invented, however the parties interleave: a task returns from
  \<open>cancelled\<close> only when the flag is set; the flag is set only by a \<open>cancel\<close>; and once one call of \<open>cancel\<close> has
  returned, the flag reads true and every task that still waits returns after at most three steps of its own,
  without any further notification.
\<close>

theorem cancel_reaches_every_waiter:
  assumes "cancel_step\<^sup>*\<^sup>* new_token s"
  shows "(Returned_cancelled \<in> set (ct_waiters s) \<longrightarrow> is_cancelled s) \<and>
    (is_cancelled s \<longrightarrow> (\<exists>c\<in>set (ct_cancellers s). c \<noteq> BeforeStore)) \<and>
    (Cancelled_all \<in> set (ct_cancellers s) \<longrightarrow> is_cancelled s \<and>
       (\<forall>p\<in>set (ct_waiters s). p \<noteq> Gone \<longrightarrow> run_waiter 3 (is_cancelled s) p = Returned_cancelled))"
proof -
  note inv = cancelled_token [OF assms, unfolded cancel_inv_def]
  have "run_waiter 3 True p = Returned_cancelled" if "p \<noteq> Gone" "p \<noteq> Awaiting False" for p
  proof (cases p)
    case (Awaiting b)
    with that(2) show ?thesis by (cases b) (simp_all add: numeral_3_eq_3)
  qed (use that(1) in \<open>simp_all add: numeral_3_eq_3\<close>)
  with inv show ?thesis unfolding is_cancelled_def by (metis (full_types) cancel_phase.distinct(3))
qed

text \<open>A task arms itself and reads the flag before the store; it is awake after the notification.\<close>

definition raced_token :: cancel_token where
  "raced_token = \<lparr>ct_flag = True, ct_waiters = [Awaiting True], ct_cancellers = [Cancelled_all]\<rparr>"

lemma raced_token_steps: "cancel_step\<^sup>*\<^sup>* new_token raced_token"
proof -
  let ?s = "\<lambda>f ws cs. \<lparr>ct_flag = f, ct_waiters = ws, ct_cancellers = cs\<rparr>"
  have "cancel_step (?s False [] []) (?s False [AtTop] [])" using cs_wait [of "?s False [] []"] by simp
  moreover have "cancel_step (?s False [AtTop] []) (?s False [AtTop] [BeforeStore])"
    using cs_cancel [of "?s False [AtTop] []"] by simp
  moreover have "cancel_step (?s False [AtTop] [BeforeStore]) (?s False [Armed False] [BeforeStore])"
    using cs_waiter [of 0 "?s False [AtTop] [BeforeStore]"] by simp
  moreover have "cancel_step (?s False [Armed False] [BeforeStore]) (?s False [Awaiting False] [BeforeStore])"
    using cs_waiter [of 0 "?s False [Armed False] [BeforeStore]"] by simp
  moreover have "cancel_step (?s False [Awaiting False] [BeforeStore]) (?s True [Awaiting False] [Stored])"
    using cs_canceller [of 0 "?s False [Awaiting False] [BeforeStore]"] by simp
  moreover have "cancel_step (?s True [Awaiting False] [Stored]) (?s True [Awaiting True] [Cancelled_all])"
    using cs_canceller [of 0 "?s True [Awaiting False] [Stored]"] by simp
  ultimately show ?thesis unfolding new_token_def raced_token_def
    by (meson rtranclp.rtrancl_refl rtranclp.rtrancl_into_rtrancl)
qed

theorem cancel_reaches_every_waiter_witness: "run_waiter 3 True (Awaiting True) = Returned_cancelled"
  using cancel_reaches_every_waiter [OF raced_token_steps] by (simp add: raced_token_def is_cancelled_def)

end
