(* ===== verification/Events.thy ===== *)
theory Events
  imports Failure Ids
begin

text \<open>
  \<open>src/events\<close>: the event type published by every part of the runtime, its envelope, the bus
  (a broadcast channel, which refuses a message exactly when it has no receiver) and the
  projection onto the canonical agent events of the shared protocol crate.
\<close>

section \<open>Events\<close>

datatype aegis_event =
    SessionCreated session_id "string option"
  | SessionBranched session_id session_id
  | SessionClosed session_id
  | RunStarted run_id session_id string
  | RunCompleted run_id u32 u64
  | RunFailed run_id string
  | StepFailed failure_record
  | WorkflowTaskReady run_id nat string
  | WorkflowTaskStarted run_id nat string
  | WorkflowTaskCompleted run_id nat string string
  | WorkflowTaskWaiting run_id nat string
  | WorkflowTaskFailed run_id nat string failure_record
  | WorkflowTaskCancelled run_id nat string
  | WorkflowTaskSkipped run_id nat string string
  | WorkflowFinished run_id nat string
  | AssistantDelta string
  | ActionRequested action_id string
  | ActionAuthorized action_id string
  | ActionDenied action_id string
  | ActionCompleted action_id bool u64
  | ApprovalRequired approval_id action_id string
  | ApprovalResolved approval_id bool
  | ContainmentActivated string string

record event_envelope =
  ev_id :: event_id
  ev_session :: "session_id option"
  ev_run :: "run_id option"
  ev_sequence :: nat
  ev_timestamp :: i64
  ev_event :: aegis_event

definition new_envelope ::
  "event_id \<Rightarrow> i64 \<Rightarrow> aegis_event \<Rightarrow> session_id option \<Rightarrow> run_id option \<Rightarrow> nat \<Rightarrow> event_envelope" where
  "new_envelope eid now e sid rid sq =
     \<lparr>ev_id = eid, ev_session = sid, ev_run = rid, ev_sequence = sq, ev_timestamp = now, ev_event = e\<rparr>"

section \<open>Canonical agent events\<close>

text \<open>
  The constructors of the protocol crate's \<open>AgentEvent\<close> that the source builds. A run that
  completes is reported by its local text, the others by canonical identifiers.
\<close>

datatype 'u agent_event =
    AeSessionCreated | AeSessionClosed
  | AeContextBranched 'u
  | AeRunStarted 'u
  | AeRunCompleted string
  | AeActionRequested 'u | AeActionAuthorized 'u | AeActionDenied 'u | AeActionCompleted 'u
  | AeApprovalRequested 'u | AeApprovalResolved 'u

fun to_canonical_agent_event :: "'u uuid_lib \<Rightarrow> aegis_event \<Rightarrow> 'u agent_event option" where
  "to_canonical_agent_event U (SessionCreated _ _) = Some AeSessionCreated"
| "to_canonical_agent_event U (SessionClosed _) = Some AeSessionClosed"
| "to_canonical_agent_event U (SessionBranched sid _) =
     Some (AeContextBranched (session_to_canonical U sid))"
| "to_canonical_agent_event U (RunStarted rid _ _) = Some (AeRunStarted (run_to_canonical U rid))"
| "to_canonical_agent_event U (RunCompleted rid _ _) = Some (AeRunCompleted rid)"
| "to_canonical_agent_event U (ActionRequested aid _) =
     Some (AeActionRequested (action_to_canonical U aid))"
| "to_canonical_agent_event U (ActionAuthorized aid _) =
     Some (AeActionAuthorized (action_to_canonical U aid))"
| "to_canonical_agent_event U (ActionDenied aid _) =
     Some (AeActionDenied (action_to_canonical U aid))"
| "to_canonical_agent_event U (ActionCompleted aid _ _) =
     Some (AeActionCompleted (action_to_canonical U aid))"
| "to_canonical_agent_event U (ApprovalRequired pid _ _) =
     Some (AeApprovalRequested (approval_to_canonical U pid))"
| "to_canonical_agent_event U (ApprovalResolved pid _) =
     Some (AeApprovalResolved (approval_to_canonical U pid))"
| "to_canonical_agent_event U _ = None"

section \<open>The bus\<close>

text \<open>
  The broadcast channel of the \<open>tokio\<close> crate is a parameter: creating one, sending (the number of
  receivers, or an error text) and subscribing.
\<close>

record 'ch broadcast_lib =
  bc_channel :: "nat \<Rightarrow> 'ch"
  bc_send :: "'ch \<Rightarrow> event_envelope \<Rightarrow> (string + nat) \<times> 'ch"
  bc_subscribe :: "'ch \<Rightarrow> 'ch"

definition DEFAULT_BUS_CAPACITY :: nat where "DEFAULT_BUS_CAPACITY = 1024"

definition new_bus :: "'ch broadcast_lib \<Rightarrow> nat \<Rightarrow> 'ch" where
  "new_bus B capacity = bc_channel B capacity"

definition default_bus :: "'ch broadcast_lib \<Rightarrow> 'ch" where
  "default_bus B = new_bus B DEFAULT_BUS_CAPACITY"

definition publish ::
  "'ch broadcast_lib \<Rightarrow> 'ch \<Rightarrow> event_envelope \<Rightarrow> (string + nat) \<times> 'ch" where
  "publish B ch envelope =
     (let (r, ch') = bc_send B ch envelope
      in (map_err (\<lambda>e. ''Failed to publish event: '' @ e) r, ch'))"

definition subscribe :: "'ch broadcast_lib \<Rightarrow> 'ch \<Rightarrow> 'ch" where
  "subscribe B ch = bc_subscribe B ch"

section \<open>Properties\<close>

text \<open>
  The projection keeps identity: an event about a run, an action, an approval or a branched
  session whose local identifier was made from a canonical identifier is projected onto the event
  of the same kind about exactly that canonical identifier.
\<close>

lemma canonical_event_identity:
  assumes "uuid_lib_ok U"
  shows "to_canonical_agent_event U (SessionBranched (session_from_canonical U u) p) = Some (AeContextBranched u) \<and>
    to_canonical_agent_event U (RunStarted (run_from_canonical U u) sid tg) = Some (AeRunStarted u) \<and>
    to_canonical_agent_event U (ActionRequested (action_from_canonical U u) cap) = Some (AeActionRequested u) \<and>
    to_canonical_agent_event U (ActionAuthorized (action_from_canonical U u) dec) = Some (AeActionAuthorized u) \<and>
    to_canonical_agent_event U (ActionDenied (action_from_canonical U u) why) = Some (AeActionDenied u) \<and>
    to_canonical_agent_event U (ActionCompleted (action_from_canonical U u) ok ms) = Some (AeActionCompleted u) \<and>
    to_canonical_agent_event U (ApprovalRequired (approval_from_canonical U u) aid cap) = Some (AeApprovalRequested u) \<and>
    to_canonical_agent_event U (ApprovalResolved (approval_from_canonical U u) ok) = Some (AeApprovalResolved u)"
  using canonical_of_prefixed [OF assms]
  by (simp add: session_to_canonical_def session_from_canonical_def run_to_canonical_def
      run_from_canonical_def action_to_canonical_def action_from_canonical_def
      approval_to_canonical_def approval_from_canonical_def del: append_Cons)

lemma canonical_event_identity_witness:
  "to_canonical_agent_event unit_uuids (ApprovalResolved ''appr_01'' True) = Some (AeApprovalResolved True)"
proof -
  have ok: "uuid_lib_ok unit_uuids" by (simp add: uuid_lib_ok_def unit_uuids_def)
  show ?thesis
    using canonical_event_identity [OF ok, of True "[]" "[]" "[]" "[]" "[]" "[]" True 0 "[]"]
    by (simp add: approval_from_canonical_def unit_uuids_def)
qed

end
