(* ===== verification/Domain.thy ===== *)
theory Domain
  imports Json Ids
begin

text \<open>
  The data model the stores persist: sessions and their messages (\<open>src/sessions\<close>), runs
  (\<open>src/orchestration\<close>), actions (\<open>src/execution\<close>), approvals and doctrine decisions
  (\<open>src/defense\<close>). Constructors read the clock and mint identifiers; both are given as
  arguments. The four status enumerations are written to text columns by \<open>as_str\<close> and read
  back by \<open>from_str\<close>; each pair interprets the locale \<open>str_codec\<close>.
\<close>

section \<open>Session status, budget, messages\<close>

datatype session_status = SsActive | SsSuspended | SsClosed

fun session_status_as_str :: "session_status \<Rightarrow> string" where
  "session_status_as_str SsActive = ''active''"
| "session_status_as_str SsSuspended = ''suspended''"
| "session_status_as_str SsClosed = ''closed''"

definition session_status_from_str :: "string \<Rightarrow> session_status option" where
  "session_status_from_str s =
     (if s = ''active'' then Some SsActive
      else if s = ''suspended'' then Some SsSuspended
      else if s = ''closed'' then Some SsClosed
      else None)"

interpretation session_status_codec: str_codec session_status_as_str session_status_from_str
proof unfold_locales
  show "session_status_from_str (session_status_as_str x) = Some x" for x
    by (cases x) (simp_all add: session_status_from_str_def)
  show "session_status_from_str s = Some x \<Longrightarrow> session_status_as_str x = s" for s x
    by (auto simp: session_status_from_str_def split: if_splits)
qed

record session_budget =
  max_total_tokens :: u64
  sb_max_wall_time_secs :: u64

definition default_session_budget :: session_budget where
  "default_session_budget = \<lparr>max_total_tokens = 128000, sb_max_wall_time_secs = 3600\<rparr>"

datatype role = RoleSystem | RoleUser | RoleAssistant | RoleTool

record tool_call_function =
  tcf_name :: string
  tcf_arguments :: string

record tool_call_item =
  tci_id :: string
  tci_type :: string
  tci_function :: tool_call_function

record text_message =
  tm_id :: message_id
  tm_content :: string
  tm_created_at :: i64

record assistant_message =
  am_id :: message_id
  am_content :: "string option"
  am_tool_calls :: "tool_call_item list"
  am_created_at :: i64

record tool_result_message =
  tr_id :: message_id
  tr_tool_call_id :: string
  tr_content :: string
  tr_is_error :: bool
  tr_created_at :: i64

datatype message =
    MsgSystem text_message
  | MsgUser text_message
  | MsgAssistant assistant_message
  | MsgTool tool_result_message

fun message_ident :: "message \<Rightarrow> message_id" where
  "message_ident (MsgSystem m) = tm_id m"
| "message_ident (MsgUser m) = tm_id m"
| "message_ident (MsgAssistant m) = am_id m"
| "message_ident (MsgTool m) = tr_id m"

fun message_role :: "message \<Rightarrow> role" where
  "message_role (MsgSystem _) = RoleSystem"
| "message_role (MsgUser _) = RoleUser"
| "message_role (MsgAssistant _) = RoleAssistant"
| "message_role (MsgTool _) = RoleTool"

section \<open>Sessions\<close>

record session =
  s_id :: session_id
  s_parent :: "session_id option"
  s_status :: session_status
  s_objective :: "string option"
  s_agent_profile :: string
  s_model_profile :: string
  s_policy_profile :: string
  s_messages :: "message list"
  s_budget :: session_budget
  s_created_at :: i64
  s_updated_at :: i64
  s_version :: u64

definition new_session :: "session_id \<Rightarrow> i64 \<Rightarrow> string option \<Rightarrow> session" where
  "new_session sid now objective =
     \<lparr>s_id = sid, s_parent = None, s_status = SsActive, s_objective = objective,
      s_agent_profile = ''default'', s_model_profile = ''default'', s_policy_profile = ''default'',
      s_messages = [], s_budget = default_session_budget,
      s_created_at = now, s_updated_at = now, s_version = 1\<rparr>"

definition branch_session :: "session_id \<Rightarrow> i64 \<Rightarrow> session \<Rightarrow> session" where
  "branch_session sid now s =
     \<lparr>s_id = sid, s_parent = Some (s_id s), s_status = SsActive, s_objective = s_objective s,
      s_agent_profile = s_agent_profile s, s_model_profile = s_model_profile s,
      s_policy_profile = s_policy_profile s,
      s_messages = s_messages s, s_budget = s_budget s,
      s_created_at = now, s_updated_at = now, s_version = 1\<rparr>"

text \<open>
  The canonical agent state of \<open>to_agent_state\<close>, with the fields the source fills. Fields the
  source always sets to an empty collection, to \<open>None\<close> or to the library's default are left out.
  Seconds become microseconds by \<open>as u64 * 1_000_000\<close>, which wraps at 64 bits (release build).
\<close>

datatype agent_status = AgIdle | AgSuspended | AgTerminated

record 'u agent_state =
  ast_abi_major :: nat
  ast_abi_minor :: nat
  ast_agent_id :: 'u
  ast_agent_name :: string
  ast_model_profile :: string
  ast_agent_created_at :: u64
  ast_session_id :: 'u
  ast_title :: string
  ast_session_created_at :: u64
  ast_closed_at :: "u64 option"
  ast_objective :: "('u \<times> string) option"
  ast_principal :: 'u
  ast_policy_profile :: string
  ast_max_tokens :: u64
  ast_max_duration_seconds :: u64
  ast_status :: agent_status
  ast_parent :: "'u option"
  ast_sequence :: u64

definition micros :: "i64 \<Rightarrow> u64" where
  "micros secs = word_of_int secs * 1000000"

definition to_agent_state ::
  "'u uuid_lib \<Rightarrow> 'u \<Rightarrow> 'u \<Rightarrow> 'u \<Rightarrow> string \<Rightarrow> session \<Rightarrow> 'u agent_state" where
  "to_agent_state U fresh_objective fresh_principal agent model s =
     \<lparr>ast_abi_major = 1, ast_abi_minor = 0,
      ast_agent_id = agent, ast_agent_name = s_agent_profile s, ast_model_profile = model,
      ast_agent_created_at = micros (s_created_at s),
      ast_session_id = session_to_canonical U (s_id s),
      ast_title = (case s_objective s of Some t \<Rightarrow> t | None \<Rightarrow> ''AEGIS Session''),
      ast_session_created_at = micros (s_created_at s),
      ast_closed_at = (if s_status s = SsClosed then Some (micros (s_updated_at s)) else None),
      ast_objective = map_option (\<lambda>t. (fresh_objective, t)) (s_objective s),
      ast_principal = fresh_principal, ast_policy_profile = s_policy_profile s,
      ast_max_tokens = max_total_tokens (s_budget s),
      ast_max_duration_seconds = sb_max_wall_time_secs (s_budget s),
      ast_status = (case s_status s of SsActive \<Rightarrow> AgIdle | SsSuspended \<Rightarrow> AgSuspended
        | SsClosed \<Rightarrow> AgTerminated),
      ast_parent = map_option (session_to_canonical U) (s_parent s),
      ast_sequence = s_version s\<rparr>"

section \<open>Runs\<close>

datatype run_state = RsRunning | RsWaitingForApproval | RsWaitingForTool | RsCompleted | RsFailed | RsCancelled

fun run_state_as_str :: "run_state \<Rightarrow> string" where
  "run_state_as_str RsRunning = ''running''"
| "run_state_as_str RsWaitingForApproval = ''waiting_for_approval''"
| "run_state_as_str RsWaitingForTool = ''waiting_for_tool''"
| "run_state_as_str RsCompleted = ''completed''"
| "run_state_as_str RsFailed = ''failed''"
| "run_state_as_str RsCancelled = ''cancelled''"

definition run_state_from_str :: "string \<Rightarrow> run_state option" where
  "run_state_from_str s =
     (if s = ''running'' then Some RsRunning
      else if s = ''waiting_for_approval'' then Some RsWaitingForApproval
      else if s = ''waiting_for_tool'' then Some RsWaitingForTool
      else if s = ''completed'' then Some RsCompleted
      else if s = ''failed'' then Some RsFailed
      else if s = ''cancelled'' then Some RsCancelled
      else None)"

interpretation run_state_codec: str_codec run_state_as_str run_state_from_str
proof unfold_locales
  show "run_state_from_str (run_state_as_str x) = Some x" for x
    by (cases x) (simp_all add: run_state_from_str_def)
  show "run_state_from_str s = Some x \<Longrightarrow> run_state_as_str x = s" for s x
    by (auto simp: run_state_from_str_def split: if_splits)
qed

datatype trigger =
    TrUserMessage message_id | TrHeartbeat | TrScheduledTask string | TrToolResult action_id
  | TrExternalEvent string | TrResume

datatype termination_reason =
    TermCompleted | TermStepLimitExceeded | TermInferenceLimitExceeded | TermTimeLimitExceeded
  | TermUserCancelled | TermDoctrineDenied | TermApprovalRequired
  | TermInferenceFailure string | TermExecutionFailure string | TermSuspended

record run_budget =
  max_steps :: u32
  max_inference_calls :: u32
  max_actions :: u32
  rb_max_wall_time_secs :: u64

definition default_run_budget :: run_budget where
  "default_run_budget = \<lparr>max_steps = 25, max_inference_calls = 30, max_actions = 50,
     rb_max_wall_time_secs = 300\<rparr>"

record run =
  r_id :: run_id
  r_session :: session_id
  r_state :: run_state
  r_trigger :: trigger
  r_steps_used :: u32
  r_inference_calls_used :: u32
  r_actions_used :: u32
  r_budget :: run_budget
  r_started_at :: i64
  r_completed_at :: "i64 option"
  r_termination :: "termination_reason option"

definition new_run :: "run_id \<Rightarrow> i64 \<Rightarrow> session_id \<Rightarrow> trigger \<Rightarrow> run_budget \<Rightarrow> run" where
  "new_run rid now sid trig budget =
     \<lparr>r_id = rid, r_session = sid, r_state = RsRunning, r_trigger = trig,
      r_steps_used = 0, r_inference_calls_used = 0, r_actions_used = 0, r_budget = budget,
      r_started_at = now, r_completed_at = None, r_termination = None\<rparr>"

section \<open>Doctrine decisions, actions, approvals\<close>

datatype containment_level =
    ClObserve | ClRestrict | ClIsolateProcess | ClIsolateWorkspace | ClSuspendAgent | ClEmergencyStop

datatype doctrine_decision =
    DdAllow | DdAllowRestricted "string list" | DdRequireApproval | DdDeny string
  | DdContain containment_level

record action_receipt =
  rc_action_id :: string
  rc_session_id :: string
  rc_run_id :: string
  rc_capability :: string
  rc_target :: string
  rc_decision :: doctrine_decision
  rc_output :: string
  rc_success :: bool
  rc_duration_ms :: u64

record defense_receipt =
  dr_action_id :: string
  dr_actor_id :: string
  dr_capability :: string
  dr_target :: string
  dr_decision :: doctrine_decision
  dr_doctrine_version :: string
  dr_evaluated_at :: i64

datatype action_status = AcPending | AcApproved | AcDenied | AcExecuting | AcCompleted | AcFailed

fun action_status_as_str :: "action_status \<Rightarrow> string" where
  "action_status_as_str AcPending = ''pending''"
| "action_status_as_str AcApproved = ''approved''"
| "action_status_as_str AcDenied = ''denied''"
| "action_status_as_str AcExecuting = ''executing''"
| "action_status_as_str AcCompleted = ''completed''"
| "action_status_as_str AcFailed = ''failed''"

definition action_status_from_str :: "string \<Rightarrow> action_status option" where
  "action_status_from_str s =
     (if s = ''pending'' then Some AcPending
      else if s = ''approved'' then Some AcApproved
      else if s = ''denied'' then Some AcDenied
      else if s = ''executing'' then Some AcExecuting
      else if s = ''completed'' then Some AcCompleted
      else if s = ''failed'' then Some AcFailed
      else None)"

interpretation action_status_codec: str_codec action_status_as_str action_status_from_str
proof unfold_locales
  show "action_status_from_str (action_status_as_str x) = Some x" for x
    by (cases x) (simp_all add: action_status_from_str_def)
  show "action_status_from_str s = Some x \<Longrightarrow> action_status_as_str x = s" for s x
    by (auto simp: action_status_from_str_def split: if_splits)
qed

record action =
  ac_id :: action_id
  ac_run :: run_id
  ac_session :: session_id
  ac_capability :: string
  ac_intent :: string
  ac_params :: json
  ac_status :: action_status
  ac_receipt :: "action_receipt option"
  ac_created_at :: i64
  ac_completed_at :: "i64 option"

definition new_action ::
  "action_id \<Rightarrow> i64 \<Rightarrow> run_id \<Rightarrow> session_id \<Rightarrow> string \<Rightarrow> string \<Rightarrow> json \<Rightarrow> action" where
  "new_action aid now rid sid capability intent params =
     \<lparr>ac_id = aid, ac_run = rid, ac_session = sid, ac_capability = capability,
      ac_intent = intent, ac_params = params, ac_status = AcPending, ac_receipt = None,
      ac_created_at = now, ac_completed_at = None\<rparr>"

datatype approval_status = ApPending | ApApproved | ApRejected | ApExpired

fun approval_status_as_str :: "approval_status \<Rightarrow> string" where
  "approval_status_as_str ApPending = ''pending''"
| "approval_status_as_str ApApproved = ''approved''"
| "approval_status_as_str ApRejected = ''rejected''"
| "approval_status_as_str ApExpired = ''expired''"

definition approval_status_from_str :: "string \<Rightarrow> approval_status option" where
  "approval_status_from_str s =
     (if s = ''pending'' then Some ApPending
      else if s = ''approved'' then Some ApApproved
      else if s = ''rejected'' then Some ApRejected
      else if s = ''expired'' then Some ApExpired
      else None)"

interpretation approval_status_codec: str_codec approval_status_as_str approval_status_from_str
proof unfold_locales
  show "approval_status_from_str (approval_status_as_str x) = Some x" for x
    by (cases x) (simp_all add: approval_status_from_str_def)
  show "approval_status_from_str s = Some x \<Longrightarrow> approval_status_as_str x = s" for s x
    by (auto simp: approval_status_from_str_def split: if_splits)
qed

record approval =
  ap_id :: approval_id
  ap_action :: action_id
  ap_run :: run_id
  ap_session :: session_id
  ap_prompt :: string
  ap_status :: approval_status
  ap_requested_at :: i64
  ap_decided_at :: "i64 option"
  ap_decided_by :: "string option"

definition new_approval ::
  "approval_id \<Rightarrow> i64 \<Rightarrow> action_id \<Rightarrow> run_id \<Rightarrow> session_id \<Rightarrow> string \<Rightarrow> approval" where
  "new_approval pid now aid rid sid prompt =
     \<lparr>ap_id = pid, ap_action = aid, ap_run = rid, ap_session = sid, ap_prompt = prompt,
      ap_status = ApPending, ap_requested_at = now, ap_decided_at = None, ap_decided_by = None\<rparr>"

section \<open>Properties\<close>

text \<open>
  The four status columns are unambiguous: a stored text reads back as a status exactly when
  it is that status's name, so distinct statuses have distinct names and every other text is
  refused.
\<close>

lemma status_columns_unambiguous:
  "(session_status_from_str s = Some a \<longleftrightarrow> s = session_status_as_str a) \<and>
   (run_state_from_str s = Some b \<longleftrightarrow> s = run_state_as_str b) \<and>
   (action_status_from_str s = Some c \<longleftrightarrow> s = action_status_as_str c) \<and>
   (approval_status_from_str s = Some d \<longleftrightarrow> s = approval_status_as_str d)"
  by (simp add: session_status_codec.dec_iff run_state_codec.dec_iff
      action_status_codec.dec_iff approval_status_codec.dec_iff)

lemma micros_exact:
  assumes "0 \<le> t" "t < 18446744073709"
  shows "uint (micros t) = t * 1000000"
proof -
  have "uint (micros t) = (t * 1000000) mod 2 ^ 64"
    by (simp add: micros_def uint_word_ariths unsigned_of_int take_bit_eq_mod mod_mult_left_eq)
  then show ?thesis using assms by simp
qed

text \<open>
  A branched session starts a new history: it is active at version 1 with the parent's
  conversation, profiles and budget, and its canonical state points at its parent, names the
  same title and objective, reports itself idle and not closed, and carries its creation time in
  microseconds without wrap-around for any clock before the year 584554.
\<close>

lemma branch_agent_state:
  assumes "0 \<le> now" "now < 18446744073709"
  shows "let b = branch_session sid now s; st = to_agent_state U o' p' a m b in
    s_version b = 1 \<and> s_messages b = s_messages s \<and>
    ast_parent st = Some (session_to_canonical U (s_id s)) \<and>
    ast_title st = ast_title (to_agent_state U o' p' a m s) \<and>
    ast_status st = AgIdle \<and> ast_closed_at st = None \<and>
    ast_max_tokens st = max_total_tokens (s_budget s) \<and>
    uint (ast_session_created_at st) = now * 1000000"
  using micros_exact [OF assms] by (simp add: branch_session_def to_agent_state_def Let_def)

lemma branch_agent_state_witness:
  "ast_parent (to_agent_state unit_uuids True True False ''m''
      (branch_session ''sess_00'' 1760000000 (new_session ''sess_01'' 0 None))) = Some True \<and>
   uint (ast_session_created_at (to_agent_state unit_uuids True True False ''m''
      (branch_session ''sess_00'' 1760000000 (new_session ''sess_01'' 0 None)))) = 1760000000 * 1000000"
  using branch_agent_state [of 1760000000 "''sess_00''" "new_session ''sess_01'' 0 None" unit_uuids
      True True False "''m''"]
  by (simp add: Let_def new_session_def session_to_canonical_def canonical_of_def unit_uuids_def raw_of_def
      strip_prefix_def)

end
