(* ===== verification/DagBuild.thy ===== *)
theory DagBuild
  imports Failure
begin

text \<open>
  \<open>src/orchestration/workflow.rs\<close>, first part: the task graph, its builder and its validation.
  \<open>add_task\<close> checks one task against those already added; \<open>build\<close> looks for unknown predecessors,
  peels the graph by Kahn's algorithm (a vector used as a stack), and names one cycle when
  something stays unpeeled. Subtraction on \<open>usize\<close> and indexing a map panic where the source's do:
  \<open>None\<close> is a panic or a walk that does not end, and the theorems below show that neither occurs
  for tasks that came through the builder.
\<close>

section \<open>Tasks and errors\<close>

type_synonym task_id = string

datatype workflow_error =
    EmptyTaskId
  | DuplicateTask task_id
  | UnknownPredecessor task_id task_id
  | DuplicateEdge task_id task_id
  | SelfDependency task_id
  | Cycle "task_id list"
  | InvalidConfig string

text \<open>The runner of a task is the caller's; its certainty on interruption is data of the task.\<close>

record task_node =
  tn_id :: task_id
  tn_deps :: "task_id list"
  tn_interrupt :: effect_certainty

definition show_workflow_error :: "workflow_error \<Rightarrow> string" where
  "show_workflow_error e = (case e of
       EmptyTaskId \<Rightarrow> ''task id must not be empty''
     | DuplicateTask t \<Rightarrow> ''duplicate task id: '' @ t
     | UnknownPredecessor t p \<Rightarrow> ''task '' @ t @ '' depends on unknown task '' @ p
     | DuplicateEdge t p \<Rightarrow> ''task '' @ t @ '' lists predecessor '' @ p @ '' twice''
     | SelfDependency t \<Rightarrow> ''task '' @ t @ '' depends on itself''
     | Cycle c \<Rightarrow> ''dependency cycle: '' @ concat (case c of [] \<Rightarrow> [] | x # xs \<Rightarrow> x # map (\<lambda>y. '' -> '' @ y) xs)
     | InvalidConfig m \<Rightarrow> ''invalid workflow config: '' @ m)"

section \<open>The builder\<close>

text \<open>The loop over the listed predecessors, with the set of those already seen.\<close>

fun check_deps :: "task_id \<Rightarrow> task_id list \<Rightarrow> task_id list \<Rightarrow> workflow_error + task_id list" where
  "check_deps t seen [] = Inr []"
| "check_deps t seen (d # ds) =
     (if d = t then Inl (SelfDependency t)
      else if d \<in> set seen then Inl (DuplicateEdge t d)
      else try_bind (check_deps t (d # seen) ds) (\<lambda>out. Inr (d # out)))"

definition add_task ::
  "task_node list \<Rightarrow> task_id \<Rightarrow> task_id list \<Rightarrow> effect_certainty \<Rightarrow> workflow_error + task_node list" where
  "add_task ts t deps interrupt =
     (if t = [] then Inl EmptyTaskId
      else if list_ex (\<lambda>u. tn_id u = t) ts then Inl (DuplicateTask t)
      else try_bind (check_deps t [] deps) (\<lambda>out.
        Inr (ts @ [\<lparr>tn_id = t, tn_deps = out, tn_interrupt = interrupt\<rparr>])))"

text \<open>A sequence of \<open>add_task\<close> calls, each followed by \<open>?\<close>, from the empty builder.\<close>

fun add_all ::
  "task_node list \<Rightarrow> (task_id \<times> task_id list \<times> effect_certainty) list \<Rightarrow> workflow_error + task_node list" where
  "add_all ts [] = Inr ts"
| "add_all ts ((t, deps, i) # calls) = try_bind (add_task ts t deps i) (\<lambda>ts'. add_all ts' calls)"

section \<open>Validation\<close>

definition task_index :: "task_node list \<Rightarrow> task_id \<Rightarrow> nat option" where
  "task_index ts = map_of (rev (zip (map tn_id ts) [0..<length ts]))"

fun unknown_in :: "(task_id \<Rightarrow> nat option) \<Rightarrow> task_id list \<Rightarrow> task_id option" where
  "unknown_in index [] = None"
| "unknown_in index (d # ds) = (if index d = None then Some d else unknown_in index ds)"

fun first_unknown :: "(task_id \<Rightarrow> nat option) \<Rightarrow> task_node list \<Rightarrow> (task_id \<times> task_id) option" where
  "first_unknown index [] = None"
| "first_unknown index (t # ts) =
     (case unknown_in index (tn_deps t) of
        Some d \<Rightarrow> Some (tn_id t, d)
      | None \<Rightarrow> first_unknown index ts)"

text \<open>
  The inner loop of Kahn's algorithm: for every task that lists \<open>n\<close>, \<open>indegree[i] -= 1\<close> (which
  panics at 0, and outside the vector), pushing the task when the count reaches 0.
\<close>

fun relax :: "task_id \<Rightarrow> task_node list \<Rightarrow> nat \<Rightarrow> nat list \<Rightarrow> nat list \<Rightarrow> (nat list \<times> nat list) option" where
  "relax n [] i indegree queue = Some (indegree, queue)"
| "relax n (t # ts) i indegree queue =
     (if n \<in> set (tn_deps t) then
        (if i < length indegree \<and> 0 < indegree ! i then
           relax n ts (Suc i) (indegree[i := indegree ! i - 1])
             (if indegree ! i - 1 = 0 then queue @ [i] else queue)
         else None)
      else relax n ts (Suc i) indegree queue)"

lemma relax_measure:
  "relax n ts i indegree queue = Some (indegree', queue') \<Longrightarrow>
   2 * sum_list indegree' + length queue' \<le> 2 * sum_list indegree + length queue"
proof (induction n ts i indegree queue rule: relax.induct)
  case (1 n i indegree queue)
  then show ?case by simp
next
  case (2 n t ts i indegree queue)
  show ?case
  proof (cases "n \<in> set (tn_deps t)")
    case True
    with "2.prems" have c: "i < length indegree \<and> 0 < indegree ! i" by (auto split: if_splits)
    then have s: "Suc (sum_list (indegree[i := indegree ! i - 1])) = sum_list indegree"
      by (intro sum_list_update_pred) auto
    show ?thesis using "2.IH"(1) [OF True c] "2.prems" True c s by (auto split: if_splits)
  next
    case False
    then show ?thesis using "2.IH"(2) "2.prems" by simp
  qed
qed

text \<open>The outer loop: pop the stack, count the task as peeled, relax its dependents.\<close>

function kahn :: "task_node list \<Rightarrow> nat list \<Rightarrow> nat list \<Rightarrow> nat \<Rightarrow> (nat \<times> nat list) option" where
  "kahn ts indegree queue peeled =
     (if queue = [] then Some (peeled, indegree)
      else if last queue < length ts then
        (case relax (tn_id (ts ! last queue)) ts 0 indegree (butlast queue) of
           None \<Rightarrow> None
         | Some (indegree', queue') \<Rightarrow> kahn ts indegree' queue' (Suc peeled))
      else None)"
  by pat_completeness auto
termination
proof (relation "measure (\<lambda>(ts, indegree, queue, peeled). 2 * sum_list indegree + length queue)", goal_cases)
  case 1
  show ?case by simp
next
  case (2 ts indegree queue peeled r indegree' queue')
  then have "length (butlast queue) < length queue" by simp
  with 2 relax_measure [of "tn_id (ts ! last queue)" ts 0 indegree "butlast queue" indegree' queue']
  show ?case by (simp del: length_butlast)
qed

declare kahn.simps [simp del]

text \<open>
  \<open>find_cycle\<close> walks predecessor links among the unpeeled tasks until one repeats. The fuel bounds
  the length of the path; one more than the number of tasks is enough, since a path without a
  repetition has at most that many.
\<close>

fun first_unpeeled :: "(task_id \<Rightarrow> nat option) \<Rightarrow> nat list \<Rightarrow> task_id list \<Rightarrow> nat option option" where
  "first_unpeeled index indegree [] = Some None"
| "first_unpeeled index indegree (d # ds) =
     (case index d of
        None \<Rightarrow> None
      | Some i \<Rightarrow> if indegree ! i > 0 then Some (Some i) else first_unpeeled index indegree ds)"

fun walk_cycle ::
  "nat \<Rightarrow> task_node list \<Rightarrow> (task_id \<Rightarrow> nat option) \<Rightarrow> nat list \<Rightarrow> nat \<Rightarrow> nat list \<Rightarrow> nat \<Rightarrow> task_id list option" where
  "walk_cycle 0 ts index indegree start path cur = None"
| "walk_cycle (Suc fuel) ts index indegree start path cur =
     (case first_unpeeled index indegree (tn_deps (ts ! cur)) of
        None \<Rightarrow> None
      | Some found \<Rightarrow>
          (let next = (case found of Some i \<Rightarrow> i | None \<Rightarrow> start)
           in case position (\<lambda>p. p = next) path of
                Some pos \<Rightarrow> Some (rev (map (\<lambda>i. tn_id (ts ! i)) (drop pos path)))
              | None \<Rightarrow> walk_cycle fuel ts index indegree start (path @ [next]) next))"

definition find_cycle :: "task_node list \<Rightarrow> (task_id \<Rightarrow> nat option) \<Rightarrow> nat list \<Rightarrow> task_id list option" where
  "find_cycle ts index indegree =
     (let start = (case find (\<lambda>i. indegree ! i > 0) [0..<length ts] of Some i \<Rightarrow> i | None \<Rightarrow> 0)
      in walk_cycle (Suc (length ts)) ts index indegree start [start] start)"

definition build :: "task_node list \<Rightarrow> (workflow_error + task_node list) option" where
  "build ts =
     (let index = task_index ts
      in case first_unknown index ts of
           Some (t, d) \<Rightarrow> Some (Inl (UnknownPredecessor t d))
         | None \<Rightarrow>
             (let indegree = map (\<lambda>t. length (tn_deps t)) ts;
                  queue = filter (\<lambda>i. indegree ! i = 0) [0..<length ts]
              in case kahn ts indegree queue 0 of
                   None \<Rightarrow> None
                 | Some (peeled, indegree') \<Rightarrow>
                     if peeled \<noteq> length ts
                     then map_option (\<lambda>c. Inl (Cycle c)) (find_cycle ts index indegree')
                     else Some (Inr ts)))"

section \<open>What the builder guarantees\<close>

definition wf_tasks :: "task_node list \<Rightarrow> bool" where
  "wf_tasks ts \<longleftrightarrow> distinct (map tn_id ts) \<and>
     (\<forall>t\<in>set ts. tn_id t \<noteq> [] \<and> distinct (tn_deps t) \<and> tn_id t \<notin> set (tn_deps t))"

lemma check_deps_Inr_iff:
  "check_deps t seen ds = Inr out \<longleftrightarrow>
   out = ds \<and> t \<notin> set ds \<and> distinct ds \<and> set seen \<inter> set ds = {}"
  by (induction t seen ds arbitrary: out rule: check_deps.induct) (auto simp: try_bind_Inr_iff)

lemma add_task_Inr_iff:
  "add_task ts t deps interrupt = Inr ts' \<longleftrightarrow>
   t \<noteq> [] \<and> t \<notin> tn_id ` set ts \<and> t \<notin> set deps \<and> distinct deps \<and>
   ts' = ts @ [\<lparr>tn_id = t, tn_deps = deps, tn_interrupt = interrupt\<rparr>]"
  by (auto simp: add_task_def try_bind_Inr_iff check_deps_Inr_iff list_ex_iff image_iff)

lemma add_task_wf:
  assumes "wf_tasks ts" "add_task ts t deps interrupt = Inr ts'"
  shows "wf_tasks ts'"
  using assms by (auto simp: wf_tasks_def add_task_Inr_iff)

lemma add_all_wf: "wf_tasks ts \<Longrightarrow> add_all ts calls = Inr ts' \<Longrightarrow> wf_tasks ts'"
  by (induction ts calls rule: add_all.induct) (auto simp: try_bind_Inr_iff intro: add_task_wf)

lemma builder_wf: "add_all [] calls = Inr ts \<Longrightarrow> wf_tasks ts"
  by (rule add_all_wf [of "[]"]) (simp_all add: wf_tasks_def)

definition task_ids :: "task_node list \<Rightarrow> task_id list" where
  "task_ids ts = map tn_id ts"

definition preds_known :: "task_node list \<Rightarrow> bool" where
  "preds_known ts \<longleftrightarrow> (\<forall>t\<in>set ts. set (tn_deps t) \<subseteq> set (task_ids ts))"

text \<open>\<open>(t, d)\<close> is in the relation when task \<open>t\<close> lists \<open>d\<close>.\<close>

definition dep_rel :: "task_node list \<Rightarrow> (task_id \<times> task_id) set" where
  "dep_rel ts = (\<Union>t\<in>set ts. (\<lambda>d. (tn_id t, d)) ` set (tn_deps t))"

text \<open>A cycle in dependency order: each element depends on the one before it, cyclically.\<close>

definition dep_cycle :: "task_node list \<Rightarrow> task_id list \<Rightarrow> bool" where
  "dep_cycle ts c \<longleftrightarrow> c \<noteq> [] \<and> distinct c \<and>
     (\<forall>i<length c. (c ! (Suc i mod length c), c ! i) \<in> dep_rel ts)"

lemma dep_rel_nth:
  assumes "i < length ts" "d \<in> set (tn_deps (ts ! i))"
  shows "(tn_id (ts ! i), d) \<in> dep_rel ts"
  using assms by (force simp: dep_rel_def)

subsection \<open>Looking up predecessors\<close>

lemma task_index_nth:
  assumes "wf_tasks ts" "i < length ts"
  shows "task_index ts (tn_id (ts ! i)) = Some i"
  using map_of_rev_zip_distinct [of "map tn_id ts" "[0..<length ts]" i] assms
  by (simp add: task_index_def wf_tasks_def)

lemma task_index_SomeD:
  assumes "wf_tasks ts" "task_index ts d = Some i"
  shows "i < length ts \<and> tn_id (ts ! i) = d"
proof -
  have "(d, i) \<in> set (zip (map tn_id ts) [0..<length ts])"
    using assms(2) by (auto simp: task_index_def dest: map_of_SomeD)
  then show ?thesis by (auto simp: set_zip)
qed

lemma task_index_None_iff:
  assumes "wf_tasks ts"
  shows "task_index ts d = None \<longleftrightarrow> d \<notin> set (task_ids ts)"
proof
  assume n: "task_index ts d = None"
  show "d \<notin> set (task_ids ts)"
  proof
    assume "d \<in> set (task_ids ts)"
    then obtain i where "i < length ts" "d = tn_id (ts ! i)"
      by (auto simp: task_ids_def in_set_conv_nth)
    with n task_index_nth [OF assms] show False by simp
  qed
next
  assume d: "d \<notin> set (task_ids ts)"
  show "task_index ts d = None"
  proof (cases "task_index ts d")
    case (Some i)
    with task_index_SomeD [OF assms Some] d show ?thesis by (auto simp: task_ids_def)
  qed simp
qed

lemma unknown_in_None_iff: "unknown_in index ds = None \<longleftrightarrow> (\<forall>d\<in>set ds. index d \<noteq> None)"
  by (induction ds) auto

lemma unknown_in_SomeD: "unknown_in index ds = Some d \<Longrightarrow> d \<in> set ds \<and> index d = None"
  by (induction ds) (auto split: if_splits)

lemma first_unknown_None_iff:
  "first_unknown index ts = None \<longleftrightarrow> (\<forall>t\<in>set ts. \<forall>d\<in>set (tn_deps t). index d \<noteq> None)"
  by (induction ts) (auto split: option.splits simp: unknown_in_None_iff dest: unknown_in_SomeD)

lemma first_unknown_SomeD:
  "first_unknown index ts = Some (t, d) \<Longrightarrow> \<exists>u\<in>set ts. tn_id u = t \<and> d \<in> set (tn_deps u) \<and> index d = None"
  by (induction ts) (auto split: option.splits dest: unknown_in_SomeD)

lemma first_unknown_known:
  assumes "wf_tasks ts"
  shows "first_unknown (task_index ts) ts = None \<longleftrightarrow> preds_known ts"
  using task_index_None_iff [OF assms]
  by (auto simp: first_unknown_None_iff preds_known_def)

subsection \<open>One round of Kahn's algorithm\<close>

lemma relax_spec:
  assumes "length indegree = length ts" "i \<le> length ts"
    and "\<forall>k. i \<le> k \<and> k < length ts \<and> n \<in> set (tn_deps (ts ! k)) \<longrightarrow> 0 < indegree ! k"
  shows "\<exists>indegree'. relax n (drop i ts) i indegree queue =
      Some (indegree', queue @ filter (\<lambda>k. n \<in> set (tn_deps (ts ! k)) \<and> indegree ! k = 1) [i..<length ts]) \<and>
    length indegree' = length ts \<and>
    (\<forall>k<length ts. indegree' ! k =
       (if i \<le> k \<and> n \<in> set (tn_deps (ts ! k)) then indegree ! k - 1 else indegree ! k))"
  using assms
proof (induction "length ts - i" arbitrary: i indegree queue)
  case 0
  then show ?case by simp
next
  case (Suc m)
  then have i: "i < length ts" by simp
  have d: "drop i ts = ts ! i # drop (Suc i) ts" using i by (rule Cons_nth_drop_Suc [symmetric])
  have u: "[i..<length ts] = i # [Suc i..<length ts]" using i by (rule upt_conv_Cons)
  define ind where
    "ind = (if n \<in> set (tn_deps (ts ! i)) then indegree[i := indegree ! i - 1] else indegree)"
  define q where
    "q = (if n \<in> set (tn_deps (ts ! i)) \<and> indegree ! i = 1 then queue @ [i] else queue)"
  have step: "relax n (drop i ts) i indegree queue = relax n (drop (Suc i) ts) (Suc i) ind q"
    using Suc.prems i by (auto simp: d ind_def q_def)
  have off: "ind ! k = indegree ! k" if "Suc i \<le> k" for k using that by (simp add: ind_def)
  have same: "filter (\<lambda>k. n \<in> set (tn_deps (ts ! k)) \<and> ind ! k = 1) [Suc i..<length ts] =
      filter (\<lambda>k. n \<in> set (tn_deps (ts ! k)) \<and> indegree ! k = 1) [Suc i..<length ts]"
    by (rule filter_cong) (auto simp: off)
  have p1: "m = length ts - Suc i" using Suc.hyps(2) by simp
  have p2: "length ind = length ts" using Suc.prems(1) by (simp add: ind_def)
  have p3: "\<forall>k. Suc i \<le> k \<and> k < length ts \<and> n \<in> set (tn_deps (ts ! k)) \<longrightarrow> 0 < ind ! k"
    using Suc.prems(3) by (simp add: off)
  obtain ind' where
    r: "relax n (drop (Suc i) ts) (Suc i) ind q =
        Some (ind', q @ filter (\<lambda>k. n \<in> set (tn_deps (ts ! k)) \<and> ind ! k = 1) [Suc i..<length ts])" and
    l: "length ind' = length ts" and
    v: "\<forall>k<length ts. ind' ! k =
       (if Suc i \<le> k \<and> n \<in> set (tn_deps (ts ! k)) then ind ! k - 1 else ind ! k)"
    using Suc.hyps(1) [OF p1 p2 _ p3, of q] i by auto
  have "\<forall>k<length ts. ind' ! k =
       (if i \<le> k \<and> n \<in> set (tn_deps (ts ! k)) then indegree ! k - 1 else indegree ! k)"
    using v i Suc.prems(1) by (auto simp: ind_def nth_list_update Suc_le_eq le_less)
  moreover have "q @ filter (\<lambda>k. n \<in> set (tn_deps (ts ! k)) \<and> ind ! k = 1) [Suc i..<length ts] =
      queue @ filter (\<lambda>k. n \<in> set (tn_deps (ts ! k)) \<and> indegree ! k = 1) [i..<length ts]"
    using same by (simp add: u q_def)
  ultimately show ?case using r l step by auto
qed

text \<open>
  The loop invariant: every counter is the number of predecessors that are not yet peeled, the
  stack and the peeled tasks are together those whose counter is 0, and a numbering puts every
  peeled task after its predecessors.
\<close>

definition ids_of :: "task_node list \<Rightarrow> nat set \<Rightarrow> task_id set" where
  "ids_of ts P = (\<lambda>i. tn_id (ts ! i)) ` P"

definition ordered_by :: "task_node list \<Rightarrow> nat set \<Rightarrow> (task_id \<Rightarrow> nat) \<Rightarrow> bool" where
  "ordered_by ts P rk \<longleftrightarrow> (\<forall>i\<in>P. rk (tn_id (ts ! i)) < card P \<and>
     (\<forall>d\<in>set (tn_deps (ts ! i)). rk d < rk (tn_id (ts ! i))))"

definition kahn_inv :: "task_node list \<Rightarrow> nat set \<Rightarrow> nat list \<Rightarrow> nat list \<Rightarrow> bool" where
  "kahn_inv ts P indegree queue \<longleftrightarrow>
     length indegree = length ts \<and> P \<subseteq> {..<length ts} \<and> distinct queue \<and> P \<inter> set queue = {} \<and>
     (\<forall>i<length ts. indegree ! i = card (set (tn_deps (ts ! i)) - ids_of ts P)) \<and>
     P \<union> set queue = {i. i < length ts \<and> indegree ! i = 0} \<and>
     (\<exists>rk. ordered_by ts P rk)"

lemma ids_of_mem:
  assumes "wf_tasks ts" "P \<subseteq> {..<length ts}" "i < length ts"
  shows "tn_id (ts ! i) \<in> ids_of ts P \<longleftrightarrow> i \<in> P"
proof
  assume "tn_id (ts ! i) \<in> ids_of ts P"
  then obtain j where "j \<in> P" "tn_id (ts ! j) = tn_id (ts ! i)" by (auto simp: ids_of_def)
  with assms show "i \<in> P"
    using distinct_map_nth_eq [of tn_id ts j i] by (auto simp: wf_tasks_def)
qed (simp add: ids_of_def)

lemma ids_of_insert [simp]: "ids_of ts (insert i P) = insert (tn_id (ts ! i)) (ids_of ts P)"
  by (simp add: ids_of_def)

lemma card_diff_insert:
  assumes "finite A" "x \<notin> B"
  shows "card (A - insert x B) = (if x \<in> A then card (A - B) - 1 else card (A - B))"
proof -
  have "A - insert x B = (A - B) - {x}" by auto
  then show ?thesis using assms by simp
qed

lemma kahn_inv_zero:
  assumes "kahn_inv ts P indegree queue" "i < length ts" "indegree ! i = 0"
  shows "set (tn_deps (ts ! i)) \<subseteq> ids_of ts P"
proof -
  have "card (set (tn_deps (ts ! i)) - ids_of ts P) = 0" using assms by (simp add: kahn_inv_def)
  then show ?thesis by auto
qed

lemma ordered_by_insert:
  assumes fin: "finite P" and n: "n \<notin> P" and rk: "ordered_by ts P rk"
    and new: "tn_id (ts ! n) \<notin> ids_of ts P"
    and closed: "\<forall>i\<in>insert n P. set (tn_deps (ts ! i)) \<subseteq> ids_of ts P"
  shows "ordered_by ts (insert n P) (rk(tn_id (ts ! n) := card P))"
proof -
  have c: "card (insert n P) = Suc (card P)" using fin n by simp
  have low: "rk d < card P" if "d \<in> ids_of ts P" for d
    using that rk by (auto simp: ids_of_def ordered_by_def)
  have ne: "d \<noteq> tn_id (ts ! n)" if "d \<in> ids_of ts P" for d using that new by auto
  have ids: "tn_id (ts ! i) \<in> ids_of ts P" if "i \<in> P" for i using that by (simp add: ids_of_def)
  show ?thesis
    using rk closed low ne ids unfolding ordered_by_def c
    by (auto simp: less_Suc_eq subset_iff)
qed

lemma kahn_round:
  assumes wf: "wf_tasks ts" and inv: "kahn_inv ts P indegree queue" and q: "queue \<noteq> []"
  shows "\<exists>indegree' queue'. last queue < length ts \<and> last queue \<notin> P \<and>
    relax (tn_id (ts ! last queue)) ts 0 indegree (butlast queue) = Some (indegree', queue') \<and>
    kahn_inv ts (insert (last queue) P) indegree' queue'"
proof -
  define n where "n = last queue"
  define x where "x = tn_id (ts ! n)"
  have len: "length indegree = length ts" and sub: "P \<subseteq> {..<length ts}" and dq: "distinct queue"
    and dis: "P \<inter> set queue = {}"
    and cnt: "\<And>i. i < length ts \<Longrightarrow> indegree ! i = card (set (tn_deps (ts ! i)) - ids_of ts P)"
    and zero: "P \<union> set queue = {i. i < length ts \<and> indegree ! i = 0}"
    using inv by (auto simp: kahn_inv_def)
  from inv obtain rk where rk: "ordered_by ts P rk" by (auto simp: kahn_inv_def)
  have split: "queue = butlast queue @ [n]" using q by (simp add: n_def)
  have setq: "set queue = insert n (set (butlast queue))" by (subst split) simp
  have nb: "n \<notin> set (butlast queue)" "distinct (butlast queue)" using dq
    by (subst (asm) split, simp)+
  have n: "n < length ts" "indegree ! n = 0" "n \<notin> P" using zero setq dis by auto
  have x: "x \<notin> ids_of ts P" using ids_of_mem [OF wf sub n(1)] n(3) by (simp add: x_def)
  have pos: "0 < indegree ! k" if "k < length ts" "x \<in> set (tn_deps (ts ! k))" for k
    using that x cnt [of k] by (auto simp: card_gt_0_iff)
  have pre: "\<forall>k. 0 \<le> k \<and> k < length ts \<and> x \<in> set (tn_deps (ts ! k)) \<longrightarrow> 0 < indegree ! k"
    using pos by blast
  obtain indegree' where
    r: "relax x ts 0 indegree (butlast queue) = Some (indegree',
       butlast queue @ filter (\<lambda>k. x \<in> set (tn_deps (ts ! k)) \<and> indegree ! k = 1) [0..<length ts])" and
    l: "length indegree' = length ts" and
    v0: "\<forall>k<length ts. indegree' ! k =
       (if 0 \<le> k \<and> x \<in> set (tn_deps (ts ! k)) then indegree ! k - 1 else indegree ! k)"
    using relax_spec [OF len le0 pre, of "butlast queue", unfolded drop_0] by blast
  have v: "indegree' ! k =
       (if x \<in> set (tn_deps (ts ! k)) then indegree ! k - 1 else indegree ! k)" if "k < length ts" for k
    using v0 that by simp
  define new where "new = filter (\<lambda>k. x \<in> set (tn_deps (ts ! k)) \<and> indegree ! k = 1) [0..<length ts]"
  have one: "set new \<inter> (P \<union> set queue) = {}" unfolding zero by (auto simp: new_def)
  have cnt': "indegree' ! i = card (set (tn_deps (ts ! i)) - ids_of ts (insert n P))"
    if "i < length ts" for i
    using v [OF that] cnt [OF that] card_diff_insert [of "set (tn_deps (ts ! i))" x "ids_of ts P"] x
    by (simp add: x_def [symmetric])
  have zero': "insert n P \<union> set (butlast queue @ new) = {i. i < length ts \<and> indegree' ! i = 0}"
  proof -
    have "{i. i < length ts \<and> indegree' ! i = 0} =
        {i. i < length ts \<and> indegree ! i = 0} \<union> set new"
      using v pos by (fastforce simp: new_def split: if_splits)
    then show ?thesis using zero setq by auto
  qed
  have closed: "\<forall>i\<in>insert n P. set (tn_deps (ts ! i)) \<subseteq> ids_of ts P"
  proof
    fix i assume "i \<in> insert n P"
    then have "i < length ts" "indegree ! i = 0" using zero n by auto
    with kahn_inv_zero [OF inv] show "set (tn_deps (ts ! i)) \<subseteq> ids_of ts P" .
  qed
  have "ordered_by ts (insert n P) (rk(x := card P))"
    unfolding x_def using sub n(3) rk x closed
    by (intro ordered_by_insert) (auto simp: x_def intro: finite_subset)
  moreover have "distinct (butlast queue @ new)"
    using nb one setq by (auto simp: new_def)
  moreover have "insert n P \<inter> set (butlast queue @ new) = {}"
    using nb one setq dis by auto
  ultimately have "kahn_inv ts (insert n P) indegree' (butlast queue @ new)"
    using l sub n(1) cnt' zero' by (auto simp: kahn_inv_def)
  with n r show ?thesis by (auto simp: n_def x_def new_def)
qed

lemma kahn_ends:
  assumes "wf_tasks ts" "kahn_inv ts P indegree queue" "peeled = card P"
  shows "\<exists>P' indegree'. kahn ts indegree queue peeled = Some (card P', indegree') \<and>
    kahn_inv ts P' indegree' []"
  using assms
proof (induction ts indegree queue peeled arbitrary: P rule: kahn.induct)
  case (1 ts indegree queue peeled)
  show ?case
  proof (cases "queue = []")
    case True
    with "1.prems" show ?thesis by (subst kahn.simps) auto
  next
    case False
    from kahn_round [OF "1.prems"(1,2) False] obtain indegree' queue' where
      a: "last queue < length ts" "last queue \<notin> P"
        "relax (tn_id (ts ! last queue)) ts 0 indegree (butlast queue) = Some (indegree', queue')"
        "kahn_inv ts (insert (last queue) P) indegree' queue'" by blast
    have "finite P" using "1.prems"(2) by (auto simp: kahn_inv_def intro: finite_subset)
    then have c: "Suc peeled = card (insert (last queue) P)" using a(2) "1.prems"(3) by simp
    have k: "kahn ts indegree queue peeled = kahn ts indegree' queue' (Suc peeled)"
      using False a by (subst kahn.simps) simp
    show ?thesis
      unfolding k by (rule "1.IH" [OF False a(1,3) refl "1.prems"(1) a(4) c])
  qed
qed

lemma kahn_start:
  assumes wf: "wf_tasks ts"
  defines "indegree \<equiv> map (\<lambda>t. length (tn_deps t)) ts"
  shows "kahn_inv ts {} indegree (filter (\<lambda>i. indegree ! i = 0) [0..<length ts])"
proof -
  have "indegree ! i = card (set (tn_deps (ts ! i)) - ids_of ts {})" if "i < length ts" for i
    using wf that by (simp add: indegree_def wf_tasks_def ids_of_def distinct_card)
  moreover have "ordered_by ts {} (\<lambda>_. 0)" by (simp add: ordered_by_def)
  ultimately show ?thesis by (auto simp: kahn_inv_def indegree_def)
qed

subsection \<open>A stuck peeling exhibits a cycle\<close>

lemma first_unpeeled_found:
  assumes "\<forall>d\<in>set ds. index d \<noteq> None" "d \<in> set ds" "index d = Some i" "0 < indegree ! i"
  shows "\<exists>d' i'. first_unpeeled index indegree ds = Some (Some i') \<and> d' \<in> set ds \<and>
    index d' = Some i' \<and> 0 < indegree ! i'"
  using assms
proof (induction ds)
  case Nil
  then show ?case by simp
next
  case (Cons a ds)
  then obtain j where j: "index a = Some j" by auto
  show ?case
  proof (cases "0 < indegree ! j")
    case False
    have "d \<noteq> a" using Cons.prems(3,4) j False by auto
    then have "d \<in> set ds" using Cons.prems(2) by simp
    with Cons.IH Cons.prems obtain d' i' where
      "first_unpeeled index indegree ds = Some (Some i')" "d' \<in> set ds" "index d' = Some i'"
      "0 < indegree ! i'" by auto
    with j False show ?thesis by auto
  qed (use j in auto)
qed

definition unpeeled :: "task_node list \<Rightarrow> nat list \<Rightarrow> nat set" where
  "unpeeled ts indegree = {i. i < length ts \<and> 0 < indegree ! i}"

lemma unpeeled_next:
  assumes wf: "wf_tasks ts" and known: "preds_known ts" and inv: "kahn_inv ts P indegree []"
    and i: "i \<in> unpeeled ts indegree"
  shows "\<exists>j. first_unpeeled (task_index ts) indegree (tn_deps (ts ! i)) = Some (Some j) \<and>
    j \<in> unpeeled ts indegree \<and> (tn_id (ts ! i), tn_id (ts ! j)) \<in> dep_rel ts"
proof -
  have il: "i < length ts" and P: "P = {i. i < length ts \<and> indegree ! i = 0}"
    using i inv by (auto simp: unpeeled_def kahn_inv_def)
  have all: "\<forall>d\<in>set (tn_deps (ts ! i)). task_index ts d \<noteq> None"
    using known il task_index_None_iff [OF wf] by (auto simp: preds_known_def)
  have "0 < card (set (tn_deps (ts ! i)) - ids_of ts P)"
    using i inv il by (simp add: unpeeled_def kahn_inv_def)
  then have "set (tn_deps (ts ! i)) - ids_of ts P \<noteq> {}" by (metis card.empty less_irrefl)
  then obtain d where d: "d \<in> set (tn_deps (ts ! i))" "d \<notin> ids_of ts P" by auto
  obtain k where k: "task_index ts d = Some k" using all d(1) by auto
  have "k < length ts" "tn_id (ts ! k) = d" using task_index_SomeD [OF wf k] by auto
  then have "0 < indegree ! k" using d(2) P by (auto simp: ids_of_def)
  from first_unpeeled_found [OF all d(1) k this] obtain d' j where
    j: "first_unpeeled (task_index ts) indegree (tn_deps (ts ! i)) = Some (Some j)"
      "d' \<in> set (tn_deps (ts ! i))" "task_index ts d' = Some j" "0 < indegree ! j" by blast
  with task_index_SomeD [OF wf j(3)] dep_rel_nth [OF il j(2)] show ?thesis
    by (auto simp: unpeeled_def)
qed

text \<open>The path of the walk: distinct unpeeled tasks, each depending on the next.\<close>

definition dep_path :: "task_node list \<Rightarrow> nat list \<Rightarrow> bool" where
  "dep_path ts path \<longleftrightarrow> path \<noteq> [] \<and> distinct path \<and> set path \<subseteq> {..<length ts} \<and>
     (\<forall>k. Suc k < length path \<longrightarrow> (tn_id (ts ! (path ! k)), tn_id (ts ! (path ! Suc k))) \<in> dep_rel ts)"

lemma dep_path_length: "dep_path ts path \<Longrightarrow> length path \<le> length ts"
  using card_mono [of "{..<length ts}" "set path"] by (auto simp: dep_path_def distinct_card)

lemma dep_path_snoc:
  assumes "dep_path ts path" "j \<notin> set path" "j < length ts"
    and "(tn_id (ts ! last path), tn_id (ts ! j)) \<in> dep_rel ts"
  shows "dep_path ts (path @ [j])"
  using assms
  by (auto simp: dep_path_def nth_append last_conv_nth less_Suc_eq)
    (metis One_nat_def Suc_lessI diff_Suc_1)

lemma dep_path_cycle:
  assumes wf: "wf_tasks ts" and p: "dep_path ts path" and pos: "pos < length path"
    and close: "(tn_id (ts ! last path), tn_id (ts ! (path ! pos))) \<in> dep_rel ts"
  shows "dep_cycle ts (rev (map (\<lambda>i. tn_id (ts ! i)) (drop pos path)))"
proof -
  define c where "c = map (\<lambda>i. tn_id (ts ! i)) (drop pos path)"
  have m: "length c = length path - pos" "0 < length c" using pos by (simp_all add: c_def)
  have "inj_on (\<lambda>i. tn_id (ts ! i)) (set path)"
    using p wf distinct_map_nth_eq [of tn_id ts] unfolding dep_path_def wf_tasks_def inj_on_def
    by blast
  then have dist: "distinct c"
    using p unfolding c_def dep_path_def distinct_map
    by (meson distinct_drop inj_on_subset set_drop_subset)
  have nth: "c ! k = tn_id (ts ! (path ! (pos + k)))" if "k < length c" for k
    using that m by (simp add: c_def)
  have chain: "(c ! k, c ! Suc k) \<in> dep_rel ts" if "Suc k < length c" for k
    using that p m by (simp add: nth dep_path_def)
  have ends: "(c ! (length c - 1), c ! 0) \<in> dep_rel ts"
    using close m p by (simp add: nth dep_path_def last_conv_nth)
  have "(rev c ! (Suc i mod length c), rev c ! i) \<in> dep_rel ts" if i: "i < length c" for i
  proof (cases "Suc i < length c")
    case True
    then have "rev c ! Suc i = c ! (length c - Suc (Suc i))" "rev c ! i = c ! Suc (length c - Suc (Suc i))"
      by (simp_all add: rev_nth Suc_diff_Suc)
    with chain [of "length c - Suc (Suc i)"] True show ?thesis by simp
  next
    case False
    with i have "Suc i = length c" by simp
    with ends m show ?thesis by (simp add: rev_nth)
  qed
  with dist m show ?thesis unfolding dep_cycle_def c_def [symmetric] by auto
qed

lemma walk_cycle_ends:
  assumes wf: "wf_tasks ts" and known: "preds_known ts" and inv: "kahn_inv ts P indegree []"
    and "dep_path ts path" "last path \<in> unpeeled ts indegree" "length ts + 2 \<le> fuel + length path"
  shows "\<exists>c. walk_cycle fuel ts (task_index ts) indegree start path (last path) = Some c \<and> dep_cycle ts c"
  using assms(4-)
proof (induction fuel arbitrary: path)
  case 0
  with dep_path_length [of ts path] show ?case by simp
next
  case (Suc fuel)
  from unpeeled_next [OF wf known inv Suc.prems(2)] obtain j where
    j: "first_unpeeled (task_index ts) indegree (tn_deps (ts ! last path)) = Some (Some j)"
      "j \<in> unpeeled ts indegree" "(tn_id (ts ! last path), tn_id (ts ! j)) \<in> dep_rel ts" by blast
  show ?case
  proof (cases "position (\<lambda>p. p = j) path")
    case None
    then have "dep_path ts (path @ [j])"
      using j Suc.prems(1) by (intro dep_path_snoc) (auto simp: position_None_iff unpeeled_def)
    from Suc.IH [OF this] j Suc.prems(3) None show ?thesis by simp
  next
    case (Some pos)
    then have "pos < length path" "path ! pos = j" using position_SomeD by fastforce+
    with dep_path_cycle [OF wf Suc.prems(1), of pos] j Some show ?thesis by simp
  qed
qed

lemma find_cycle_ends:
  assumes wf: "wf_tasks ts" and known: "preds_known ts" and inv: "kahn_inv ts P indegree []"
    and stuck: "card P \<noteq> length ts"
  shows "\<exists>c. find_cycle ts (task_index ts) indegree = Some c \<and> dep_cycle ts c"
proof -
  have P: "P = {i. i < length ts \<and> indegree ! i = 0}" using inv by (auto simp: kahn_inv_def)
  have "\<exists>i<length ts. 0 < indegree ! i"
  proof (rule ccontr)
    assume "\<not> (\<exists>i<length ts. 0 < indegree ! i)"
    then have "P = {..<length ts}" using P by auto
    with stuck show False by simp
  qed
  then obtain s where s: "find (\<lambda>i. indegree ! i > 0) [0..<length ts] = Some s"
    by (cases "find (\<lambda>i. indegree ! i > 0) [0..<length ts]") (auto simp: find_None_all)
  then have "s < length ts" "0 < indegree ! s" using find_SomeD by fastforce+
  then have "dep_path ts [s]" "last [s] \<in> unpeeled ts indegree"
    by (auto simp: dep_path_def unpeeled_def)
  from walk_cycle_ends [OF wf known inv this, of "Suc (length ts)" s] s
  show ?thesis by (simp add: find_cycle_def Let_def)
qed

lemma dep_cycle_not_acyclic:
  assumes "dep_cycle ts c"
  shows "\<not> acyclic (dep_rel ts)"
proof
  assume ac: "acyclic (dep_rel ts)"
  have c: "c \<noteq> []" and e: "\<And>i. i < length c \<Longrightarrow> (c ! (Suc i mod length c), c ! i) \<in> dep_rel ts"
    using assms by (auto simp: dep_cycle_def)
  have up: "k < length c \<Longrightarrow> (c ! k, c ! 0) \<in> (dep_rel ts)\<^sup>*" for k
  proof (induction k)
    case (Suc k)
    with e [of k] show ?case by (auto intro: converse_rtrancl_into_rtrancl)
  qed simp
  have "(c ! 0, c ! (length c - 1)) \<in> dep_rel ts" using e [of "length c - 1"] c by simp
  moreover have "(c ! (length c - 1), c ! 0) \<in> (dep_rel ts)\<^sup>*" using up c by simp
  ultimately have "(c ! 0, c ! 0) \<in> (dep_rel ts)\<^sup>+" by (rule rtrancl_into_trancl2)
  with ac show False by (simp add: acyclic_def)
qed

lemma ordered_acyclic:
  assumes "ordered_by ts {..<length ts} rk"
  shows "acyclic (dep_rel ts)"
proof (rule acyclic_subset)
  show "acyclic {(t, d). rk d < rk t}"
    by (rule acyclicI_order [of _ "\<lambda>t. rk t"]) auto
  show "dep_rel ts \<subseteq> {(t, d). rk d < rk t}"
    using assms by (fastforce simp: dep_rel_def ordered_by_def in_set_conv_nth)
qed

lemma build_cases:
  assumes wf: "wf_tasks ts"
  shows "build ts = Some (Inr ts) \<and> preds_known ts \<and> acyclic (dep_rel ts) \<or>
    (\<exists>u d. build ts = Some (Inl (UnknownPredecessor (tn_id u) d)) \<and> u \<in> set ts \<and>
       d \<in> set (tn_deps u) \<and> d \<notin> set (task_ids ts)) \<or>
    (\<exists>c. build ts = Some (Inl (Cycle c)) \<and> preds_known ts \<and> dep_cycle ts c)"
proof (cases "first_unknown (task_index ts) ts")
  case (Some td)
  then obtain t d where td: "first_unknown (task_index ts) ts = Some (t, d)" by (cases td) auto
  from first_unknown_SomeD [OF td] obtain u where
    "u \<in> set ts" "tn_id u = t" "d \<in> set (tn_deps u)" "task_index ts d = None" by blast
  then show ?thesis using td task_index_None_iff [OF wf] by (auto simp: build_def)
next
  case None
  then have known: "preds_known ts" using first_unknown_known [OF wf] by simp
  define indegree where "indegree = map (\<lambda>t. length (tn_deps t)) ts"
  from kahn_ends [OF wf kahn_start [OF wf], of 0] obtain P indegree' where
    k: "kahn ts indegree (filter (\<lambda>i. indegree ! i = 0) [0..<length ts]) 0 = Some (card P, indegree')"
    and inv: "kahn_inv ts P indegree' []" by (auto simp: indegree_def)
  show ?thesis
  proof (cases "card P = length ts")
    case True
    have "P \<subseteq> {..<length ts}" using inv unfolding kahn_inv_def by blast
    with True have "P = {..<length ts}" by (intro card_subset_eq) auto
    then have "acyclic (dep_rel ts)" using inv ordered_acyclic by (auto simp: kahn_inv_def)
    moreover have "build ts = Some (Inr ts)"
      using None k True by (simp add: build_def Let_def indegree_def [symmetric])
    ultimately show ?thesis using known by simp
  next
    case False
    from find_cycle_ends [OF wf known inv False] obtain c where
      "find_cycle ts (task_index ts) indegree' = Some c" "dep_cycle ts c" by blast
    then show ?thesis
      using None k False known by (simp add: build_def Let_def indegree_def [symmetric])
  qed
qed

section \<open>Properties\<close>

text \<open>
  The builder accepts a task exactly when its identifier is not empty and not yet used and its
  predecessor list names neither the task itself nor a task twice; it then appends the task at the
  end with that list unchanged, and whatever it accepted before stays as it was.
\<close>

lemma add_task_accepts:
  "add_task ts t deps interrupt = Inr ts' \<longleftrightarrow>
   t \<noteq> [] \<and> t \<notin> tn_id ` set ts \<and> t \<notin> set deps \<and> distinct deps \<and>
   ts' = ts @ [\<lparr>tn_id = t, tn_deps = deps, tn_interrupt = interrupt\<rparr>]"
  by (rule add_task_Inr_iff)

text \<open>
  C4: Whatever was added through the builder, \<open>build\<close> accepts it exactly when every listed
  predecessor is a task and the dependency relation has no cycle; the accepted specification is the
  list of tasks itself.
\<close>

theorem build_accepts_exactly_dags:
  assumes "add_all [] calls = Inr ts"
  shows "build ts = Some (Inr ts') \<longleftrightarrow> ts' = ts \<and> preds_known ts \<and> acyclic (dep_rel ts)"
  using build_cases [OF builder_wf [OF assms]] dep_cycle_not_acyclic
  by (auto simp: preds_known_def)

definition diamond_calls :: "(task_id \<times> task_id list \<times> effect_certainty) list" where
  "diamond_calls = [(''d'', [''b'', ''c''], EcUncertain), (''a'', [], NoEffect),
     (''b'', [''a''], EcUncertain), (''c'', [''a''], EcUncertain)]"

definition diamond_tasks :: "task_node list" where
  "diamond_tasks = map (\<lambda>(t, deps, i). \<lparr>tn_id = t, tn_deps = deps, tn_interrupt = i\<rparr>) diamond_calls"

lemma diamond_added: "add_all [] diamond_calls = Inr diamond_tasks"
  by (simp add: diamond_calls_def diamond_tasks_def add_task_def)

theorem build_accepts_exactly_dags_witness:
  "build diamond_tasks = Some (Inr diamond_tasks) \<and> acyclic (dep_rel diamond_tasks)"
proof -
  have "build diamond_tasks = Some (Inr diamond_tasks)" by code_simp
  with build_accepts_exactly_dags [OF diamond_added] show ?thesis by blast
qed

text \<open>
  C19: \<open>build\<close> always answers: no counter is decremented below zero, no lookup panics and the
  search for a cycle ends. When it refuses, the refusal is genuine: either a task of the list names
  a predecessor that is no task, or all are known and the reported cycle is one, without
  repetition, in dependency order.
\<close>

theorem build_total_and_genuine:
  assumes "add_all [] calls = Inr ts"
  shows "\<exists>r. build ts = Some r \<and> (case r of
      Inr ts' \<Rightarrow> ts' = ts
    | Inl (UnknownPredecessor t d) \<Rightarrow>
        (\<exists>u\<in>set ts. tn_id u = t \<and> d \<in> set (tn_deps u)) \<and> d \<notin> set (task_ids ts)
    | Inl (Cycle c) \<Rightarrow> preds_known ts \<and> dep_cycle ts c
    | Inl _ \<Rightarrow> False)"
  using build_cases [OF builder_wf [OF assms]] by auto

definition ring_calls :: "(task_id \<times> task_id list \<times> effect_certainty) list" where
  "ring_calls = [(''x'', [''z''], EcUncertain), (''y'', [''x''], EcUncertain),
     (''z'', [''y''], EcUncertain), (''w'', [''z''], NoEffect)]"

definition ring_tasks :: "task_node list" where
  "ring_tasks = map (\<lambda>(t, deps, i). \<lparr>tn_id = t, tn_deps = deps, tn_interrupt = i\<rparr>) ring_calls"

theorem build_total_and_genuine_witness:
  "build ring_tasks = Some (Inl (Cycle [''y'', ''z'', ''x''])) \<and> dep_cycle ring_tasks [''y'', ''z'', ''x'']"
proof -
  have a: "add_all [] ring_calls = Inr ring_tasks"
    by (simp add: ring_calls_def ring_tasks_def add_task_def)
  have "build ring_tasks = Some (Inl (Cycle [''y'', ''z'', ''x'']))" by code_simp
  with build_total_and_genuine [OF a] show ?thesis by simp
qed

end
