(* ===== verification/DagExec.thy ===== *)
theory DagExec
  imports DagBuild Events
begin

text \<open>
  \<open>src/orchestration/workflow.rs\<close>, second part: the ledger with its recorder, and the executor.
  The recorder's operations and the executor's passes over the tasks are functions on the ledger.
  The executor itself is a coordinator that shares flags, permits and finished bodies with the
  task bodies and the caller, so \<open>run\<close> is a step relation: one rule per piece of the coordinator's
  loop between two points at which the others may act, and one rule per action of the others.

  What the coordinator reads from outside is given: the clock reading and the event identifier
  used for each sequence number (every number is used once), the outcome of each body, the moment
  at which the caller cancels, and the moment at which the total budget is spent. A task that is
  not in the ledger makes the source panic; here it has no specified state, and the invariants show
  that the case does not arise.
\<close>

section \<open>States, outcomes, configuration\<close>

datatype task_state =
    TsPending | TsReady | TsRunning | TsWaitingForApproval | TsCompleted
  | TsFailed failure_record | TsCancelled | TsSkipped task_id

fun is_terminal :: "task_state \<Rightarrow> bool" where
  "is_terminal TsCompleted = True"
| "is_terminal (TsFailed _) = True"
| "is_terminal TsCancelled = True"
| "is_terminal (TsSkipped _) = True"
| "is_terminal _ = False"

fun state_name :: "task_state \<Rightarrow> string" where
  "state_name TsPending = ''pending''"
| "state_name TsReady = ''ready''"
| "state_name TsRunning = ''running''"
| "state_name TsWaitingForApproval = ''waiting_for_approval''"
| "state_name TsCompleted = ''completed''"
| "state_name (TsFailed _) = ''failed''"
| "state_name TsCancelled = ''cancelled''"
| "state_name (TsSkipped _) = ''skipped''"

datatype task_outcome = OutCompleted json | OutFailed tool_fault | OutApprovalPending | OutCancelled

datatype finish = FinOutcome task_outcome | FinTimedOut | FinInterrupted

datatype workflow_status = WsCompleted | WsFailed | WsCancelled | WsWaitingForApproval

text \<open>The lower-cased \<open>Debug\<close> name.\<close>

fun status_name :: "workflow_status \<Rightarrow> string" where
  "status_name WsCompleted = ''completed''"
| "status_name WsFailed = ''failed''"
| "status_name WsCancelled = ''cancelled''"
| "status_name WsWaitingForApproval = ''waitingforapproval''"

record workflow_config =
  wc_run_id :: run_id
  wc_session_id :: session_id
  wc_max_parallel :: nat
  wc_per_task_timeout :: "nat option"
  wc_total_budget :: "nat option"

definition new_workflow_config :: "run_id \<Rightarrow> session_id \<Rightarrow> nat \<Rightarrow> workflow_config" where
  "new_workflow_config rid sid n = \<lparr>wc_run_id = rid, wc_session_id = sid, wc_max_parallel = n,
     wc_per_task_timeout = None, wc_total_budget = None\<rparr>"

record workflow_event =
  we_seq :: nat
  we_task :: "task_id option"
  we_state :: string

record workflow_snapshot =
  ws_run_id :: run_id
  ws_last_seq :: nat
  ws_states :: "task_id \<rightharpoonup> task_state"
  ws_results :: "task_id \<rightharpoonup> string"

record workflow_report =
  wr_status :: workflow_status
  wr_snapshot :: workflow_snapshot
  wr_failures :: "task_id \<rightharpoonup> failure_record"
  wr_unfinished :: "task_id list"
  wr_events :: "workflow_event list"
  wr_peak :: nat
  wr_budget_exhausted :: bool

section \<open>The ledger and its recorder\<close>

text \<open>
  The messages sent to the bus are kept with the ledger, since they are sent under its lock. Whether
  a receiver takes them is not the workflow's concern (\<open>let _ = bus.publish(env)\<close>).
\<close>

record ledger =
  lg_seq :: nat
  lg_states :: "task_id \<rightharpoonup> task_state"
  lg_results :: "task_id \<rightharpoonup> string"
  lg_failures :: "task_id \<rightharpoonup> failure_record"
  lg_events :: "workflow_event list"
  lg_published :: "event_envelope list"

text \<open>The executor with whether a bus is attached, and its readings of the outside.\<close>

record executor =
  ex_config :: workflow_config
  ex_bus :: bool
  ex_libs :: libs
  ex_now :: "nat \<Rightarrow> i64"
  ex_stamp :: "nat \<Rightarrow> i64"
  ex_event_id :: "nat \<Rightarrow> event_id"

definition new_executor :: "libs \<Rightarrow> (nat \<Rightarrow> i64) \<Rightarrow> (nat \<Rightarrow> i64) \<Rightarrow> (nat \<Rightarrow> event_id) \<Rightarrow> workflow_config \<Rightarrow>
    workflow_error + executor" where
  "new_executor L now stamp eid cfg =
     (if wc_max_parallel cfg = 0 then Inl (InvalidConfig ''max_parallel must be at least 1'')
      else Inr \<lparr>ex_config = cfg, ex_bus = False, ex_libs = L, ex_now = now, ex_stamp = stamp,
        ex_event_id = eid\<rparr>)"

definition with_event_bus :: "executor \<Rightarrow> executor" where
  "with_event_bus X = X\<lparr>ex_bus := True\<rparr>"

definition state_of :: "ledger \<Rightarrow> task_id \<Rightarrow> task_state" where
  "state_of l t = the (lg_states l t)"

definition event_for :: "executor \<Rightarrow> nat \<Rightarrow> task_id \<Rightarrow> task_state \<Rightarrow> string option \<Rightarrow> aegis_event option" where
  "event_for X sq t st result =
     (let run = wc_run_id (ex_config X) in
      case st of
        TsPending \<Rightarrow> None
      | TsReady \<Rightarrow> Some (WorkflowTaskReady run sq t)
      | TsRunning \<Rightarrow> Some (WorkflowTaskStarted run sq t)
      | TsCompleted \<Rightarrow> Some (WorkflowTaskCompleted run sq t (case result of Some d \<Rightarrow> d | None \<Rightarrow> []))
      | TsWaitingForApproval \<Rightarrow> Some (WorkflowTaskWaiting run sq t)
      | TsFailed f \<Rightarrow> Some (WorkflowTaskFailed run sq t f)
      | TsCancelled \<Rightarrow> Some (WorkflowTaskCancelled run sq t)
      | TsSkipped p \<Rightarrow> Some (WorkflowTaskSkipped run sq t p))"

definition publish_event :: "executor \<Rightarrow> aegis_event \<Rightarrow> nat \<Rightarrow> ledger \<Rightarrow> ledger" where
  "publish_event X e sq l =
     (if ex_bus X then
        l\<lparr>lg_published := lg_published l @
          [new_envelope (ex_event_id X sq) (ex_stamp X sq) e (Some (wc_session_id (ex_config X)))
             (Some (wc_run_id (ex_config X))) sq]\<rparr>
      else l)"

definition transition :: "executor \<Rightarrow> task_id \<Rightarrow> task_state \<Rightarrow> string option \<Rightarrow> ledger \<Rightarrow> ledger" where
  "transition X t st result l =
     (let sq = lg_seq l + 1;
          l1 = l\<lparr>lg_seq := sq\<rparr>;
          l2 = (case result of Some r \<Rightarrow> l1\<lparr>lg_results := (lg_results l1)(t \<mapsto> r)\<rparr> | None \<Rightarrow> l1);
          l3 = l2\<lparr>lg_states := (lg_states l2)(t \<mapsto> st)\<rparr>;
          l4 = l3\<lparr>lg_events := lg_events l3 @ [\<lparr>we_seq = sq, we_task = Some t, we_state = state_name st\<rparr>]\<rparr>
      in case event_for X sq t st result of Some e \<Rightarrow> publish_event X e sq l4 | None \<Rightarrow> l4)"

definition finish_run :: "executor \<Rightarrow> workflow_status \<Rightarrow> ledger \<Rightarrow> ledger" where
  "finish_run X status l =
     (let sq = lg_seq l + 1;
          l1 = l\<lparr>lg_seq := sq, lg_events := lg_events l @
            [\<lparr>we_seq = sq, we_task = None, we_state = ''finished''\<rparr>]\<rparr>
      in publish_event X (WorkflowFinished (wc_run_id (ex_config X)) sq (status_name status)) sq l1)"

definition note_failure :: "task_id \<Rightarrow> failure_record \<Rightarrow> ledger \<Rightarrow> ledger" where
  "note_failure t f l = l\<lparr>lg_failures := (lg_failures l)(t \<mapsto> f)\<rparr>"

definition scrub_message :: "string \<Rightarrow> string" where
  "scrub_message m = truncate_bytes m MAX_CAUSE_MESSAGE_BYTES"

definition wf_failure ::
  "executor \<Rightarrow> ledger \<Rightarrow> task_id \<Rightarrow> failure_class \<Rightarrow> effect_certainty \<Rightarrow> string \<Rightarrow> failure_record" where
  "wf_failure X l t cls certainty message =
     (let sq = lg_seq l + 1; now = ex_now X sq
      in push_cause (ex_libs X) ''workflow'' (scrub_message message) None
        (new_failure_record sq (wc_run_id (ex_config X)) 0 t None ''workflow_task'' 1 cls certainty now now))"

section \<open>The passes over the tasks\<close>

definition node_of :: "task_node list \<Rightarrow> task_id \<Rightarrow> task_node" where
  "node_of ts t = the (map_of (rev (map (\<lambda>n. (tn_id n, n)) ts)) t)"

fun ended_badly :: "task_state \<Rightarrow> bool" where
  "ended_badly (TsFailed _) = True"
| "ended_badly TsCancelled = True"
| "ended_badly (TsSkipped _) = True"
| "ended_badly _ = False"

text \<open>\<open>cancel_open\<close>: one task, then the loop over all of them.\<close>

definition cancel_task :: "executor \<Rightarrow> task_node list \<Rightarrow> task_id \<Rightarrow> ledger \<Rightarrow> ledger" where
  "cancel_task X ts t l =
     (let record = (\<lambda>message certainty.
        transition X t TsCancelled None
          (note_failure t (wf_failure X l t FcCancelled certainty message) l))
      in case state_of l t of
           TsPending \<Rightarrow> record ''workflow cancelled before start'' NoEffect
         | TsReady \<Rightarrow> record ''workflow cancelled before start'' NoEffect
         | TsWaitingForApproval \<Rightarrow>
             record ''workflow cancelled while waiting for approval'' (tn_interrupt (node_of ts t))
         | _ \<Rightarrow> l)"

definition cancel_open :: "executor \<Rightarrow> task_node list \<Rightarrow> ledger \<Rightarrow> ledger" where
  "cancel_open X ts l = fold (cancel_task X ts) (task_ids ts) l"

text \<open>\<open>propagate\<close>: one task, one pass over the tasks with its \<open>changed\<close> flag, and the loop.\<close>

definition propagate_task :: "executor \<Rightarrow> task_node list \<Rightarrow> task_id \<Rightarrow> ledger \<times> bool \<Rightarrow> ledger \<times> bool" where
  "propagate_task X ts t lc =
     (let (l, changed) = lc in
      if state_of l t \<noteq> TsPending then (l, changed)
      else
        (let deps = tn_deps (node_of ts t) in
         case find (\<lambda>d. ended_badly (state_of l d)) deps of
           Some bad \<Rightarrow>
             (transition X t (TsSkipped bad) None
                (note_failure t (wf_failure X l t FcRejected NoEffect (''prerequisite failed: '' @ bad)) l),
              True)
         | None \<Rightarrow>
             if list_all (\<lambda>d. state_of l d = TsCompleted) deps
             then (transition X t TsReady None l, True)
             else (l, changed)))"

definition propagate_pass :: "executor \<Rightarrow> task_node list \<Rightarrow> ledger \<Rightarrow> ledger \<times> bool" where
  "propagate_pass X ts l = fold (propagate_task X ts) (task_ids ts) (l, False)"

lemma lg_transition [simp]:
  "lg_seq (transition X t st result l) = Suc (lg_seq l)"
  "lg_states (transition X t st result l) = (lg_states l)(t \<mapsto> st)"
  "lg_failures (transition X t st result l) = lg_failures l"
  "lg_results (transition X t st result l) =
     (case result of Some r \<Rightarrow> (lg_results l)(t \<mapsto> r) | None \<Rightarrow> lg_results l)"
  "lg_events (transition X t st result l) =
     lg_events l @ [\<lparr>we_seq = Suc (lg_seq l), we_task = Some t, we_state = state_name st\<rparr>]"
  by (simp_all add: transition_def publish_event_def Let_def split: option.splits)

lemma lg_note_failure [simp]:
  "lg_seq (note_failure t f l) = lg_seq l"
  "lg_states (note_failure t f l) = lg_states l"
  "lg_failures (note_failure t f l) = (lg_failures l)(t \<mapsto> f)"
  "lg_results (note_failure t f l) = lg_results l"
  "lg_events (note_failure t f l) = lg_events l"
  "lg_published (note_failure t f l) = lg_published l"
  by (simp_all add: note_failure_def)

lemma state_of_transition [simp]:
  "state_of (transition X t st result l) u = (if u = t then st else state_of l u)"
  by (simp add: state_of_def)

lemma state_of_note_failure [simp]: "state_of (note_failure t f l) u = state_of l u"
  by (simp add: state_of_def)

text \<open>Each pass that changes something leaves fewer tasks pending, so the loop ends.\<close>

definition pending_count :: "task_node list \<Rightarrow> ledger \<Rightarrow> nat" where
  "pending_count ts l = length (filter (\<lambda>t. state_of l t = TsPending) (task_ids ts))"

lemma pending_count_transition:
  assumes "st \<noteq> TsPending"
  shows "pending_count ts (transition X t st r l) \<le> pending_count ts l"
    and "t \<in> set (task_ids ts) \<Longrightarrow> state_of l t = TsPending \<Longrightarrow>
      pending_count ts (transition X t st r l) < pending_count ts l"
proof -
  have len: "length (filter (\<lambda>u. u \<noteq> t \<and> P u) xs) \<le> length (filter P xs)" for P xs
    by (induction xs) auto
  have less: "t \<in> set xs \<Longrightarrow> P t \<Longrightarrow> length (filter (\<lambda>u. u \<noteq> t \<and> P u) xs) < length (filter P xs)" for P xs
  proof (induction xs)
    case (Cons x xs)
    with len [of P xs] show ?case by auto
  qed simp
  have eq: "filter (\<lambda>u. state_of (transition X t st r l) u = TsPending) (task_ids ts) =
      filter (\<lambda>u. u \<noteq> t \<and> state_of l u = TsPending) (task_ids ts)"
    using assms by (intro filter_cong) auto
  show "pending_count ts (transition X t st r l) \<le> pending_count ts l"
    unfolding pending_count_def eq by (rule len)
  show "t \<in> set (task_ids ts) \<Longrightarrow> state_of l t = TsPending \<Longrightarrow>
      pending_count ts (transition X t st r l) < pending_count ts l"
    unfolding pending_count_def eq by (rule less)
qed

lemma pending_count_note_failure [simp]: "pending_count ts (note_failure t f l) = pending_count ts l"
  by (simp add: pending_count_def)

lemma pending_count_noted:
  assumes "st \<noteq> TsPending" "t \<in> set (task_ids ts)" "state_of l t = TsPending"
  shows "pending_count ts (transition X t st r (note_failure u f l)) < pending_count ts l"
  using pending_count_transition(2) [of st t ts "note_failure u f l" X r] assms by simp

lemma propagate_task_count:
  assumes "t \<in> set (task_ids ts)"
  shows "pending_count ts (fst (propagate_task X ts t (l, c))) \<le> pending_count ts l
    \<and> (snd (propagate_task X ts t (l, c)) \<longrightarrow> c \<or>
       pending_count ts (fst (propagate_task X ts t (l, c))) < pending_count ts l)"
  using assms
  by (auto simp: propagate_task_def Let_def less_imp_le pending_count_noted
      pending_count_transition(2) split: option.splits)

lemma propagate_fold_count:
  "set us \<subseteq> set (task_ids ts) \<Longrightarrow>
   pending_count ts (fst (fold (propagate_task X ts) us (l, c))) \<le> pending_count ts l
   \<and> (snd (fold (propagate_task X ts) us (l, c)) \<longrightarrow> c \<or>
      pending_count ts (fst (fold (propagate_task X ts) us (l, c))) < pending_count ts l)"
proof (induction us arbitrary: l c)
  case (Cons u us)
  obtain l' c' where s: "propagate_task X ts u (l, c) = (l', c')" by force
  from Cons.prems propagate_task_count [of u ts X l c] s Cons.IH [of l' c'] show ?case by auto
qed simp

lemma propagate_pass_decreases:
  "propagate_pass X ts l = (l', True) \<Longrightarrow> pending_count ts l' < pending_count ts l"
  using propagate_fold_count [of "task_ids ts" ts X l False] by (simp add: propagate_pass_def)

function propagate :: "executor \<Rightarrow> task_node list \<Rightarrow> ledger \<Rightarrow> ledger" where
  "propagate X ts l =
     (let (l', changed) = propagate_pass X ts l in if changed then propagate X ts l' else l')"
  by pat_completeness auto
termination
  by (relation "measure (\<lambda>(X, ts, l). pending_count ts l)")
    (auto dest!: propagate_pass_decreases sym [of "(_, True)"])

declare propagate.simps [simp del]

text \<open>\<open>settle\<close>, and the branch of \<open>run\<close> for a body that panicked (\<open>None\<close>).\<close>

definition settle :: "executor \<Rightarrow> task_id \<Rightarrow> finish \<Rightarrow> effect_certainty \<Rightarrow> ledger \<Rightarrow> ledger" where
  "settle X t fin interrupt l =
     (let cancelled =
            transition X t TsCancelled None
              (note_failure t (wf_failure X l t FcCancelled interrupt ''task cancelled while running'') l)
      in case fin of
           FinOutcome (OutCompleted v) \<Rightarrow>
             transition X t TsCompleted (Some (payload_digest (ex_libs X) v)) l
         | FinOutcome (OutFailed fault) \<Rightarrow>
             (let f = wf_failure X l t (tf_class fault) (tf_certainty fault) (tf_message fault)
              in transition X t (TsFailed f) None (note_failure t f l))
         | FinOutcome OutApprovalPending \<Rightarrow> transition X t TsWaitingForApproval None l
         | FinOutcome OutCancelled \<Rightarrow> cancelled
         | FinInterrupted \<Rightarrow> cancelled
         | FinTimedOut \<Rightarrow>
             (let f = wf_failure X l t FcTimeout interrupt ''per-task timeout elapsed''
              in transition X t (TsFailed f) None (note_failure t f l)))"

definition settle_joined :: "executor \<Rightarrow> task_node list \<Rightarrow> task_id \<Rightarrow> finish option \<Rightarrow> ledger \<Rightarrow> ledger" where
  "settle_joined X ts t result l =
     (case result of
        Some fin \<Rightarrow> settle X t fin (tn_interrupt (node_of ts t)) l
      | None \<Rightarrow>
          (let f = wf_failure X l t FcFailed EcUncertain ''task body panicked''
           in transition X t (TsFailed f) None (note_failure t f l)))"

text \<open>\<open>report\<close>. The map of states has the tasks of the specification as its keys.\<close>

definition report_status :: "task_node list \<Rightarrow> bool \<Rightarrow> ledger \<Rightarrow> workflow_status" where
  "report_status ts cancelled l =
     (if cancelled then WsCancelled
      else if list_ex (\<lambda>t. state_of l t = TsWaitingForApproval) (task_ids ts) then WsWaitingForApproval
      else if list_all (\<lambda>t. state_of l t = TsCompleted) (task_ids ts) then WsCompleted
      else WsFailed)"

definition report :: "executor \<Rightarrow> task_node list \<Rightarrow> nat \<Rightarrow> bool \<Rightarrow> bool \<Rightarrow> ledger \<Rightarrow> workflow_report" where
  "report X ts peak budget_exhausted cancelled l =
     (let unfinished = filter (\<lambda>t. \<not> is_terminal (state_of l t)) (task_ids ts);
          status = report_status ts cancelled l;
          l' = finish_run X status l
      in \<lparr>wr_status = status,
          wr_snapshot = \<lparr>ws_run_id = wc_run_id (ex_config X), ws_last_seq = lg_seq l',
            ws_states = lg_states l', ws_results = lg_results l'\<rparr>,
          wr_failures = lg_failures l', wr_unfinished = unfinished, wr_events = lg_events l',
          wr_peak = peak, wr_budget_exhausted = budget_exhausted\<rparr>)"

section \<open>The executor\<close>

text \<open>
  Where the coordinator is: at the top of \<open>'outer\<close>; in the scan over the tasks, with those still to
  look at; holding a permit for a task it is about to start; behind the scan; in the \<open>select!\<close>;
  or done, with the report.
\<close>

datatype pc = AtTop | Scan "task_id list" | Starting task_id "task_id list" | AfterScan | Selecting
  | Reported workflow_report

text \<open>
  The coordinator's variables, then what it shares: the bodies that execute (each holds a permit),
  the bodies that ended and are not joined yet (their permit is released), the caller's token, and
  whether the deadline has passed. \<open>None\<close> as a result is a panic.
\<close>

record exec =
  xs_pc :: pc
  xs_ledger :: ledger
  xs_live :: nat
  xs_peak :: nat
  xs_run_cancel :: bool
  xs_cancel_seen :: bool
  xs_budget_exhausted :: bool
  xs_bodies :: "task_id list"
  xs_ended :: "(task_id \<times> finish option) list"
  xs_caller_cancel :: bool
  xs_expired :: bool

definition start_ledger :: "task_node list \<Rightarrow> ledger" where
  "start_ledger ts = \<lparr>lg_seq = 0, lg_states = map_of (map (\<lambda>t. (t, TsPending)) (task_ids ts)),
     lg_results = Map.empty, lg_failures = Map.empty, lg_events = [], lg_published = []\<rparr>"

definition start_exec :: "task_node list \<Rightarrow> bool \<Rightarrow> bool \<Rightarrow> exec" where
  "start_exec ts caller_cancel expired =
     \<lparr>xs_pc = AtTop, xs_ledger = start_ledger ts, xs_live = 0, xs_peak = 0, xs_run_cancel = False,
      xs_cancel_seen = False, xs_budget_exhausted = False, xs_bodies = [], xs_ended = [],
      xs_caller_cancel = caller_cancel, xs_expired = expired\<rparr>"

text \<open>\<open>permits.available_permits()\<close>; the coordinator's own permit counts while it starts a task.\<close>

definition permits_used :: "exec \<Rightarrow> nat" where
  "permits_used s = length (xs_bodies s) + (case xs_pc s of Starting _ _ \<Rightarrow> 1 | _ \<Rightarrow> 0)"

definition available_permits :: "executor \<Rightarrow> exec \<Rightarrow> nat" where
  "available_permits X s = wc_max_parallel (ex_config X) - permits_used s"

text \<open>The top of the loop: the deadline, the caller's token, \<open>cancel_open\<close> once, \<open>propagate\<close>.\<close>

definition loop_top :: "executor \<Rightarrow> task_node list \<Rightarrow> exec \<Rightarrow> exec" where
  "loop_top X ts s =
     (let s1 = (if \<not> xs_budget_exhausted s \<and> xs_expired s
                then s\<lparr>xs_budget_exhausted := True, xs_run_cancel := True\<rparr> else s);
          s2 = (if xs_caller_cancel s1 then s1\<lparr>xs_run_cancel := True\<rparr> else s1);
          s3 = (if \<not> xs_cancel_seen s2 \<and> xs_run_cancel s2
                then s2\<lparr>xs_cancel_seen := True, xs_ledger := cancel_open X ts (xs_ledger s2)\<rparr> else s2)
      in if \<not> xs_cancel_seen s3
         then s3\<lparr>xs_ledger := propagate X ts (xs_ledger s3), xs_pc := Scan (task_ids ts)\<rparr>
         else s3\<lparr>xs_pc := AfterScan\<rparr>)"

text \<open>One turn of the scan up to the acquisition of a permit.\<close>

definition scan_one :: "executor \<Rightarrow> task_id \<Rightarrow> task_id list \<Rightarrow> exec \<Rightarrow> exec" where
  "scan_one X t rest s =
     (if state_of (xs_ledger s) t \<noteq> TsReady then s\<lparr>xs_pc := Scan rest\<rparr>
      else if xs_caller_cancel s \<or> xs_run_cancel s \<or> xs_expired s then s\<lparr>xs_pc := AtTop\<rparr>
      else if available_permits X s = 0 then s\<lparr>xs_pc := AfterScan\<rparr>
      else s\<lparr>xs_pc := Starting t rest\<rparr>)"

text \<open>The rest of the turn: record the start, count it, spawn the body with the permit.\<close>

definition start_task :: "executor \<Rightarrow> task_id \<Rightarrow> task_id list \<Rightarrow> exec \<Rightarrow> exec" where
  "start_task X t rest s =
     s\<lparr>xs_ledger := transition X t TsRunning None (xs_ledger s),
       xs_live := xs_live s + 1,
       xs_peak := max (xs_peak s) (wc_max_parallel (ex_config X) - available_permits X s),
       xs_bodies := xs_bodies s @ [t],
       xs_pc := Scan rest\<rparr>"

text \<open>Behind the loop.\<close>

definition wind_up :: "executor \<Rightarrow> task_node list \<Rightarrow> exec \<Rightarrow> exec" where
  "wind_up X ts s =
     (let l = (if xs_cancel_seen s then cancel_open X ts (xs_ledger s) else xs_ledger s)
      in s\<lparr>xs_ledger := l,
           xs_pc := Reported (report X ts (xs_peak s) (xs_budget_exhausted s) (xs_cancel_seen s) l)\<rparr>)"

definition after_scan :: "executor \<Rightarrow> task_node list \<Rightarrow> exec \<Rightarrow> exec" where
  "after_scan X ts s = (if xs_live s = 0 then wind_up X ts s else s\<lparr>xs_pc := Selecting\<rparr>)"

text \<open>The branches of the \<open>select!\<close>, in their order.\<close>

definition cancel_branch :: "exec \<Rightarrow> bool" where
  "cancel_branch s \<longleftrightarrow> \<not> xs_cancel_seen s \<and> xs_caller_cancel s"

definition deadline_branch :: "exec \<Rightarrow> bool" where
  "deadline_branch s \<longleftrightarrow> \<not> xs_budget_exhausted s \<and> xs_expired s"

definition join_task :: "executor \<Rightarrow> task_node list \<Rightarrow> nat \<Rightarrow> exec \<Rightarrow> exec" where
  "join_task X ts i s =
     (let (t, result) = xs_ended s ! i
      in s\<lparr>xs_live := xs_live s - 1,
           xs_ended := take i (xs_ended s) @ drop (Suc i) (xs_ended s),
           xs_ledger := settle_joined X ts t result (xs_ledger s),
           xs_pc := AtTop\<rparr>)"

text \<open>
  How a body may end: interrupted only once the run's token is tripped, timed out only under a
  per-task timeout, by any outcome, or by a panic.
\<close>

definition may_end :: "executor \<Rightarrow> exec \<Rightarrow> finish option \<Rightarrow> bool" where
  "may_end X s result \<longleftrightarrow>
     (result = Some FinInterrupted \<longrightarrow> xs_run_cancel s) \<and>
     (result = Some FinTimedOut \<longrightarrow> wc_per_task_timeout (ex_config X) \<noteq> None)"

definition end_body :: "nat \<Rightarrow> finish option \<Rightarrow> exec \<Rightarrow> exec" where
  "end_body i result s =
     s\<lparr>xs_bodies := take i (xs_bodies s) @ drop (Suc i) (xs_bodies s),
       xs_ended := xs_ended s @ [(xs_bodies s ! i, result)]\<rparr>"

text \<open>
  The steps. A body's context holds a clone of the run's token, which may outlive the body: from the first start on
  (\<open>xs_peak\<close> is not zero then) the token may be tripped at any moment.
\<close>

inductive exec_step :: "executor \<Rightarrow> task_node list \<Rightarrow> exec \<Rightarrow> exec \<Rightarrow> bool"
  for X :: executor and ts :: "task_node list" where
  step_top: "xs_pc s = AtTop \<Longrightarrow> exec_step X ts s (loop_top X ts s)"
| step_scan: "xs_pc s = Scan (t # rest) \<Longrightarrow> exec_step X ts s (scan_one X t rest s)"
| step_scan_end: "xs_pc s = Scan [] \<Longrightarrow> exec_step X ts s (s\<lparr>xs_pc := AfterScan\<rparr>)"
| step_start: "xs_pc s = Starting t rest \<Longrightarrow> exec_step X ts s (start_task X t rest s)"
| step_after: "xs_pc s = AfterScan \<Longrightarrow> exec_step X ts s (after_scan X ts s)"
| step_select_cancel:
    "xs_pc s = Selecting \<Longrightarrow> cancel_branch s \<Longrightarrow>
     exec_step X ts s (s\<lparr>xs_run_cancel := True, xs_pc := AtTop\<rparr>)"
| step_select_deadline:
    "xs_pc s = Selecting \<Longrightarrow> \<not> cancel_branch s \<Longrightarrow> deadline_branch s \<Longrightarrow>
     exec_step X ts s (s\<lparr>xs_budget_exhausted := True, xs_run_cancel := True, xs_pc := AtTop\<rparr>)"
| step_select_join:
    "xs_pc s = Selecting \<Longrightarrow> \<not> cancel_branch s \<Longrightarrow> \<not> deadline_branch s \<Longrightarrow> i < length (xs_ended s) \<Longrightarrow>
     exec_step X ts s (join_task X ts i s)"
| step_select_empty:
    "xs_pc s = Selecting \<Longrightarrow> \<not> cancel_branch s \<Longrightarrow> \<not> deadline_branch s \<Longrightarrow>
     xs_bodies s = [] \<Longrightarrow> xs_ended s = [] \<Longrightarrow> exec_step X ts s (wind_up X ts s)"
| step_caller_cancels:
    "\<not> xs_caller_cancel s \<Longrightarrow> exec_step X ts s (s\<lparr>xs_caller_cancel := True\<rparr>)"
| step_deadline_passes:
    "wc_total_budget (ex_config X) \<noteq> None \<Longrightarrow> \<not> xs_expired s \<Longrightarrow> exec_step X ts s (s\<lparr>xs_expired := True\<rparr>)"
| step_body_cancels:
    "0 < xs_peak s \<Longrightarrow> \<not> xs_run_cancel s \<Longrightarrow> exec_step X ts s (s\<lparr>xs_run_cancel := True\<rparr>)"
| step_body_ends:
    "i < length (xs_bodies s) \<Longrightarrow> may_end X s result \<Longrightarrow> exec_step X ts s (end_body i result s)"

text \<open>
  A run begins with \<open>Semaphore::new\<close>, which panics above \<open>tokio\<close>'s \<open>Semaphore::MAX_PERMITS\<close>, \<open>usize::MAX >> 3\<close>; \<open>new\<close> only refuses
  zero. The deadline is computed then, too, which panics where the clock cannot represent it: the runs are those
  without that panic.
\<close>

definition MAX_PERMITS :: nat where
  "MAX_PERMITS = 2 ^ 61 - 1"

inductive exec_start :: "executor \<Rightarrow> task_node list \<Rightarrow> exec \<Rightarrow> bool"
  for X :: executor and ts :: "task_node list" where
  "wc_max_parallel (ex_config X) \<le> MAX_PERMITS \<Longrightarrow> (e \<Longrightarrow> wc_total_budget (ex_config X) \<noteq> None) \<Longrightarrow>
   exec_start X ts (start_exec ts c e)"

text \<open>What a run of the executor may show.\<close>

definition exec_reaches :: "executor \<Rightarrow> task_node list \<Rightarrow> exec \<Rightarrow> bool" where
  "exec_reaches X ts s \<longleftrightarrow> (\<exists>s0. exec_start X ts s0 \<and> (exec_step X ts)\<^sup>*\<^sup>* s0 s)"

inductive_simps exec_start_iff: "exec_start X ts s"

end
