(* ===== verification/DagLedger.thy ===== *)
theory DagLedger
  imports DagExec
begin

text \<open>
  The contract of the ledger: a task moves only along the edges of its lifecycle, with the result or
  the failure record that belongs to the move (relation \<open>move\<close>). The invariant of every ledger
  reached by moves is proved once, over \<open>move\<close>; each pass of the executor (\<open>propagate\<close>,
  \<open>cancel_open\<close>, \<open>settle\<close>, a start) is then shown to be a sequence of moves.
\<close>

section \<open>The lifecycle\<close>

definition wf_spec :: "task_node list \<Rightarrow> bool" where
  "wf_spec ts \<longleftrightarrow> wf_tasks ts \<and> preds_known ts \<and> acyclic (dep_rel ts)"

fun legal :: "task_node \<Rightarrow> ledger \<Rightarrow> task_state \<Rightarrow> task_state \<Rightarrow> bool" where
  "legal n l TsPending TsReady = (\<forall>d\<in>set (tn_deps n). state_of l d = TsCompleted)"
| "legal n l TsPending (TsSkipped d) = (d \<in> set (tn_deps n) \<and> ended_badly (state_of l d))"
| "legal n l TsPending TsCancelled = True"
| "legal n l TsReady TsRunning = True"
| "legal n l TsReady TsCancelled = True"
| "legal n l TsRunning TsCompleted = True"
| "legal n l TsRunning (TsFailed f) = True"
| "legal n l TsRunning TsWaitingForApproval = True"
| "legal n l TsRunning TsCancelled = True"
| "legal n l TsWaitingForApproval TsCancelled = True"
| "legal n l _ _ = False"

text \<open>The result and the failure record that go with a new state.\<close>

fun carries :: "task_state \<Rightarrow> string option \<Rightarrow> failure_record option \<Rightarrow> bool" where
  "carries TsCompleted r f = (r \<noteq> None \<and> f = None)"
| "carries (TsFailed g) r f = (r = None \<and> f = Some g)"
| "carries TsCancelled r f = (r = None \<and> (\<exists>g. f = Some g \<and> fr_class g = FcCancelled))"
| "carries (TsSkipped d) r f =
     (r = None \<and> (\<exists>g. f = Some g \<and> fr_class g = FcRejected \<and> fr_certainty g = NoEffect))"
| "carries _ r f = (r = None \<and> f = None)"

definition recorded ::
  "executor \<Rightarrow> task_id \<Rightarrow> task_state \<Rightarrow> string option \<Rightarrow> failure_record option \<Rightarrow> ledger \<Rightarrow> ledger" where
  "recorded X t st r f l =
     transition X t st r (case f of Some g \<Rightarrow> note_failure t g l | None \<Rightarrow> l)"

inductive move :: "executor \<Rightarrow> task_node list \<Rightarrow> ledger \<Rightarrow> ledger \<Rightarrow> bool"
  for X :: executor and ts :: "task_node list" where
  moveI: "n \<in> set ts \<Longrightarrow> legal n l (state_of l (tn_id n)) st \<Longrightarrow> carries st r f \<Longrightarrow>
    move X ts l (recorded X (tn_id n) st r f l)"

lemma recorded_simps [simp]:
  "lg_seq (recorded X t st r f l) = Suc (lg_seq l)"
  "lg_states (recorded X t st r f l) = (lg_states l)(t \<mapsto> st)"
  "lg_events (recorded X t st r f l) =
     lg_events l @ [\<lparr>we_seq = Suc (lg_seq l), we_task = Some t, we_state = state_name st\<rparr>]"
  "state_of (recorded X t st r f l) u = (if u = t then st else state_of l u)"
  by (simp_all add: recorded_def split: option.splits)

lemma recorded_maps:
  "lg_results (recorded X t st r f l) = (case r of Some d \<Rightarrow> (lg_results l)(t \<mapsto> d) | None \<Rightarrow> lg_results l)"
  "lg_failures (recorded X t st r f l) = (case f of Some g \<Rightarrow> (lg_failures l)(t \<mapsto> g) | None \<Rightarrow> lg_failures l)"
  by (simp_all add: recorded_def split: option.splits)

lemma wf_tasks_same_id:
  assumes "wf_tasks ts" "m \<in> set ts" "n \<in> set ts" "tn_id m = tn_id n"
  shows "m = n"
  using assms by (auto simp: wf_tasks_def distinct_map dest: inj_onD)

lemma node_of_mem:
  assumes "wf_tasks ts" "n \<in> set ts"
  shows "node_of ts (tn_id n) = n"
proof -
  have "map_of (rev (map (\<lambda>n. (tn_id n, n)) ts)) (tn_id n) = Some n"
  proof (rule map_of_is_SomeI)
    show "distinct (map fst (rev (map (\<lambda>n. (tn_id n, n)) ts)))"
      using assms(1) by (simp add: rev_map [symmetric] comp_def wf_tasks_def)
    show "(tn_id n, n) \<in> set (rev (map (\<lambda>n. (tn_id n, n)) ts))" using assms(2) by auto
  qed
  then show ?thesis by (simp add: node_of_def)
qed

lemma task_idsE:
  assumes "t \<in> set (task_ids ts)" "wf_tasks ts"
  obtains n where "n \<in> set ts" "tn_id n = t" "node_of ts t = n"
  using assms node_of_mem by (auto simp: task_ids_def)

section \<open>The invariant\<close>

text \<open>Replaying the events gives the name of each task's state.\<close>

definition last_state :: "workflow_event list \<Rightarrow> task_id \<Rightarrow> string" where
  "last_state es t =
     (case find (\<lambda>e. we_task e = Some t) (rev es) of Some e \<Rightarrow> we_state e | None \<Rightarrow> ''pending'')"

definition has_event :: "workflow_event list \<Rightarrow> task_id \<Rightarrow> string \<Rightarrow> bool" where
  "has_event es t nm \<longleftrightarrow> (\<exists>e\<in>set es. we_task e = Some t \<and> we_state e = nm)"

definition starts_of :: "workflow_event list \<Rightarrow> task_id \<Rightarrow> nat" where
  "starts_of es t = length (filter (\<lambda>e. we_task e = Some t \<and> we_state e = ''running'') es)"

text \<open>In the log, a task starts behind the completion of each of its predecessors.\<close>

definition deps_first :: "task_node list \<Rightarrow> workflow_event list \<Rightarrow> bool" where
  "deps_first ts es \<longleftrightarrow> (\<forall>k<length es. \<forall>n\<in>set ts.
     we_task (es ! k) = Some (tn_id n) \<and> we_state (es ! k) = ''running'' \<longrightarrow>
     (\<forall>d\<in>set (tn_deps n). has_event (take k es) d ''completed''))"

fun past_ready :: "task_state \<Rightarrow> bool" where
  "past_ready TsReady = True"
| "past_ready TsRunning = True"
| "past_ready TsWaitingForApproval = True"
| "past_ready TsCompleted = True"
| "past_ready (TsFailed _) = True"
| "past_ready _ = False"

fun not_started :: "task_state \<Rightarrow> bool" where
  "not_started TsPending = True"
| "not_started TsReady = True"
| "not_started (TsSkipped _) = True"
| "not_started _ = False"

definition inv_log :: "task_node list \<Rightarrow> ledger \<Rightarrow> bool" where
  "inv_log ts l \<longleftrightarrow> map we_seq (lg_events l) = [1..<Suc (lg_seq l)] \<and>
     (\<forall>t. last_state (lg_events l) t = (if t \<in> set (task_ids ts) then state_name (state_of l t) else ''pending''))"

definition deps_ok :: "ledger \<Rightarrow> task_node \<Rightarrow> task_state \<Rightarrow> bool" where
  "deps_ok l n st \<longleftrightarrow>
     (past_ready st \<longrightarrow> (\<forall>d\<in>set (tn_deps n). state_of l d = TsCompleted)) \<and>
     (\<forall>d. st = TsSkipped d \<longrightarrow> d \<in> set (tn_deps n) \<and> ended_badly (state_of l d))"

definition inv_deps :: "task_node list \<Rightarrow> ledger \<Rightarrow> bool" where
  "inv_deps ts l \<longleftrightarrow> dom (lg_states l) = set (task_ids ts) \<and>
     (\<forall>n\<in>set ts. deps_ok l n (state_of l (tn_id n)))"

text \<open>The failure record kept for a task, by its state.\<close>

fun failure_matches :: "task_state option \<Rightarrow> failure_record option \<Rightarrow> bool" where
  "failure_matches (Some (TsFailed g)) f = (f = Some g)"
| "failure_matches (Some TsCancelled) f = (\<exists>g. f = Some g \<and> fr_class g = FcCancelled)"
| "failure_matches (Some (TsSkipped d)) f =
     (\<exists>g. f = Some g \<and> fr_class g = FcRejected \<and> fr_certainty g = NoEffect)"
| "failure_matches _ f = (f = None)"

definition inv_maps :: "ledger \<Rightarrow> bool" where
  "inv_maps l \<longleftrightarrow> (\<forall>t. (lg_results l t \<noteq> None \<longleftrightarrow> lg_states l t = Some TsCompleted) \<and>
     failure_matches (lg_states l t) (lg_failures l t))"

definition inv_starts :: "task_node list \<Rightarrow> ledger \<Rightarrow> bool" where
  "inv_starts ts l \<longleftrightarrow> deps_first ts (lg_events l) \<and>
     (\<forall>t. state_of l t = TsCompleted \<and> t \<in> set (task_ids ts) \<longrightarrow> has_event (lg_events l) t ''completed'') \<and>
     (\<forall>t. starts_of (lg_events l) t \<le> 1) \<and>
     (\<forall>t\<in>set (task_ids ts). not_started (state_of l t) \<longrightarrow> starts_of (lg_events l) t = 0)"

definition inv_bus :: "executor \<Rightarrow> ledger \<Rightarrow> bool" where
  "inv_bus X l \<longleftrightarrow> (if ex_bus X then map ev_sequence (lg_published l) = [1..<Suc (lg_seq l)]
     else lg_published l = [])"

definition ledger_inv :: "executor \<Rightarrow> task_node list \<Rightarrow> ledger \<Rightarrow> bool" where
  "ledger_inv X ts l \<longleftrightarrow>
     wf_spec ts \<and> inv_log ts l \<and> inv_deps ts l \<and> inv_maps l \<and> inv_starts ts l \<and> inv_bus X l"

lemma last_state_snoc:
  "last_state (es @ [e]) t = (if we_task e = Some t then we_state e else last_state es t)"
  by (simp add: last_state_def)

lemma has_event_snoc:
  "has_event (es @ [e]) t nm \<longleftrightarrow> we_task e = Some t \<and> we_state e = nm \<or> has_event es t nm"
  by (auto simp: has_event_def)

lemma starts_of_snoc:
  "starts_of (es @ [e]) t =
     starts_of es t + (if we_task e = Some t \<and> we_state e = ''running'' then 1 else 0)"
  by (simp add: starts_of_def)

lemma deps_first_snoc:
  "deps_first ts (es @ [e]) \<longleftrightarrow> deps_first ts es \<and>
     (\<forall>n\<in>set ts. we_task e = Some (tn_id n) \<and> we_state e = ''running'' \<longrightarrow>
        (\<forall>d\<in>set (tn_deps n). has_event es d ''completed''))"
  by (auto simp: deps_first_def nth_append less_Suc_eq)

lemma state_name_running [simp]: "state_name st = ''running'' \<longleftrightarrow> st = TsRunning"
  by (cases st) simp_all

lemma state_name_completed [simp]: "state_name st = ''completed'' \<longleftrightarrow> st = TsCompleted"
  by (cases st) simp_all

lemma legal_cases:
  "legal n l a b \<Longrightarrow>
     a = TsPending \<and> b = TsReady \<and> (\<forall>d\<in>set (tn_deps n). state_of l d = TsCompleted) \<or>
     a = TsPending \<and> (\<exists>d. b = TsSkipped d \<and> d \<in> set (tn_deps n) \<and> ended_badly (state_of l d)) \<or>
     a \<in> {TsPending, TsReady, TsWaitingForApproval, TsRunning} \<and> b = TsCancelled \<or>
     a = TsReady \<and> b = TsRunning \<or>
     a = TsRunning \<and> (b = TsCompleted \<or> b = TsWaitingForApproval \<or> (\<exists>f. b = TsFailed f))"
  by (cases "(n, l, a, b)" rule: legal.cases) auto

lemma legal_not_terminal: "legal n l a b \<Longrightarrow> \<not> is_terminal a \<and> a \<noteq> b \<and> b \<noteq> TsPending"
  by (auto dest!: legal_cases)

subsection \<open>Every move keeps it\<close>

lemma kept_log:
  assumes n: "n \<in> set ts" and legal: "legal n l (state_of l (tn_id n)) st" and carr: "carries st r f"
  shows "inv_log ts l \<Longrightarrow> inv_log ts (recorded X (tn_id n) st r f l)"
  using n by (auto simp: inv_log_def last_state_snoc task_ids_def)

lemma kept_bus:
  assumes n: "n \<in> set ts" and legal: "legal n l (state_of l (tn_id n)) st" and carr: "carries st r f"
  shows "inv_bus X l \<Longrightarrow> inv_bus X (recorded X (tn_id n) st r f l)"
proof -
  have "st \<noteq> TsPending" using legal legal_not_terminal by blast
  then obtain e where "event_for X (Suc (lg_seq l)) (tn_id n) st r = Some e"
    by (cases st) (auto simp: event_for_def)
  then show "inv_bus X l \<Longrightarrow> inv_bus X (recorded X (tn_id n) st r f l)"
    by (auto simp: inv_bus_def recorded_def transition_def publish_event_def new_envelope_def Let_def
        split: option.splits)
qed

lemma carries_matches:
  "carries st r f \<Longrightarrow> failure_matches (Some st) f \<and> (r \<noteq> None \<longleftrightarrow> st = TsCompleted)"
  by (cases st) auto

lemma open_has_no_maps:
  "inv_maps l \<Longrightarrow> lg_states l t = Some a \<Longrightarrow> \<not> is_terminal a \<Longrightarrow>
   lg_results l t = None \<and> lg_failures l t = None"
  unfolding inv_maps_def by (drule spec [of _ t]) (cases a; auto)

lemma kept_maps:
  assumes n: "n \<in> set ts" and legal: "legal n l (state_of l (tn_id n)) st" and carr: "carries st r f"
  assumes inv: "inv_maps l" and dom: "tn_id n \<in> dom (lg_states l)"
  shows "inv_maps (recorded X (tn_id n) st r f l)"
  unfolding inv_maps_def
proof
  fix t
  obtain a where a: "lg_states l (tn_id n) = Some a" using dom by auto
  have "\<not> is_terminal a" using legal legal_not_terminal a by (auto simp: state_of_def)
  note free = open_has_no_maps [OF inv a this]
  show "(lg_results (recorded X (tn_id n) st r f l) t \<noteq> None \<longleftrightarrow>
        lg_states (recorded X (tn_id n) st r f l) t = Some TsCompleted) \<and>
      failure_matches (lg_states (recorded X (tn_id n) st r f l) t) (lg_failures (recorded X (tn_id n) st r f l) t)"
  proof (cases "t = tn_id n")
    case True
    with carries_matches [OF carr] free show ?thesis
      by (cases r; cases f) (auto simp: recorded_maps)
  next
    case False
    have "lg_results (recorded X (tn_id n) st r f l) t = lg_results l t"
      "lg_failures (recorded X (tn_id n) st r f l) t = lg_failures l t"
      using False by (simp_all add: recorded_maps split: option.split)
    then show ?thesis using inv False by (simp add: inv_maps_def)
  qed
qed

lemma legal_deps_ok:
  assumes "legal n l a st" "deps_ok l n a"
  shows "deps_ok l n st"
  using legal_cases [OF assms(1)] assms(2) by (elim disjE) (auto simp: deps_ok_def)

lemma deps_ok_mono:
  assumes "deps_ok l n st"
    and "\<And>d. state_of l d = TsCompleted \<Longrightarrow> state_of l' d = TsCompleted"
    and "\<And>d. ended_badly (state_of l d) \<Longrightarrow> ended_badly (state_of l' d)"
  shows "deps_ok l' n st"
  using assms unfolding deps_ok_def by blast

lemma kept_deps:
  assumes n: "n \<in> set ts" and legal: "legal n l (state_of l (tn_id n)) st" and carr: "carries st r f"
  assumes wf: "wf_tasks ts" and inv: "inv_deps ts l"
  shows "inv_deps ts (recorded X (tn_id n) st r f l)"
proof -
  let ?l = "recorded X (tn_id n) st r f l"
  have nt: "\<not> is_terminal (state_of l (tn_id n))" using legal legal_not_terminal by blast
  have comp: "state_of ?l d = TsCompleted" if "state_of l d = TsCompleted" for d
    using that nt by (cases "d = tn_id n") auto
  have bad: "ended_badly (state_of ?l d)" if "ended_badly (state_of l d)" for d
    using that nt by (cases "d = tn_id n"; cases "state_of l d") auto
  have "deps_ok ?l m (state_of ?l (tn_id m))" if m: "m \<in> set ts" for m
  proof (rule deps_ok_mono [OF _ comp bad])
    show "deps_ok l m (state_of ?l (tn_id m))"
    proof (cases "tn_id m = tn_id n")
      case True
      then have "m = n" using wf_tasks_same_id [OF wf m n] by simp
      then show ?thesis using legal_deps_ok [OF legal] inv n by (simp add: inv_deps_def)
    next
      case False
      then show ?thesis using inv m by (simp add: inv_deps_def)
    qed
  qed
  moreover have "dom (lg_states ?l) = set (task_ids ts)"
    using inv n by (auto simp: inv_deps_def task_ids_def)
  ultimately show ?thesis by (simp add: inv_deps_def)
qed

lemma kept_starts:
  assumes n: "n \<in> set ts" and legal: "legal n l (state_of l (tn_id n)) st" and carr: "carries st r f"
  assumes wf: "wf_spec ts" and deps: "inv_deps ts l" and inv: "inv_starts ts l"
  shows "inv_starts ts (recorded X (tn_id n) st r f l)"
proof -
  let ?l = "recorded X (tn_id n) st r f l"
  have tn: "tn_id n \<in> set (task_ids ts)" using n by (simp add: task_ids_def)
  have running: "st = TsRunning \<Longrightarrow> state_of l (tn_id n) = TsReady" using legal_cases [OF legal] by auto
  have ns: "not_started st \<Longrightarrow> not_started (state_of l (tn_id n))"
    using legal_cases [OF legal] by (elim disjE) auto
  have zero: "t \<in> set (task_ids ts) \<Longrightarrow> not_started (state_of l t) \<Longrightarrow> starts_of (lg_events l) t = 0" for t
    using inv by (simp add: inv_starts_def)
  have "deps_first ts (lg_events ?l)"
  proof -
    have "has_event (lg_events l) d ''completed''"
      if st: "st = TsRunning" and m: "m \<in> set ts" "tn_id m = tn_id n" and d: "d \<in> set (tn_deps m)" for m d
    proof -
      have "m = n" using wf m n wf_tasks_same_id by (auto simp: wf_spec_def)
      then have "state_of l d = TsCompleted"
        using deps n running [OF st] d by (simp add: inv_deps_def deps_ok_def)
      moreover have "d \<in> set (task_ids ts)" using wf m(1) d by (auto simp: wf_spec_def preds_known_def)
      ultimately show ?thesis using inv by (simp add: inv_starts_def)
    qed
    with inv show ?thesis by (auto simp: deps_first_snoc inv_starts_def)
  qed
  moreover have "state_of ?l t = TsCompleted \<and> t \<in> set (task_ids ts) \<longrightarrow> has_event (lg_events ?l) t ''completed''" for t
    using inv by (auto simp: has_event_snoc inv_starts_def)
  moreover have "starts_of (lg_events ?l) t \<le> 1" for t
    using inv running zero [OF tn] by (auto simp: starts_of_snoc inv_starts_def)
  moreover have "\<forall>t\<in>set (task_ids ts). not_started (state_of ?l t) \<longrightarrow> starts_of (lg_events ?l) t = 0"
    using inv ns running by (auto simp: starts_of_snoc inv_starts_def)
  ultimately show ?thesis unfolding inv_starts_def by blast
qed

lemma move_inv:
  assumes "move X ts l l'" "ledger_inv X ts l"
  shows "ledger_inv X ts l'"
  using assms
proof (cases rule: move.cases)
  case (moveI n st r f)
  note k = moveI(2-4)
  have w: "wf_tasks ts" and wf: "wf_spec ts" and d: "inv_deps ts l"
    using assms(2) by (simp_all add: ledger_inv_def wf_spec_def)
  have "tn_id n \<in> dom (lg_states l)" using d k(1) by (simp add: inv_deps_def task_ids_def)
  then show ?thesis
    using assms(2) kept_log [OF k] kept_bus [OF k] kept_maps [OF k] kept_deps [OF k w d] kept_starts [OF k wf d]
    unfolding moveI(1) ledger_inv_def by blast
qed

definition ledger_begins :: "task_node list \<Rightarrow> ledger \<Rightarrow> bool" where
  "ledger_begins ts l \<longleftrightarrow> wf_spec ts \<and> l = start_ledger ts"

lemma start_ledger_state: "t \<in> set (task_ids ts) \<Longrightarrow> state_of (start_ledger ts) t = TsPending"
  by (auto simp: state_of_def start_ledger_def map_of_map_restrict)

lemma start_ledger_inv:
  assumes "ledger_begins ts l"
  shows "ledger_inv X ts l"
proof -
  have l: "l = start_ledger ts" and wf: "wf_spec ts" using assms by (simp_all add: ledger_begins_def)
  have st: "\<And>t. t \<in> set (task_ids ts) \<Longrightarrow> state_of l t = TsPending"
    unfolding l by (rule start_ledger_state)
  have ms: "lg_states l = (\<lambda>t. if t \<in> set (task_ids ts) then Some TsPending else None)"
    by (auto simp: l start_ledger_def map_of_map_restrict restrict_map_def)
  have "inv_log ts l"
    using st by (simp add: inv_log_def l last_state_def start_ledger_def state_of_def)
  moreover have "inv_deps ts l"
    using st by (auto simp: inv_deps_def deps_ok_def ms dom_def task_ids_def)
  moreover have "inv_maps l"
    by (auto simp: inv_maps_def ms) (simp_all add: l start_ledger_def)
  moreover have "inv_starts ts l"
    using st by (auto simp: inv_starts_def) (simp_all add: l start_ledger_def deps_first_def starts_of_def)
  moreover have "inv_bus X l" by (simp add: inv_bus_def l start_ledger_def)
  ultimately show ?thesis using wf by (simp add: ledger_inv_def)
qed

interpretation ledger_sys: invariant_system "ledger_begins ts" "move X ts" "ledger_inv X ts"
  by unfold_locales (auto intro: start_ledger_inv move_inv)

section \<open>The passes are sequences of moves\<close>

lemma transition_noted: "transition X t st r (note_failure t g l) = recorded X t st r (Some g) l"
  by (simp add: recorded_def)

lemma transition_plain: "transition X t st r l = recorded X t st r None l"
  by (simp add: recorded_def)

lemma wf_failure_fields [simp]:
  "fr_class (wf_failure X l t c e m) = c"
  "fr_certainty (wf_failure X l t c e m) = e"
  by (simp_all add: wf_failure_def push_cause_def new_failure_record_def Let_def)

lemma moves_one: "n \<in> set ts \<Longrightarrow> legal n l (state_of l (tn_id n)) st \<Longrightarrow> carries st r f \<Longrightarrow>
    (move X ts)\<^sup>*\<^sup>* l (recorded X (tn_id n) st r f l)"
  by (intro r_into_rtranclp moveI)

lemma fold_moves:
  assumes "\<And>t l. t \<in> set us \<Longrightarrow> R\<^sup>*\<^sup>* (g l) (g (step t l))"
  shows "R\<^sup>*\<^sup>* (g l) (g (fold step us l))"
  using assms
proof (induction us arbitrary: l)
  case (Cons u us)
  have "R\<^sup>*\<^sup>* (g l) (g (step u l))" using Cons.prems by simp
  also have "R\<^sup>*\<^sup>* (g (step u l)) (g (fold step us (step u l)))"
    using Cons by simp
  finally show ?case by simp
qed simp

subsection \<open>Cancelling what is open\<close>

fun is_open :: "task_state \<Rightarrow> bool" where
  "is_open TsPending = True"
| "is_open TsReady = True"
| "is_open TsWaitingForApproval = True"
| "is_open _ = False"

lemma cancel_task_moves:
  assumes "wf_tasks ts" "t \<in> set (task_ids ts)"
  shows "(move X ts)\<^sup>*\<^sup>* l (cancel_task X ts t l)"
proof -
  obtain n where n: "n \<in> set ts" "tn_id n = t" using task_idsE [OF assms(2,1)] by blast
  show ?thesis
    using moves_one [OF n(1), of l TsCancelled None _ X] n(2)
    by (cases "state_of l t") (simp_all add: cancel_task_def transition_noted)
qed

lemma cancel_task_state [simp]:
  "state_of (cancel_task X ts t l) u =
     (if u = t \<and> is_open (state_of l t) then TsCancelled else state_of l u)"
  by (cases "state_of l t") (simp_all add: cancel_task_def)

lemma cancel_open_moves: "wf_tasks ts \<Longrightarrow> (move X ts)\<^sup>*\<^sup>* l (cancel_open X ts l)"
  unfolding cancel_open_def by (rule fold_moves [where g = "\<lambda>x. x"]) (rule cancel_task_moves)

lemma cancel_open_state [simp]:
  "state_of (cancel_open X ts l) u =
     (if u \<in> set (task_ids ts) \<and> is_open (state_of l u) then TsCancelled else state_of l u)"
proof -
  have "state_of (fold (cancel_task X ts) us l) u =
      (if u \<in> set us \<and> is_open (state_of l u) then TsCancelled else state_of l u)" for us
    by (induction us arbitrary: l) auto
  then show ?thesis by (simp add: cancel_open_def)
qed

text \<open>The record a cancelled task gets says what is known of its effect.\<close>

lemma cancel_task_failures:
  "lg_failures (cancel_task X ts t l) u =
     (if u = t \<and> is_open (state_of l t) then
        Some (wf_failure X l t FcCancelled
          (if state_of l t = TsWaitingForApproval then tn_interrupt (node_of ts t) else NoEffect)
          (if state_of l t = TsWaitingForApproval then ''workflow cancelled while waiting for approval''
           else ''workflow cancelled before start''))
      else lg_failures l u)"
  by (cases "state_of l t") (simp_all add: cancel_task_def)

lemma cancel_open_failures:
  assumes "u \<in> set (task_ids ts)" "is_open (state_of l u)"
  shows "\<exists>f. lg_failures (cancel_open X ts l) u = Some f \<and> fr_class f = FcCancelled \<and>
    fr_certainty f = (if state_of l u = TsWaitingForApproval then tn_interrupt (node_of ts u) else NoEffect)"
proof -
  have keep: "\<not> is_open (state_of l u) \<Longrightarrow> lg_failures (fold (cancel_task X ts) us l) u = lg_failures l u"
    for us l by (induction us arbitrary: l) (auto simp: cancel_task_failures)
  have "u \<in> set us \<Longrightarrow> is_open (state_of l u) \<Longrightarrow>
      \<exists>f. lg_failures (fold (cancel_task X ts) us l) u = Some f \<and> fr_class f = FcCancelled \<and>
        fr_certainty f = (if state_of l u = TsWaitingForApproval then tn_interrupt (node_of ts u) else NoEffect)"
    for us l
  proof (induction us arbitrary: l)
    case (Cons x us)
    show ?case
    proof (cases "x = u")
      case True
      then have "lg_failures (fold (cancel_task X ts) (x # us) l) u = lg_failures (cancel_task X ts u l) u"
        using keep [of "cancel_task X ts u l" us] Cons.prems by simp
      then show ?thesis using Cons.prems by (simp add: cancel_task_failures)
    next
      case False
      then show ?thesis using Cons.IH [of "cancel_task X ts x l"] Cons.prems by simp
    qed
  qed simp
  with assms show ?thesis by (simp add: cancel_open_def)
qed

subsection \<open>Propagation\<close>

definition actionable :: "task_node list \<Rightarrow> ledger \<Rightarrow> task_id \<Rightarrow> bool" where
  "actionable ts l t \<longleftrightarrow> state_of l t = TsPending \<and>
     ((\<exists>d\<in>set (tn_deps (node_of ts t)). ended_badly (state_of l d)) \<or>
      (\<forall>d\<in>set (tn_deps (node_of ts t)). state_of l d = TsCompleted))"

definition settled :: "task_node list \<Rightarrow> ledger \<Rightarrow> bool" where
  "settled ts l \<longleftrightarrow> (\<forall>t\<in>set (task_ids ts). \<not> actionable ts l t)"

text \<open>Propagation touches only pending tasks, and makes them ready or skipped.\<close>

definition only_unblocks :: "ledger \<Rightarrow> ledger \<Rightarrow> bool" where
  "only_unblocks l l' \<longleftrightarrow> (\<forall>t. state_of l' t = state_of l t \<or>
     state_of l t = TsPending \<and> (state_of l' t = TsReady \<or> (\<exists>d. state_of l' t = TsSkipped d)))"

lemma only_unblocks_refl [simp]: "only_unblocks l l"
  by (simp add: only_unblocks_def)

lemma only_unblocks_trans: "only_unblocks a b \<Longrightarrow> only_unblocks b c \<Longrightarrow> only_unblocks a c"
  unfolding only_unblocks_def by (metis task_state.distinct(1) task_state.distinct(13))

lemma propagate_task_cases:
  obtains (same) "propagate_task X ts t (l, c) = (l, c)" "\<not> actionable ts l t"
  | (skip) d where "propagate_task X ts t (l, c) =
        (recorded X t (TsSkipped d) None
           (Some (wf_failure X l t FcRejected NoEffect (''prerequisite failed: '' @ d))) l, True)"
      "state_of l t = TsPending" "d \<in> set (tn_deps (node_of ts t))" "ended_badly (state_of l d)"
  | (ready) "propagate_task X ts t (l, c) = (recorded X t TsReady None None l, True)"
      "state_of l t = TsPending" "\<forall>d\<in>set (tn_deps (node_of ts t)). state_of l d = TsCompleted"
proof (cases "state_of l t = TsPending")
  case False
  then show ?thesis by (intro same) (simp_all add: propagate_task_def actionable_def)
next
  case True
  show ?thesis
  proof (cases "find (\<lambda>d. ended_badly (state_of l d)) (tn_deps (node_of ts t))")
    case (Some d)
    with find_SomeD [OF Some] True show ?thesis
      by (intro skip [of d]) (simp_all add: propagate_task_def transition_noted)
  next
    case None
    show ?thesis
    proof (cases "list_all (\<lambda>d. state_of l d = TsCompleted) (tn_deps (node_of ts t))")
      case c: True
      then show ?thesis using True None
        by (intro ready) (simp_all add: propagate_task_def transition_plain list_all_iff)
    next
      case c: False
      have "propagate_task X ts t (l, c) = (l, c)"
        using True None c by (simp add: propagate_task_def Let_def)
      moreover have "\<not> actionable ts l t"
        using True None c by (auto simp: actionable_def list_all_iff find_None_all)
      ultimately show ?thesis by (rule same)
    qed
  qed
qed

lemma propagate_task_facts:
  assumes "wf_tasks ts" "t \<in> set (task_ids ts)"
  shows "(move X ts)\<^sup>*\<^sup>* l (fst (propagate_task X ts t (l, c)))"
    and "only_unblocks l (fst (propagate_task X ts t (l, c)))"
    and "\<not> snd (propagate_task X ts t (l, c)) \<Longrightarrow>
      propagate_task X ts t (l, c) = (l, False) \<and> \<not> c \<and> \<not> actionable ts l t"
proof -
  obtain n where n: "n \<in> set ts" "tn_id n = t" "node_of ts t = n" using task_idsE [OF assms(2,1)] by blast
  show "(move X ts)\<^sup>*\<^sup>* l (fst (propagate_task X ts t (l, c)))"
    using n by (cases rule: propagate_task_cases [of X ts t l c])
      (auto intro!: moves_one simp flip: n(2))
  show "only_unblocks l (fst (propagate_task X ts t (l, c)))"
    by (cases rule: propagate_task_cases [of X ts t l c]) (auto simp: only_unblocks_def)
  show "\<not> snd (propagate_task X ts t (l, c)) \<Longrightarrow>
      propagate_task X ts t (l, c) = (l, False) \<and> \<not> c \<and> \<not> actionable ts l t"
    by (cases rule: propagate_task_cases [of X ts t l c]) auto
qed

lemma propagate_fold_facts:
  assumes wf: "wf_tasks ts"
  shows "set us \<subseteq> set (task_ids ts) \<Longrightarrow>
     (move X ts)\<^sup>*\<^sup>* l (fst (fold (propagate_task X ts) us (l, c))) \<and>
     only_unblocks l (fst (fold (propagate_task X ts) us (l, c))) \<and>
     (\<not> snd (fold (propagate_task X ts) us (l, c)) \<longrightarrow>
        fst (fold (propagate_task X ts) us (l, c)) = l \<and> \<not> c \<and> (\<forall>t\<in>set us. \<not> actionable ts l t))"
proof (induction us arbitrary: l c)
  case (Cons u us)
  obtain l' c' where s: "propagate_task X ts u (l, c) = (l', c')" by force
  have u: "u \<in> set (task_ids ts)" using Cons.prems by simp
  note f = propagate_task_facts [OF wf u, where X = X and l = l and c = c, unfolded s fst_conv snd_conv]
  note ih = Cons.IH [of l' c']
  show ?case
    using f ih Cons.prems by (auto simp: s intro: rtranclp_trans only_unblocks_trans)
qed simp

lemma propagate_facts:
  assumes wf: "wf_tasks ts"
  shows "(move X ts)\<^sup>*\<^sup>* l (propagate X ts l) \<and> only_unblocks l (propagate X ts l) \<and>
    settled ts (propagate X ts l)"
  using assms
proof (induction X ts l rule: propagate.induct)
  case (1 X ts l)
  obtain l' c where p: "propagate_pass X ts l = (l', c)" by force
  note f = propagate_fold_facts [OF "1.prems" subset_refl, where X = X and l = l and c = False,
      folded propagate_pass_def, unfolded p fst_conv snd_conv]
  show ?case
  proof (cases c)
    case True
    then have "propagate X ts l = propagate X ts l'" using p by (subst propagate.simps) simp
    with "1.IH" [OF p [symmetric] refl True "1.prems"] f show ?thesis
      by (auto intro: rtranclp_trans only_unblocks_trans)
  next
    case False
    then have "propagate X ts l = l'" using p by (subst propagate.simps) simp
    with f False show ?thesis by (simp add: settled_def)
  qed
qed

subsection \<open>Settling and starting\<close>

lemma settle_joined_moves:
  assumes "wf_tasks ts" "t \<in> set (task_ids ts)" "state_of l t = TsRunning"
  shows "(move X ts)\<^sup>*\<^sup>* l (settle_joined X ts t result l)"
proof -
  obtain n where n: "n \<in> set ts" "tn_id n = t" using task_idsE [OF assms(2,1)] by blast
  have noted: "legal n l TsRunning st \<Longrightarrow> carries st r (Some g) \<Longrightarrow>
      (move X ts)\<^sup>*\<^sup>* l (transition X t st r (note_failure t g l))" for st r g
    using moves_one [OF n(1), of l st r "Some g" X] n(2) assms(3) by (simp add: transition_noted)
  have plain: "legal n l TsRunning st \<Longrightarrow> carries st r None \<Longrightarrow>
      (move X ts)\<^sup>*\<^sup>* l (transition X t st r l)" for st r
    using moves_one [OF n(1), of l st r None X] n(2) assms(3) by (simp add: transition_plain)
  show ?thesis
    by (auto simp: settle_joined_def settle_def Let_def intro!: noted plain
        split: option.split finish.split task_outcome.split)
qed

text \<open>A settled task is one of the states a body can lead to, and no other task changes.\<close>

lemma settle_joined_state:
  "state_of (settle_joined X ts t result l) u =
     (if u = t then state_of (settle_joined X ts t result l) t else state_of l u)"
  "state_of (settle_joined X ts t result l) t \<in> {TsCompleted, TsWaitingForApproval, TsCancelled} \<union> range TsFailed"
  by (auto simp: settle_joined_def settle_def Let_def split: option.split finish.split task_outcome.split)

lemma start_moves:
  assumes "wf_tasks ts" "t \<in> set (task_ids ts)" "state_of l t = TsReady"
  shows "(move X ts)\<^sup>*\<^sup>* l (transition X t TsRunning None l)"
proof -
  obtain n where n: "n \<in> set ts" "tn_id n = t" using task_idsE [OF assms(2,1)] by blast
  show ?thesis
    using moves_one [OF n(1), of l TsRunning None None X] n(2) assms(3) by (simp add: transition_plain)
qed

end
