(* ===== verification/DagRun.thy ===== *)
theory DagRun
  imports DagLedger "HOL-Library.Multiset"
begin

text \<open>
  The executor's invariant and its measure. The invariant ties the coordinator's variables to the
  ledger: the bodies that execute and those that ended and are not joined are exactly the running
  tasks, \<open>live\<close> counts them, no more permits are out than there are, and at each place of the loop
  the ledger is as far along as the code before that place brought it. The measure shows that every
  run ends.
\<close>

section \<open>The invariant\<close>

definition in_flight :: "exec \<Rightarrow> task_id list" where
  "in_flight s = xs_bodies s @ map fst (xs_ended s)"

definition task_st :: "exec \<Rightarrow> task_id \<Rightarrow> task_state" where
  "task_st s t = state_of (xs_ledger s) t"

definition flight_ok :: "task_node list \<Rightarrow> exec \<Rightarrow> bool" where
  "flight_ok ts s \<longleftrightarrow> distinct (in_flight s) \<and>
     set (in_flight s) = {t \<in> set (task_ids ts). task_st s t = TsRunning} \<and>
     xs_live s = length (in_flight s)"

definition permits_ok :: "executor \<Rightarrow> exec \<Rightarrow> bool" where
  "permits_ok X s \<longleftrightarrow> permits_used s \<le> wc_max_parallel (ex_config X) \<and>
     xs_peak s \<le> wc_max_parallel (ex_config X)"

definition cancel_ok :: "task_node list \<Rightarrow> exec \<Rightarrow> bool" where
  "cancel_ok ts s \<longleftrightarrow> (xs_budget_exhausted s \<longrightarrow> xs_run_cancel s) \<and>
     (xs_cancel_seen s \<longrightarrow> xs_run_cancel s \<and>
        (\<forall>t\<in>set (task_ids ts). task_st s t \<noteq> TsPending \<and> task_st s t \<noteq> TsReady))"

definition none_ready :: "task_node list \<Rightarrow> exec \<Rightarrow> bool" where
  "none_ready ts s \<longleftrightarrow> (\<forall>t\<in>set (task_ids ts). task_st s t \<noteq> TsReady)"

definition ready_within :: "task_node list \<Rightarrow> exec \<Rightarrow> task_id list \<Rightarrow> bool" where
  "ready_within ts s us \<longleftrightarrow> set us \<subseteq> set (task_ids ts) \<and>
     (\<forall>t\<in>set (task_ids ts). task_st s t = TsReady \<longrightarrow> t \<in> set us)"

definition pc_ok :: "executor \<Rightarrow> task_node list \<Rightarrow> exec \<Rightarrow> bool" where
  "pc_ok X ts s \<longleftrightarrow> (case xs_pc s of
       AtTop \<Rightarrow> True
     | Scan us \<Rightarrow> \<not> xs_cancel_seen s \<and> \<not> xs_budget_exhausted s \<and> settled ts (xs_ledger s) \<and> ready_within ts s us
     | Starting t us \<Rightarrow> \<not> xs_cancel_seen s \<and> \<not> xs_budget_exhausted s \<and> settled ts (xs_ledger s) \<and>
         ready_within ts s (t # us) \<and> task_st s t = TsReady
     | AfterScan \<Rightarrow> xs_cancel_seen s \<or>
         \<not> xs_budget_exhausted s \<and> settled ts (xs_ledger s) \<and> (xs_live s = 0 \<longrightarrow> none_ready ts s)
     | Selecting \<Rightarrow> xs_live s \<noteq> 0 \<and>
         (xs_cancel_seen s \<or> \<not> xs_budget_exhausted s \<and> settled ts (xs_ledger s))
     | Reported r \<Rightarrow> in_flight s = [] \<and>
         r = report X ts (xs_peak s) (xs_budget_exhausted s) (xs_cancel_seen s) (xs_ledger s) \<and>
         (if xs_cancel_seen s then (\<forall>t\<in>set (task_ids ts). is_terminal (task_st s t))
          else \<not> xs_budget_exhausted s \<and> settled ts (xs_ledger s) \<and> none_ready ts s))"

definition exec_inv :: "executor \<Rightarrow> task_node list \<Rightarrow> exec \<Rightarrow> bool" where
  "exec_inv X ts s \<longleftrightarrow> 0 < wc_max_parallel (ex_config X) \<and> ledger_inv X ts (xs_ledger s) \<and>
     flight_ok ts s \<and> permits_ok X s \<and> cancel_ok ts s \<and> pc_ok X ts s"

definition exec_begins :: "executor \<Rightarrow> task_node list \<Rightarrow> exec \<Rightarrow> bool" where
  "exec_begins X ts s \<longleftrightarrow> 0 < wc_max_parallel (ex_config X) \<and> wf_spec ts \<and> exec_start X ts s"

lemma exec_inv_wf: "exec_inv X ts s \<Longrightarrow> wf_tasks ts"
  by (simp add: exec_inv_def ledger_inv_def wf_spec_def)

lemma ledger_inv_moves: "(move X ts)\<^sup>*\<^sup>* l l' \<Longrightarrow> ledger_inv X ts l \<Longrightarrow> ledger_inv X ts l'"
  by (rule ledger_sys.run_keeps_inv)

lemma start_exec_inv:
  assumes "exec_begins X ts s"
  shows "exec_inv X ts s"
proof -
  obtain c e where s: "s = start_exec ts c e" using assms by (auto simp: exec_begins_def exec_start_iff)
  have p: "t \<in> set (task_ids ts) \<Longrightarrow> task_st s t = TsPending" for t
    by (simp add: s task_st_def start_exec_def start_ledger_state)
  have "ledger_inv X ts (xs_ledger s)"
    using assms by (intro start_ledger_inv) (simp add: exec_begins_def s start_exec_def ledger_begins_def)
  moreover have "flight_ok ts s" using p by (auto simp: flight_ok_def in_flight_def s start_exec_def)
  ultimately show ?thesis using assms p
    by (simp add: exec_inv_def exec_begins_def permits_ok_def permits_used_def cancel_ok_def pc_ok_def)
      (simp add: s start_exec_def)
qed

subsection \<open>The top of the loop\<close>

lemma only_unblocks_facts:
  assumes "only_unblocks l l'"
  shows "state_of l' t = TsRunning \<longleftrightarrow> state_of l t = TsRunning"
  using assms unfolding only_unblocks_def by (metis task_state.distinct)

definition top_flags :: "exec \<Rightarrow> exec" where
  "top_flags s =
     (let s1 = (if \<not> xs_budget_exhausted s \<and> xs_expired s
                then s\<lparr>xs_budget_exhausted := True, xs_run_cancel := True\<rparr> else s)
      in if xs_caller_cancel s1 then s1\<lparr>xs_run_cancel := True\<rparr> else s1)"

lemma loop_top_cases:
  "loop_top X ts s =
     (if xs_cancel_seen s then (top_flags s)\<lparr>xs_pc := AfterScan\<rparr>
      else if xs_run_cancel (top_flags s) then
        (top_flags s)\<lparr>xs_cancel_seen := True, xs_ledger := cancel_open X ts (xs_ledger s), xs_pc := AfterScan\<rparr>
      else (top_flags s)\<lparr>xs_ledger := propagate X ts (xs_ledger s), xs_pc := Scan (task_ids ts)\<rparr>)"
  by (simp add: loop_top_def top_flags_def Let_def)

lemma top_flags_simps [simp]:
  "xs_ledger (top_flags s) = xs_ledger s" "xs_live (top_flags s) = xs_live s"
  "xs_peak (top_flags s) = xs_peak s" "xs_bodies (top_flags s) = xs_bodies s"
  "xs_ended (top_flags s) = xs_ended s" "xs_cancel_seen (top_flags s) = xs_cancel_seen s"
  "xs_pc (top_flags s) = xs_pc s" "xs_caller_cancel (top_flags s) = xs_caller_cancel s"
  "xs_expired (top_flags s) = xs_expired s"
  by (simp_all add: top_flags_def Let_def)

lemma top_flags_cancel:
  "xs_run_cancel s \<Longrightarrow> xs_run_cancel (top_flags s)"
  "xs_budget_exhausted (top_flags s) \<Longrightarrow> xs_budget_exhausted s \<or> xs_run_cancel (top_flags s)"
  by (auto simp: top_flags_def Let_def split: if_splits)

lemma loop_top_inv:
  assumes inv: "exec_inv X ts s" and pc: "xs_pc s = AtTop"
  shows "exec_inv X ts (loop_top X ts s)"
proof -
  note wf = exec_inv_wf [OF inv]
  have L: "ledger_inv X ts (xs_ledger s)" and F: "flight_ok ts s" and P: "permits_ok X s"
    and C: "cancel_ok ts s" and m: "0 < wc_max_parallel (ex_config X)"
    using inv by (simp_all add: exec_inv_def)
  have seen_rc: "xs_cancel_seen s \<Longrightarrow> xs_run_cancel (top_flags s)"
    and be_rc: "xs_budget_exhausted (top_flags s) \<Longrightarrow> xs_run_cancel (top_flags s)"
    using C top_flags_cancel [of s] by (auto simp: cancel_ok_def)
  consider (seen) "xs_cancel_seen s" | (cancel) "\<not> xs_cancel_seen s" "xs_run_cancel (top_flags s)"
    | (go) "\<not> xs_cancel_seen s" "\<not> xs_run_cancel (top_flags s)" by blast
  then show ?thesis
  proof cases
    case seen
    then show ?thesis using L F P C m pc seen_rc
      by (simp add: exec_inv_def loop_top_cases flight_ok_def permits_ok_def cancel_ok_def pc_ok_def
          permits_used_def in_flight_def task_st_def)
  next
    case cancel
    have "ledger_inv X ts (cancel_open X ts (xs_ledger s))"
      using ledger_inv_moves [OF cancel_open_moves [OF wf] L] .
    moreover have "is_open a \<Longrightarrow> a \<noteq> TsRunning" for a by (cases a) auto
    ultimately show ?thesis using F P m pc cancel
      by (auto simp: exec_inv_def loop_top_cases flight_ok_def permits_ok_def cancel_ok_def pc_ok_def
          permits_used_def in_flight_def task_st_def split: if_splits)
  next
    case go
    note f = propagate_facts [OF wf, of X "xs_ledger s"]
    have "ledger_inv X ts (propagate X ts (xs_ledger s))" using ledger_inv_moves f L by blast
    moreover have "\<And>t. state_of (propagate X ts (xs_ledger s)) t = TsRunning \<longleftrightarrow> task_st s t = TsRunning"
      using f only_unblocks_facts by (simp add: task_st_def)
    moreover have "\<not> xs_budget_exhausted (top_flags s)" using go be_rc by blast
    ultimately show ?thesis using F P C m pc go f
      by (simp add: exec_inv_def loop_top_cases flight_ok_def permits_ok_def cancel_ok_def pc_ok_def
          permits_used_def in_flight_def task_st_def ready_within_def)
  qed
qed

subsection \<open>The scan, the start of a task\<close>

lemma scan_one_inv:
  assumes inv: "exec_inv X ts s" and pc: "xs_pc s = Scan (t # rest)"
  shows "exec_inv X ts (scan_one X t rest s)"
proof -
  have base: "ledger_inv X ts (xs_ledger s)" "flight_ok ts s" "permits_ok X s" "cancel_ok ts s"
      "0 < wc_max_parallel (ex_config X)"
    and P: "pc_ok X ts s" using inv by (simp_all add: exec_inv_def)
  have scan: "\<not> xs_cancel_seen s" "\<not> xs_budget_exhausted s" "settled ts (xs_ledger s)"
      "ready_within ts s (t # rest)"
    using P pc by (simp_all add: pc_ok_def)
  define s' where "s' = scan_one X t rest s"
  have eq: "xs_ledger s' = xs_ledger s" "in_flight s' = in_flight s" "xs_live s' = xs_live s"
      "xs_peak s' = xs_peak s" "xs_cancel_seen s' = xs_cancel_seen s" "xs_run_cancel s' = xs_run_cancel s"
      "xs_budget_exhausted s' = xs_budget_exhausted s" "xs_bodies s' = xs_bodies s"
    by (simp_all add: s'_def scan_one_def in_flight_def)
  have used: "permits_used s = length (xs_bodies s)" using pc by (simp add: permits_used_def)
  have "permits_ok X s'"
    using base(3) used pc
    by (auto simp: permits_ok_def permits_used_def s'_def scan_one_def available_permits_def)
  moreover have "pc_ok X ts s'"
  proof -
    have full: "available_permits X s = 0 \<Longrightarrow> xs_live s \<noteq> 0"
      using base(2,5) used by (auto simp: available_permits_def flight_ok_def in_flight_def)
    show ?thesis using scan full
      by (auto simp: pc_ok_def s'_def scan_one_def ready_within_def task_st_def)
  qed
  moreover have "flight_ok ts s'" "cancel_ok ts s'"
    using base eq by (simp_all add: flight_ok_def cancel_ok_def task_st_def)
  ultimately show ?thesis using base eq by (simp add: exec_inv_def s'_def)
qed

lemma settled_start:
  assumes "settled ts l" "state_of l t = TsReady"
  shows "settled ts (transition X t TsRunning None l)"
  using assms unfolding settled_def actionable_def
  by (auto split: if_splits)

lemma start_task_inv:
  assumes inv: "exec_inv X ts s" and pc: "xs_pc s = Starting t rest"
  shows "exec_inv X ts (start_task X t rest s)"
proof -
  note wf = exec_inv_wf [OF inv]
  have L: "ledger_inv X ts (xs_ledger s)" and F: "flight_ok ts s" and P: "permits_ok X s"
    and C: "cancel_ok ts s" and m: "0 < wc_max_parallel (ex_config X)"
    using inv by (simp_all add: exec_inv_def)
  have seen: "\<not> xs_cancel_seen s" and be: "\<not> xs_budget_exhausted s" and S: "settled ts (xs_ledger s)"
    and R: "ready_within ts s (t # rest)" and ready: "state_of (xs_ledger s) t = TsReady"
    using inv pc by (simp_all add: exec_inv_def pc_ok_def task_st_def)
  have t: "t \<in> set (task_ids ts)" using R by (simp add: ready_within_def)
  have "ledger_inv X ts (transition X t TsRunning None (xs_ledger s))"
    using ledger_inv_moves [OF start_moves [OF wf t ready] L] .
  moreover have "t \<notin> set (in_flight s)" using F ready by (auto simp: flight_ok_def task_st_def)
  then have "flight_ok ts (start_task X t rest s)"
    using F t by (auto simp: flight_ok_def start_task_def in_flight_def task_st_def)
  moreover have "permits_ok X (start_task X t rest s)"
    using P pc by (simp add: permits_ok_def permits_used_def start_task_def available_permits_def)
  moreover have "pc_ok X ts (start_task X t rest s)"
    using seen be settled_start [OF S ready] R
    by (auto simp: pc_ok_def start_task_def ready_within_def task_st_def split: if_splits)
  ultimately show ?thesis using m C seen by (simp add: exec_inv_def cancel_ok_def start_task_def)
qed

subsection \<open>Behind the scan, the join\<close>

lemma no_open_terminal:
  "\<not> is_open a \<Longrightarrow> a \<noteq> TsRunning \<Longrightarrow> is_terminal a"
  by (cases a) auto

lemma wind_up_inv:
  assumes inv: "exec_inv X ts s" and live: "xs_live s = 0"
    and pc: "xs_pc s = AfterScan"
  shows "exec_inv X ts (wind_up X ts s)"
proof -
  note wf = exec_inv_wf [OF inv]
  have L: "ledger_inv X ts (xs_ledger s)" and F: "flight_ok ts s" and P: "permits_ok X s"
    and C: "cancel_ok ts s" and m: "0 < wc_max_parallel (ex_config X)" and Q: "pc_ok X ts s"
    using inv by (simp_all add: exec_inv_def)
  have empty: "in_flight s = []" using F live by (simp add: flight_ok_def)
  then have none: "\<forall>t\<in>set (task_ids ts). state_of (xs_ledger s) t \<noteq> TsRunning"
    using F by (auto simp: flight_ok_def task_st_def)
  have L': "ledger_inv X ts (cancel_open X ts (xs_ledger s))"
    using ledger_inv_moves [OF cancel_open_moves [OF wf] L] .
  have b: "xs_bodies s = []" "xs_ended s = []" using empty by (simp_all add: in_flight_def)
  show ?thesis
  proof (cases "xs_cancel_seen s")
    case True
    then show ?thesis using L' C m none no_open_terminal P b live
      by (auto simp: exec_inv_def wind_up_def flight_ok_def permits_ok_def permits_used_def cancel_ok_def
          pc_ok_def in_flight_def task_st_def Let_def split: if_splits)
  next
    case False
    then show ?thesis using L F P C m Q b live pc
      by (simp add: exec_inv_def wind_up_def flight_ok_def permits_ok_def permits_used_def cancel_ok_def
          pc_ok_def in_flight_def task_st_def none_ready_def)
  qed
qed

lemma after_scan_inv:
  assumes inv: "exec_inv X ts s" and pc: "xs_pc s = AfterScan"
  shows "exec_inv X ts (after_scan X ts s)"
proof (cases "xs_live s = 0")
  case True
  then show ?thesis using wind_up_inv [OF inv True pc] by (simp add: after_scan_def)
next
  case False
  then show ?thesis using inv pc
    by (auto simp: after_scan_def exec_inv_def flight_ok_def permits_ok_def permits_used_def cancel_ok_def
        pc_ok_def in_flight_def task_st_def)
qed

lemma in_flight_join:
  assumes "i < length (xs_ended s)" "xs_ended s ! i = (t, result)" "distinct (in_flight s)"
  shows "distinct (in_flight (join_task X ts i s))"
    and "set (in_flight (join_task X ts i s)) = set (in_flight s) - {t}"
    and "length (in_flight s) = Suc (length (in_flight (join_task X ts i s)))"
proof -
  have e: "xs_ended s = take i (xs_ended s) @ (t, result) # drop (Suc i) (xs_ended s)"
    using id_take_nth_drop [OF assms(1)] assms(2) by simp
  have j: "in_flight (join_task X ts i s) =
      xs_bodies s @ map fst (take i (xs_ended s)) @ map fst (drop (Suc i) (xs_ended s))"
    using assms(2) by (simp add: in_flight_def join_task_def)
  have f: "in_flight s = xs_bodies s @ map fst (take i (xs_ended s)) @ t # map fst (drop (Suc i) (xs_ended s))"
    unfolding in_flight_def by (subst e) simp
  show "distinct (in_flight (join_task X ts i s))"
    and "set (in_flight (join_task X ts i s)) = set (in_flight s) - {t}"
    and "length (in_flight s) = Suc (length (in_flight (join_task X ts i s)))"
    using assms(3) unfolding j f by auto
qed

lemma join_task_inv:
  assumes inv: "exec_inv X ts s" and pc: "xs_pc s = Selecting" and i: "i < length (xs_ended s)"
  shows "exec_inv X ts (join_task X ts i s)"
proof -
  obtain t result where tr: "xs_ended s ! i = (t, result)" by force
  note wf = exec_inv_wf [OF inv]
  have L: "ledger_inv X ts (xs_ledger s)" and F: "flight_ok ts s" and P: "permits_ok X s"
    and C: "cancel_ok ts s" and m: "0 < wc_max_parallel (ex_config X)"
    using inv by (simp_all add: exec_inv_def)
  have "t \<in> set (in_flight s)" using nth_mem [OF i] tr by (force simp: in_flight_def)
  then have t: "t \<in> set (task_ids ts)" "state_of (xs_ledger s) t = TsRunning"
    using F by (auto simp: flight_ok_def task_st_def)
  define l where "l = settle_joined X ts t result (xs_ledger s)"
  have st: "state_of l u = (if u = t then state_of l t else state_of (xs_ledger s) u)"
      "state_of l t \<in> {TsCompleted, TsWaitingForApproval, TsCancelled} \<union> range TsFailed" for u
    unfolding l_def by (rule settle_joined_state)+
  have other: "u \<noteq> t \<Longrightarrow> state_of l u = state_of (xs_ledger s) u" for u using st(1) [of u] by simp
  have new: "xs_ledger (join_task X ts i s) = l" "xs_pc (join_task X ts i s) = AtTop"
      "xs_live (join_task X ts i s) = xs_live s - 1" "xs_peak (join_task X ts i s) = xs_peak s"
      "xs_bodies (join_task X ts i s) = xs_bodies s"
      "xs_cancel_seen (join_task X ts i s) = xs_cancel_seen s"
      "xs_run_cancel (join_task X ts i s) = xs_run_cancel s"
      "xs_budget_exhausted (join_task X ts i s) = xs_budget_exhausted s"
    using tr by (simp_all add: join_task_def l_def)
  have "ledger_inv X ts l"
    using ledger_inv_moves [OF settle_joined_moves [OF wf t] L] by (simp add: l_def)
  moreover have "flight_ok ts (join_task X ts i s)"
  proof -
    have d: "distinct (in_flight s)" using F by (simp add: flight_ok_def)
    have nr: "state_of l t \<noteq> TsRunning" using st(2) by auto
    have "state_of l u = TsRunning \<longleftrightarrow> state_of (xs_ledger s) u = TsRunning \<and> u \<noteq> t" for u
      using nr other [of u] by (cases "u = t") simp_all
    then have "{u \<in> set (task_ids ts). state_of l u = TsRunning} =
        {u \<in> set (task_ids ts). state_of (xs_ledger s) u = TsRunning} - {t}" by blast
    then show ?thesis
      using F in_flight_join [OF i tr d, of X ts] by (simp add: flight_ok_def task_st_def new)
  qed
  moreover have "permits_ok X (join_task X ts i s)"
    using P pc by (simp add: permits_ok_def permits_used_def new)
  moreover have "cancel_ok ts (join_task X ts i s)"
  proof -
    have "state_of l u \<noteq> TsPending \<and> state_of l u \<noteq> TsReady"
      if "state_of (xs_ledger s) u \<noteq> TsPending \<and> state_of (xs_ledger s) u \<noteq> TsReady" for u
    proof (cases "u = t")
      case True
      with st(2) show ?thesis by auto
    next
      case False
      with other [of u] that show ?thesis by simp
    qed
    with C show ?thesis by (simp add: cancel_ok_def task_st_def new)
  qed
  ultimately show ?thesis using m by (simp add: exec_inv_def pc_ok_def new)
qed

subsection \<open>What the others do\<close>

lemma in_flight_end_body:
  assumes "i < length (xs_bodies s)"
  shows "mset (in_flight (end_body i result s)) = mset (in_flight s)"
proof -
  have "mset (xs_bodies s) = mset (take i (xs_bodies s) @ xs_bodies s ! i # drop (Suc i) (xs_bodies s))"
    using id_take_nth_drop [OF assms] by simp
  then show ?thesis by (simp add: in_flight_def end_body_def)
qed

lemma end_body_inv:
  assumes inv: "exec_inv X ts s" and i: "i < length (xs_bodies s)"
  shows "exec_inv X ts (end_body i result s)"
proof -
  note ms = in_flight_end_body [OF i, of result]
  have f: "distinct (in_flight (end_body i result s)) = distinct (in_flight s)"
      "set (in_flight (end_body i result s)) = set (in_flight s)"
      "length (in_flight (end_body i result s)) = length (in_flight s)"
    using mset_eq_imp_distinct_iff [OF ms] mset_eq_setD [OF ms] mset_eq_length [OF ms] by auto
  have e: "xs_ledger (end_body i result s) = xs_ledger s" "xs_pc (end_body i result s) = xs_pc s"
      "xs_live (end_body i result s) = xs_live s" "xs_peak (end_body i result s) = xs_peak s"
      "xs_cancel_seen (end_body i result s) = xs_cancel_seen s"
      "xs_run_cancel (end_body i result s) = xs_run_cancel s"
      "xs_budget_exhausted (end_body i result s) = xs_budget_exhausted s"
    by (simp_all add: end_body_def)
  have "permits_used (end_body i result s) \<le> permits_used s"
    using i by (simp add: permits_used_def e) (simp add: end_body_def)
  moreover have "in_flight s \<noteq> []" using i by (auto simp: in_flight_def)
  ultimately show ?thesis using inv f
    by (auto simp: exec_inv_def flight_ok_def permits_ok_def cancel_ok_def pc_ok_def task_st_def e
        ready_within_def none_ready_def split: pc.splits)
qed

lemma others_inv:
  assumes "exec_inv X ts s"
  shows "exec_inv X ts (s\<lparr>xs_caller_cancel := True\<rparr>)" "exec_inv X ts (s\<lparr>xs_expired := True\<rparr>)"
    "exec_inv X ts (s\<lparr>xs_run_cancel := True\<rparr>)"
  using assms
  by (auto simp: exec_inv_def flight_ok_def permits_ok_def permits_used_def cancel_ok_def pc_ok_def
      task_st_def ready_within_def none_ready_def in_flight_def split: pc.splits)

lemma exec_step_inv:
  assumes "exec_step X ts s s'" "exec_inv X ts s"
  shows "exec_inv X ts s'"
  using assms
proof (cases rule: exec_step.cases)
  case step_scan_end
  with assms(2) show ?thesis
    by (auto simp: exec_inv_def flight_ok_def permits_ok_def permits_used_def cancel_ok_def pc_ok_def
        task_st_def ready_within_def none_ready_def in_flight_def)
next
  case step_select_cancel
  with assms(2) show ?thesis
    by (auto simp: exec_inv_def flight_ok_def permits_ok_def permits_used_def cancel_ok_def pc_ok_def
        task_st_def in_flight_def)
next
  case step_select_deadline
  with assms(2) show ?thesis
    by (auto simp: exec_inv_def flight_ok_def permits_ok_def permits_used_def cancel_ok_def pc_ok_def
        task_st_def in_flight_def)
next
  case step_select_empty
  with assms(2) have False by (auto simp: exec_inv_def pc_ok_def flight_ok_def in_flight_def)
  then show ?thesis ..
qed (use assms(2) in \<open>auto intro: loop_top_inv scan_one_inv start_task_inv after_scan_inv join_task_inv
      end_body_inv others_inv\<close>)

interpretation exec_sys: invariant_system "exec_begins X ts" "exec_step X ts" "exec_inv X ts"
  by unfold_locales (auto intro: start_exec_inv exec_step_inv)

section \<open>Every step is made of moves\<close>

text \<open>The executor refines the lifecycle: a step changes the ledger only by moves.\<close>

lemma exec_step_moves:
  assumes "exec_step X ts s s'" "exec_inv X ts s"
  shows "(move X ts)\<^sup>*\<^sup>* (xs_ledger s) (xs_ledger s')"
proof -
  note wf = exec_inv_wf [OF assms(2)]
  have co: "(move X ts)\<^sup>*\<^sup>* l (cancel_open X ts l)" for l by (rule cancel_open_moves [OF wf])
  have wu: "(move X ts)\<^sup>*\<^sup>* (xs_ledger s) (xs_ledger (wind_up X ts s))"
    using co by (simp add: wind_up_def Let_def)
  show ?thesis
    using assms(1)
  proof (cases rule: exec_step.cases)
    case step_top
    then show ?thesis using co propagate_facts [OF wf, of X] by (simp add: loop_top_cases)
  next
    case (step_start t rest)
    then have "state_of (xs_ledger s) t = TsReady" "t \<in> set (task_ids ts)"
      using assms(2) by (simp_all add: exec_inv_def pc_ok_def task_st_def ready_within_def)
    with step_start start_moves [OF wf] show ?thesis by (simp add: start_task_def)
  next
    case (step_select_join i)
    obtain t result where tr: "xs_ended s ! i = (t, result)" by force
    then have "t \<in> set (in_flight s)" using nth_mem [OF step_select_join(5)] by (force simp: in_flight_def)
    then have "t \<in> set (task_ids ts)" "state_of (xs_ledger s) t = TsRunning"
      using assms(2) by (auto simp: exec_inv_def flight_ok_def task_st_def)
    with step_select_join tr settle_joined_moves [OF wf] show ?thesis by (simp add: join_task_def)
  qed (auto simp: scan_one_def after_scan_def end_body_def wu)
qed

section \<open>Termination\<close>

definition unstarted :: "task_node list \<Rightarrow> ledger \<Rightarrow> nat" where
  "unstarted ts l = length (filter (\<lambda>t. state_of l t = TsPending \<or> state_of l t = TsReady) (task_ids ts))"

definition flagged :: "exec \<Rightarrow> bool" where
  "flagged s \<longleftrightarrow> \<not> xs_cancel_seen s \<and> (xs_caller_cancel s \<or> xs_run_cancel s \<or> xs_expired s)"

definition place :: "task_node list \<Rightarrow> exec \<Rightarrow> nat" where
  "place ts s = (case xs_pc s of
       AtTop \<Rightarrow> if flagged s then 1 else length (task_ids ts) + 5
     | Scan us \<Rightarrow> 4 + length us
     | Starting t us \<Rightarrow> 4 + length us
     | AfterScan \<Rightarrow> 3
     | Selecting \<Rightarrow> 2
     | Reported r \<Rightarrow> 0)"

definition events_left :: "task_node list \<Rightarrow> exec \<Rightarrow> nat" where
  "events_left ts s = 3 * unstarted ts (xs_ledger s) + 2 * length (xs_bodies s) + length (xs_ended s) +
     of_bool (\<not> xs_caller_cancel s) + of_bool (\<not> xs_expired s) + of_bool (\<not> xs_run_cancel s) +
     of_bool (\<not> xs_cancel_seen s) + of_bool (\<not> xs_budget_exhausted s)"

definition exec_rank :: "task_node list \<Rightarrow> exec \<Rightarrow> nat" where
  "exec_rank ts s = (length (task_ids ts) + 6) * events_left ts s + place ts s"

lemma unstarted_mono:
  assumes "\<And>t. state_of l' t = TsPending \<or> state_of l' t = TsReady \<Longrightarrow>
      state_of l t = TsPending \<or> state_of l t = TsReady"
  shows "unstarted ts l' \<le> unstarted ts l"
proof -
  have "length (filter (\<lambda>t. state_of l' t = TsPending \<or> state_of l' t = TsReady) xs)
      \<le> length (filter (\<lambda>t. state_of l t = TsPending \<or> state_of l t = TsReady) xs)" for xs
    using assms by (induction xs) auto
  then show ?thesis by (simp add: unstarted_def)
qed

lemma unstarted_start:
  assumes "t \<in> set (task_ids ts)" "state_of l t = TsReady"
  shows "unstarted ts (transition X t TsRunning None l) < unstarted ts l"
proof -
  have le: "length (filter (\<lambda>u. u \<noteq> t \<and> P u) xs) \<le> length (filter P xs)" for P xs
    by (induction xs) auto
  have less: "t \<in> set xs \<Longrightarrow> P t \<Longrightarrow> length (filter (\<lambda>u. u \<noteq> t \<and> P u) xs) < length (filter P xs)" for P xs
  proof (induction xs)
    case (Cons x xs)
    with le [of P xs] show ?case by auto
  qed simp
  have eq: "filter (\<lambda>u. state_of (transition X t TsRunning None l) u = TsPending \<or>
        state_of (transition X t TsRunning None l) u = TsReady) (task_ids ts) =
      filter (\<lambda>u. u \<noteq> t \<and> (state_of l u = TsPending \<or> state_of l u = TsReady)) (task_ids ts)"
    by (intro filter_cong) auto
  show ?thesis unfolding unstarted_def eq using assms by (intro less) simp_all
qed

lemma rank_down:
  "events_left ts s' < events_left ts s \<Longrightarrow> place ts s' < length (task_ids ts) + 6 + place ts s \<Longrightarrow>
   exec_rank ts s' < exec_rank ts s"
  "events_left ts s' \<le> events_left ts s \<Longrightarrow> place ts s' < place ts s \<Longrightarrow> exec_rank ts s' < exec_rank ts s"
proof -
  define w where "w = length (task_ids ts) + 6"
  assume "events_left ts s' < events_left ts s" "place ts s' < length (task_ids ts) + 6 + place ts s"
  then have "w * Suc (events_left ts s') \<le> w * events_left ts s" "place ts s' < w + place ts s"
    by (simp_all only: Suc_le_eq mult_le_mono2 w_def)
  then show "exec_rank ts s' < exec_rank ts s"
    unfolding exec_rank_def w_def [symmetric] by simp
next
  assume "events_left ts s' \<le> events_left ts s" "place ts s' < place ts s"
  then show "exec_rank ts s' < exec_rank ts s"
    unfolding exec_rank_def by (meson add_le_less_mono mult_le_mono2)
qed

lemma loop_top_rank:
  assumes inv: "exec_inv X ts s" and pc: "xs_pc s = AtTop"
  shows "exec_rank ts (loop_top X ts s) < exec_rank ts s"
proof -
  note wf = exec_inv_wf [OF inv]
  have C: "cancel_ok ts s" using inv by (simp add: exec_inv_def)
  have pr: "unstarted ts (propagate X ts l) \<le> unstarted ts l" for l
    using propagate_facts [OF wf, of X l] unfolding only_unblocks_def
    by (intro unstarted_mono) (metis)
  have canc: "unstarted ts (cancel_open X ts l) \<le> unstarted ts l" for l
    by (intro unstarted_mono) (auto split: if_splits)
  have flags: "of_bool (\<not> xs_run_cancel (top_flags s)) + of_bool (\<not> xs_budget_exhausted (top_flags s))
      \<le> of_bool (\<not> xs_run_cancel s) + (of_bool (\<not> xs_budget_exhausted s) :: nat)"
    by (auto simp: top_flags_def Let_def)
  have flagged: "\<not> xs_cancel_seen s \<Longrightarrow> flagged s \<longleftrightarrow> xs_run_cancel (top_flags s)"
    using C by (auto simp: flagged_def top_flags_def cancel_ok_def Let_def)
  consider (seen) "xs_cancel_seen s" | (cancel) "\<not> xs_cancel_seen s" "xs_run_cancel (top_flags s)"
    | (go) "\<not> xs_cancel_seen s" "\<not> xs_run_cancel (top_flags s)" by blast
  then show ?thesis
  proof cases
    case seen
    then show ?thesis using flags pc
      by (intro rank_down(2)) (simp_all add: loop_top_cases events_left_def place_def flagged_def)
  next
    case cancel
    then show ?thesis using flags pc canc [of "xs_ledger s"]
      by (intro rank_down(1)) (simp_all add: loop_top_cases events_left_def place_def)
  next
    case go
    then have "\<not> flagged s" using flagged by blast
    then show ?thesis using go flags pc pr [of "xs_ledger s"]
      by (intro rank_down(2)) (simp_all add: loop_top_cases events_left_def place_def)
  qed
qed

lemma join_rank:
  assumes inv: "exec_inv X ts s" and pc: "xs_pc s = Selecting" and i: "i < length (xs_ended s)"
  shows "exec_rank ts (join_task X ts i s) < exec_rank ts s"
proof -
  obtain t result where tr: "xs_ended s ! i = (t, result)" by force
  have "unstarted ts (settle_joined X ts t result (xs_ledger s)) \<le> unstarted ts (xs_ledger s)"
  proof (rule unstarted_mono)
    fix u
    note s = settle_joined_state(1) [of X ts t result "xs_ledger s" u]
      settle_joined_state(2) [of X ts t result "xs_ledger s"]
    assume "state_of (settle_joined X ts t result (xs_ledger s)) u = TsPending \<or>
        state_of (settle_joined X ts t result (xs_ledger s)) u = TsReady"
    with s show "state_of (xs_ledger s) u = TsPending \<or> state_of (xs_ledger s) u = TsReady"
      by (cases "u = t") auto
  qed
  moreover have "length (xs_ended (join_task X ts i s)) < length (xs_ended s)"
    using i tr by (simp add: join_task_def)
  moreover have e: "xs_ledger (join_task X ts i s) = settle_joined X ts t result (xs_ledger s)"
      "xs_bodies (join_task X ts i s) = xs_bodies s" "xs_pc (join_task X ts i s) = AtTop"
      "xs_caller_cancel (join_task X ts i s) = xs_caller_cancel s" "xs_expired (join_task X ts i s) = xs_expired s"
      "xs_run_cancel (join_task X ts i s) = xs_run_cancel s" "xs_cancel_seen (join_task X ts i s) = xs_cancel_seen s"
      "xs_budget_exhausted (join_task X ts i s) = xs_budget_exhausted s"
    using tr by (simp_all add: join_task_def)
  ultimately show ?thesis
    by (intro rank_down(1)) (simp_all add: events_left_def place_def e)
qed

lemma wind_up_rank:
  assumes pc: "xs_pc s = AfterScan \<or> xs_pc s = Selecting"
  shows "exec_rank ts (wind_up X ts s) < exec_rank ts s"
proof -
  have "unstarted ts (cancel_open X ts l) \<le> unstarted ts l" for l
    by (intro unstarted_mono) (auto split: if_splits)
  then have "unstarted ts (xs_ledger (wind_up X ts s)) \<le> unstarted ts (xs_ledger s)"
    by (simp add: wind_up_def Let_def)
  then show ?thesis using pc
    by (intro rank_down(2)) (auto simp: events_left_def place_def wind_up_def Let_def)
qed

lemma others_rank:
  "\<not> xs_caller_cancel s \<Longrightarrow> exec_rank ts (s\<lparr>xs_caller_cancel := True\<rparr>) < exec_rank ts s"
  "\<not> xs_expired s \<Longrightarrow> exec_rank ts (s\<lparr>xs_expired := True\<rparr>) < exec_rank ts s"
  "\<not> xs_run_cancel s \<Longrightarrow> exec_rank ts (s\<lparr>xs_run_cancel := True\<rparr>) < exec_rank ts s"
  "i < length (xs_bodies s) \<Longrightarrow> exec_rank ts (end_body i result s) < exec_rank ts s"
  by (intro rank_down(1); simp add: events_left_def place_def flagged_def end_body_def split: pc.split)+

lemma exec_step_rank:
  assumes "exec_inv X ts s" "exec_step X ts s s'"
  shows "exec_rank ts s' < exec_rank ts s"
  using assms(2)
proof (cases rule: exec_step.cases)
  case (step_scan t rest)
  then have seen: "\<not> xs_cancel_seen s" using assms(1) by (simp add: exec_inv_def pc_ok_def)
  show ?thesis unfolding step_scan(1) using step_scan(2) seen
    by (intro rank_down(2)) (simp_all add: scan_one_def events_left_def place_def flagged_def)
next
  case (step_start t rest)
  then have "t \<in> set (task_ids ts)" "state_of (xs_ledger s) t = TsReady"
    using assms(1) by (simp_all add: exec_inv_def pc_ok_def ready_within_def task_st_def)
  from unstarted_start [OF this, of X] step_start show ?thesis
    by (intro rank_down(1)) (simp_all add: events_left_def place_def start_task_def)
next
  case step_after
  then show ?thesis using wind_up_rank [of s ts X]
    by (cases "xs_live s = 0") (auto simp: after_scan_def intro!: rank_down(2) simp: events_left_def place_def)
next
  case step_select_cancel
  then show ?thesis
    by (intro rank_down(2)) (auto simp: events_left_def place_def flagged_def cancel_branch_def)
next
  case step_select_deadline
  then show ?thesis
    by (intro rank_down(1)) (auto simp: events_left_def place_def deadline_branch_def)
next
  case step_scan_end
  then show ?thesis by (intro rank_down(2)) (auto simp: events_left_def place_def)
qed (use assms in \<open>auto intro: loop_top_rank join_rank wind_up_rank others_rank\<close>)

interpretation exec_term: terminating_system "exec_begins X ts" "exec_step X ts" "exec_inv X ts" "exec_rank ts"
  by unfold_locales (auto intro: exec_step_rank)

text \<open>Only a state with the report has no step that the code could take.\<close>

lemma exec_progress:
  assumes "exec_inv X ts s" "\<forall>s'. \<not> exec_step X ts s s'"
  shows "\<exists>r. xs_pc s = Reported r"
proof (cases "xs_pc s")
  case (Scan us)
  then show ?thesis using assms(2) by (cases us) (blast intro: exec_step.intros)+
next
  case Selecting
  then have "xs_bodies s \<noteq> [] \<or> xs_ended s \<noteq> []"
    using assms(1) by (auto simp: exec_inv_def pc_ok_def flight_ok_def in_flight_def)
  then show ?thesis
  proof
    assume "xs_bodies s \<noteq> []"
    then have "exec_step X ts s (end_body 0 None s)" by (intro step_body_ends) (auto simp: may_end_def)
    then show ?thesis using assms(2) by blast
  next
    assume "xs_ended s \<noteq> []"
    then have "0 < length (xs_ended s)" by simp
    then show ?thesis using assms(2) Selecting
      by (metis step_select_cancel step_select_deadline step_select_join)
  qed
qed (use assms(2) in \<open>blast intro: exec_step.intros\<close>)+

end
