(* ===== verification/DagProps.thy ===== *)
theory DagProps
  imports DagRun
begin

text \<open>
  What the workflow executor promises, for every specification that the builder and \<open>build\<close> accept,
  every configuration that \<open>WorkflowExecutor::new\<close> accepts, and every interleaving of the
  coordinator with the task bodies, the caller's token and the deadline.
\<close>

section \<open>Runs of accepted workflows\<close>

definition runnable :: "executor \<Rightarrow> task_node list \<Rightarrow> bool" where
  "runnable X ts \<longleftrightarrow> 0 < wc_max_parallel (ex_config X) \<and> wf_tasks ts \<and> build ts = Some (Inr ts)"

lemma runnable_from_api:
  assumes "add_all [] calls = Inr ts" "build ts = Some (Inr spec)"
    "new_executor L now stamp eid cfg = Inr X"
  shows "runnable X spec \<and> runnable (with_event_bus X) spec"
proof -
  have "spec = ts" using build_cases [OF builder_wf [OF assms(1)]] assms(2) by auto
  then show ?thesis using assms builder_wf [OF assms(1)]
    by (auto simp: runnable_def new_executor_def with_event_bus_def split: if_splits)
qed

lemma runnable_wf_spec: "runnable X ts \<Longrightarrow> wf_spec ts"
  using build_cases [of ts] by (auto simp: runnable_def wf_spec_def)

lemma reaches_inv:
  assumes "runnable X ts" "exec_reaches X ts s"
  shows "exec_inv X ts s"
proof -
  obtain s0 where "exec_start X ts s0" "(exec_step X ts)\<^sup>*\<^sup>* s0 s"
    using assms(2) by (auto simp: exec_reaches_def)
  then show ?thesis using assms(1) runnable_wf_spec [OF assms(1)]
    by (intro exec_sys.reached_inv [of X ts s0 s]) (simp_all add: exec_begins_def runnable_def)
qed

lemma reaches_ledger:
  assumes "runnable X ts" "exec_reaches X ts s"
  shows "wf_spec ts" "inv_log ts (xs_ledger s)" "inv_deps ts (xs_ledger s)" "inv_maps (xs_ledger s)"
    "inv_starts ts (xs_ledger s)" "inv_bus X (xs_ledger s)"
  using reaches_inv [OF assms] by (simp_all add: exec_inv_def ledger_inv_def)

lemma run_moves:
  assumes "(exec_step X ts)\<^sup>*\<^sup>* s s'" "exec_inv X ts s"
  shows "(move X ts)\<^sup>*\<^sup>* (xs_ledger s) (xs_ledger s')"
  using exec_sys.run_relation [of "\<lambda>a b. (move X ts)\<^sup>*\<^sup>* (xs_ledger a) (xs_ledger b)" X ts s s'] assms
  by (auto intro: rtranclp_trans exec_step_moves)

lemma states_Some_iff:
  assumes "inv_deps ts l" "t \<in> set (task_ids ts)"
  shows "lg_states l t = Some a \<longleftrightarrow> state_of l t = a"
proof -
  have "t \<in> dom (lg_states l)" using assms by (simp add: inv_deps_def)
  then show ?thesis by (auto simp: state_of_def)
qed

section \<open>An executable schedule\<close>

text \<open>
  A schedule resolves the choices of the step relation: the coordinator moves (joining the body at
  the given index of those that ended, if it is about to join), or one of the others does.
\<close>

datatype choice = Coord nat | CallerCancels | DeadlinePasses | BodyCancels | BodyEnds nat "finish option"

definition coordinate :: "executor \<Rightarrow> task_node list \<Rightarrow> nat \<Rightarrow> exec \<Rightarrow> exec option" where
  "coordinate X ts i s = (case xs_pc s of
       AtTop \<Rightarrow> Some (loop_top X ts s)
     | Scan [] \<Rightarrow> Some (s\<lparr>xs_pc := AfterScan\<rparr>)
     | Scan (t # rest) \<Rightarrow> Some (scan_one X t rest s)
     | Starting t rest \<Rightarrow> Some (start_task X t rest s)
     | AfterScan \<Rightarrow> Some (after_scan X ts s)
     | Selecting \<Rightarrow>
         if cancel_branch s then Some (s\<lparr>xs_run_cancel := True, xs_pc := AtTop\<rparr>)
         else if deadline_branch s
         then Some (s\<lparr>xs_budget_exhausted := True, xs_run_cancel := True, xs_pc := AtTop\<rparr>)
         else if i < length (xs_ended s) then Some (join_task X ts i s) else None
     | Reported r \<Rightarrow> None)"

fun take_choice :: "executor \<Rightarrow> task_node list \<Rightarrow> choice \<Rightarrow> exec \<Rightarrow> exec option" where
  "take_choice X ts (Coord i) s = coordinate X ts i s"
| "take_choice X ts CallerCancels s =
     (if xs_caller_cancel s then None else Some (s\<lparr>xs_caller_cancel := True\<rparr>))"
| "take_choice X ts DeadlinePasses s =
     (if wc_total_budget (ex_config X) = None \<or> xs_expired s then None else Some (s\<lparr>xs_expired := True\<rparr>))"
| "take_choice X ts BodyCancels s =
     (if xs_peak s = 0 \<or> xs_run_cancel s then None else Some (s\<lparr>xs_run_cancel := True\<rparr>))"
| "take_choice X ts (BodyEnds i result) s =
     (if i < length (xs_bodies s) \<and> may_end X s result then Some (end_body i result s) else None)"

fun follow :: "executor \<Rightarrow> task_node list \<Rightarrow> choice list \<Rightarrow> exec \<Rightarrow> exec option" where
  "follow X ts [] s = Some s"
| "follow X ts (c # cs) s = Option.bind (take_choice X ts c s) (follow X ts cs)"

lemma take_choice_step: "take_choice X ts c s = Some s' \<Longrightarrow> exec_step X ts s s'"
  by (cases "(X, ts, c, s)" rule: take_choice.cases)
    (auto simp: coordinate_def intro: exec_step.intros split: pc.splits list.splits if_splits)

lemma follow_steps: "follow X ts cs s = Some s' \<Longrightarrow> (exec_step X ts)\<^sup>*\<^sup>* s s'"
proof (induction cs arbitrary: s)
  case (Cons c cs)
  then show ?case
    by (auto simp: bind_eq_Some_conv intro: converse_rtranclp_into_rtranclp take_choice_step)
qed simp

lemma follow_reaches:
  assumes "follow X ts cs (start_exec ts False False) = Some s" "wc_max_parallel (ex_config X) \<le> MAX_PERMITS"
  shows "exec_reaches X ts s"
  using follow_steps [OF assms(1)] assms(2) unfolding exec_reaches_def
  by (intro exI [of _ "start_exec ts False False"]) (simp add: exec_start_iff, blast)

section \<open>Order and exclusivity of starts\<close>

text \<open>
  C1: In the log of any run, a task's start stands behind the completion of every predecessor it
  lists: when the event at position \<open>k\<close> says that a task is running, each of its predecessors has
  a completed event at an earlier position. Nothing starts because a predecessor failed, was
  skipped or cancelled, or waits for approval.
\<close>

theorem dag_starts_after_predecessors:
  assumes "runnable X ts" "exec_reaches X ts s"
    and "k < length (lg_events (xs_ledger s))" "n \<in> set ts" "d \<in> set (tn_deps n)"
    and "we_task (lg_events (xs_ledger s) ! k) = Some (tn_id n)"
    and "we_state (lg_events (xs_ledger s) ! k) = ''running''"
  shows "\<exists>j<k. we_task (lg_events (xs_ledger s) ! j) = Some d \<and>
    we_state (lg_events (xs_ledger s) ! j) = ''completed''"
proof -
  have "has_event (take k (lg_events (xs_ledger s))) d ''completed''"
    using reaches_ledger(5) [OF assms(1,2)] assms(3-) by (simp add: inv_starts_def deps_first_def)
  then obtain j where "j < k" "we_task (lg_events (xs_ledger s) ! j) = Some d"
    "we_state (lg_events (xs_ledger s) ! j) = ''completed''"
    by (auto simp: has_event_def in_set_conv_nth)
  then show ?thesis by blast
qed

text \<open>
  A task's body is started at most once in a run, and not at all for a task that is still
  pending or ready or was skipped: nothing is retried or run twice by the workflow.
\<close>

lemma dag_starts_at_most_once:
  assumes "runnable X ts" "exec_reaches X ts s"
  shows "starts_of (lg_events (xs_ledger s)) t \<le> 1 \<and>
    (t \<in> set (task_ids ts) \<and> not_started (state_of (xs_ledger s) t) \<longrightarrow>
       starts_of (lg_events (xs_ledger s)) t = 0)"
  using reaches_ledger(5) [OF assms] by (simp add: inv_starts_def)

text \<open>
  C12: At every moment at most \<open>max_parallel\<close> bodies execute, each of them belongs to a different
  task that the ledger shows as running, and the peak the executor reports is within the bound.
\<close>

theorem dag_parallelism_bounded:
  assumes "runnable X ts" "exec_reaches X ts s"
  shows "length (xs_bodies s) \<le> wc_max_parallel (ex_config X) \<and>
    xs_peak s \<le> wc_max_parallel (ex_config X) \<and> distinct (xs_bodies s) \<and>
    (\<forall>t\<in>set (xs_bodies s). state_of (xs_ledger s) t = TsRunning) \<and>
    xs_live s = length (filter (\<lambda>t. state_of (xs_ledger s) t = TsRunning) (task_ids ts))"
proof -
  have i: "flight_ok ts s" "permits_ok X s" using reaches_inv [OF assms] by (simp_all add: exec_inv_def)
  have d: "distinct (task_ids ts)" using assms(1) by (simp add: runnable_def wf_tasks_def task_ids_def)
  have "set (in_flight s) = set (filter (\<lambda>t. state_of (xs_ledger s) t = TsRunning) (task_ids ts))"
    using i(1) by (auto simp: flight_ok_def task_st_def)
  then have "length (in_flight s) = length (filter (\<lambda>t. state_of (xs_ledger s) t = TsRunning) (task_ids ts))"
    using i(1) d by (metis distinct_card distinct_filter flight_ok_def)
  then show ?thesis using i
    by (auto simp: flight_ok_def permits_ok_def permits_used_def in_flight_def task_st_def)
qed

section \<open>The log and the maps\<close>

text \<open>
  C25: The log is gapless and replays to the ledger: the events are numbered 1, 2, 3 and so on up to
  the ledger's number, the last event of each task (\<open>pending\<close> if there is none) names the task's
  state, and with a bus attached the envelopes sent carry exactly the numbers of the log in order.
\<close>

theorem dag_log_replays:
  assumes "runnable X ts" "exec_reaches X ts s"
  shows "map we_seq (lg_events (xs_ledger s)) = [1..<Suc (lg_seq (xs_ledger s))] \<and>
    (\<forall>t\<in>set (task_ids ts). last_state (lg_events (xs_ledger s)) t = state_name (state_of (xs_ledger s) t)) \<and>
    map ev_sequence (lg_published (xs_ledger s)) =
      (if ex_bus X then map we_seq (lg_events (xs_ledger s)) else [])"
  using reaches_ledger(2,6) [OF assms] by (simp add: inv_log_def inv_bus_def)

text \<open>
  C26: The maps of the report agree with the states. A result digest is kept for the completed tasks
  and no other; a failure record for the failed (the one in the state), cancelled (class Cancelled)
  and skipped ones (class Rejected with no effect) and no other. A skipped task names a predecessor
  of its own that ended without success, and a task beyond pending (cancelled and skipped apart) has
  all its predecessors completed.
\<close>

theorem dag_maps_agree:
  assumes "runnable X ts" "exec_reaches X ts s"
  shows "dom (lg_states (xs_ledger s)) = set (task_ids ts) \<and>
    (\<forall>t. (lg_results (xs_ledger s) t \<noteq> None \<longleftrightarrow> lg_states (xs_ledger s) t = Some TsCompleted) \<and>
      failure_matches (lg_states (xs_ledger s) t) (lg_failures (xs_ledger s) t)) \<and>
    (\<forall>n\<in>set ts.
      (past_ready (state_of (xs_ledger s) (tn_id n)) \<longrightarrow>
        (\<forall>d\<in>set (tn_deps n). state_of (xs_ledger s) d = TsCompleted)) \<and>
      (\<forall>d. state_of (xs_ledger s) (tn_id n) = TsSkipped d \<longrightarrow>
        d \<in> set (tn_deps n) \<and> ended_badly (state_of (xs_ledger s) d)))"
  using reaches_ledger(3,4) [OF assms] unfolding inv_maps_def inv_deps_def deps_ok_def by blast

lemma move_keeps_terminal:
  "move X ts l l' \<Longrightarrow> is_terminal (state_of l t) \<Longrightarrow> state_of l' t = state_of l t"
  by (cases rule: move.cases, assumption) (auto dest: legal_not_terminal)

lemma moves_keep_terminal:
  "(move X ts)\<^sup>*\<^sup>* l l' \<Longrightarrow> is_terminal (state_of l t) \<Longrightarrow> state_of l' t = state_of l t"
  by (induction rule: rtranclp_induct) (simp_all add: move_keeps_terminal)

text \<open>
  C24: Terminal means final: once a task is completed, failed, cancelled or skipped, no later step
  of the run changes its state, whatever the order of joins, cancellations and expiries.
\<close>

theorem dag_terminal_is_final:
  assumes "runnable X ts" "exec_reaches X ts s" "(exec_step X ts)\<^sup>*\<^sup>* s s'"
    and "is_terminal (state_of (xs_ledger s) t)"
  shows "state_of (xs_ledger s') t = state_of (xs_ledger s) t"
  using moves_keep_terminal [OF run_moves [OF assms(3) reaches_inv [OF assms(1,2)]] assms(4)] .

section \<open>Cancellation\<close>

text \<open>With nothing pending and nothing ready, no move starts a task.\<close>

definition none_startable :: "ledger \<Rightarrow> task_node list \<Rightarrow> bool" where
  "none_startable l ts \<longleftrightarrow>
     (\<forall>t\<in>set (task_ids ts). state_of l t \<noteq> TsPending \<and> state_of l t \<noteq> TsReady)"

lemma move_none_startable:
  assumes "move X ts l l'" "none_startable l ts"
  shows "none_startable l' ts \<and> (\<forall>t. starts_of (lg_events l') t = starts_of (lg_events l) t)"
  using assms(1)
proof (cases rule: move.cases)
  case (moveI n new r f)
  have "tn_id n \<in> set (task_ids ts)" using moveI(2) by (simp add: task_ids_def)
  then have "state_of l (tn_id n) \<noteq> TsPending" "state_of l (tn_id n) \<noteq> TsReady"
    using assms(2) by (auto simp: none_startable_def)
  then have "new \<noteq> TsPending \<and> new \<noteq> TsReady \<and> new \<noteq> TsRunning"
    using legal_cases [OF moveI(3)] by auto
  then show ?thesis using assms(2) unfolding moveI(1)
    by (auto simp: none_startable_def starts_of_snoc)
qed

lemma moves_none_startable:
  "(move X ts)\<^sup>*\<^sup>* l l' \<Longrightarrow> none_startable l ts \<Longrightarrow>
   none_startable l' ts \<and> (\<forall>t. starts_of (lg_events l') t = starts_of (lg_events l) t)"
  by (induction rule: rtranclp_induct) (simp, metis move_none_startable)

text \<open>
  C13: Once the executor has seen a cancellation (the caller's, the budget's, or a body's), no task
  starts any more in that run: from then on the log holds for every task as many starts as before.
\<close>

theorem dag_nothing_starts_after_cancel:
  assumes "runnable X ts" "exec_reaches X ts s" "xs_cancel_seen s" "(exec_step X ts)\<^sup>*\<^sup>* s s'"
  shows "starts_of (lg_events (xs_ledger s')) t = starts_of (lg_events (xs_ledger s)) t"
proof -
  have inv: "exec_inv X ts s" by (rule reaches_inv [OF assms(1,2)])
  then have "none_startable (xs_ledger s) ts"
    using assms(3) by (simp add: exec_inv_def cancel_ok_def none_startable_def task_st_def)
  with moves_none_startable [OF run_moves [OF assms(4) inv]] show ?thesis by blast
qed

section \<open>The report\<close>

lemma reported_facts:
  assumes "runnable X ts" "exec_reaches X ts s" "xs_pc s = Reported r"
  shows "r = report X ts (xs_peak s) (xs_budget_exhausted s) (xs_cancel_seen s) (xs_ledger s)"
    and "t \<in> set (task_ids ts) \<Longrightarrow> task_st s t \<noteq> TsRunning"
    and "xs_cancel_seen s \<Longrightarrow> t \<in> set (task_ids ts) \<Longrightarrow> is_terminal (task_st s t)"
    and "\<not> xs_cancel_seen s \<Longrightarrow>
      \<not> xs_budget_exhausted s \<and> settled ts (xs_ledger s) \<and> none_ready ts s"
  using reaches_inv [OF assms(1,2)] assms(3)
  by (auto simp: exec_inv_def pc_ok_def flight_ok_def split: if_splits)

lemma finish_run_states [simp]:
  "lg_states (finish_run X status l) = lg_states l"
  "lg_results (finish_run X status l) = lg_results l"
  "lg_failures (finish_run X status l) = lg_failures l"
  by (simp_all add: finish_run_def publish_event_def Let_def)

text \<open>
  C20: The status of a report means what its documentation says: Completed exactly when the run was
  not cancelled and every task completed; Cancelled exactly when a cancellation was seen, and then
  no task is left unfinished; WaitingForApproval exactly when it was not cancelled and some task
  waits; a spent budget is always reported as Cancelled.
\<close>

theorem dag_status_meaning:
  assumes "runnable X ts" "exec_reaches X ts s" "xs_pc s = Reported r"
  shows "(wr_status r = WsCompleted \<longleftrightarrow> \<not> xs_cancel_seen s \<and>
        (\<forall>t\<in>set (task_ids ts). ws_states (wr_snapshot r) t = Some TsCompleted)) \<and>
    (wr_status r = WsCancelled \<longleftrightarrow> xs_cancel_seen s) \<and>
    (wr_status r = WsWaitingForApproval \<longleftrightarrow> \<not> xs_cancel_seen s \<and>
        (\<exists>t\<in>set (task_ids ts). ws_states (wr_snapshot r) t = Some TsWaitingForApproval)) \<and>
    (xs_cancel_seen s \<longrightarrow> wr_unfinished r = []) \<and>
    (wr_budget_exhausted r \<longrightarrow> wr_status r = WsCancelled)"
proof -
  have r: "r = report X ts (xs_peak s) (xs_budget_exhausted s) (xs_cancel_seen s) (xs_ledger s)"
    by (rule reported_facts(1) [OF assms])
  note some = states_Some_iff [OF reaches_ledger(3) [OF assms(1,2)]]
  have over: "xs_cancel_seen s \<Longrightarrow> \<forall>t\<in>set (task_ids ts). is_terminal (state_of (xs_ledger s) t)"
    using reported_facts(3) [OF assms] by (simp add: task_st_def)
  have be: "xs_budget_exhausted s \<Longrightarrow> xs_cancel_seen s" using reported_facts(4) [OF assms] by blast
  have "wr_status r = report_status ts (xs_cancel_seen s) (xs_ledger s)"
    and "ws_states (wr_snapshot r) = lg_states (xs_ledger s)"
    and "wr_budget_exhausted r = xs_budget_exhausted s"
    and "wr_unfinished r = filter (\<lambda>t. \<not> is_terminal (state_of (xs_ledger s) t)) (task_ids ts)"
    by (simp_all add: r report_def Let_def)
  then show ?thesis using over be some
    by (auto simp: report_status_def list_ex_iff list_all_iff filter_empty_conv)
qed

lemma dep_rel_finite: "finite (dep_rel ts)"
  by (simp add: dep_rel_def)

text \<open>
  C3: A run that was not cancelled leaves only what it must: each task the report lists as
  unfinished either waits for approval itself or is pending behind, directly or through other
  tasks, one that waits. In particular, without a waiting task every task is terminal.
\<close>

theorem dag_unfinished_only_behind_approval:
  assumes "runnable X ts" "exec_reaches X ts s" "xs_pc s = Reported r" "\<not> xs_cancel_seen s"
    and "t \<in> set (wr_unfinished r)"
  shows "\<exists>w\<in>set (task_ids ts). (t, w) \<in> (dep_rel ts)\<^sup>* \<and>
    ws_states (wr_snapshot r) w = Some TsWaitingForApproval"
proof -
  define l where "l = xs_ledger s"
  have r: "r = report X ts (xs_peak s) (xs_budget_exhausted s) (xs_cancel_seen s) l"
    unfolding l_def by (rule reported_facts(1) [OF assms(1-3)])
  have S: "settled ts l" and N: "\<And>t. t \<in> set (task_ids ts) \<Longrightarrow> state_of l t \<noteq> TsReady"
    using reported_facts(4) [OF assms(1-4)] by (simp_all add: none_ready_def task_st_def l_def)
  have R: "\<And>t. t \<in> set (task_ids ts) \<Longrightarrow> state_of l t \<noteq> TsRunning"
    using reported_facts(2) [OF assms(1-3)] by (simp add: task_st_def l_def)
  have wf: "wf_tasks ts" "preds_known ts" "acyclic (dep_rel ts)"
    using runnable_wf_spec [OF assms(1)] by (simp_all add: wf_spec_def)
  note some = states_Some_iff [OF reaches_ledger(3) [OF assms(1,2)], folded l_def]
  have behind: "u \<in> set (task_ids ts) \<Longrightarrow> \<not> is_terminal (state_of l u) \<Longrightarrow>
      \<exists>w\<in>set (task_ids ts). (u, w) \<in> (dep_rel ts)\<^sup>* \<and> state_of l w = TsWaitingForApproval" for u
  proof (induction u rule: wf_induct_rule [OF finite_acyclic_wf_converse [OF dep_rel_finite wf(3)]])
    case (1 u)
    show ?case
    proof (cases "state_of l u = TsWaitingForApproval")
      case True
      then show ?thesis using "1.prems" by blast
    next
      case False
      then have p: "state_of l u = TsPending"
        using "1.prems" N R by (cases "state_of l u") auto
      obtain n where n: "n \<in> set ts" "tn_id n = u" "node_of ts u = n"
        using task_idsE [OF "1.prems"(1) wf(1)] by blast
      from S "1.prems"(1) p obtain d where d: "d \<in> set (tn_deps n)" "state_of l d \<noteq> TsCompleted"
          "\<not> ended_badly (state_of l d)"
        by (auto simp: settled_def actionable_def n(3))
      have "d \<in> set (task_ids ts)" using wf(2) n(1) d(1) by (auto simp: preds_known_def)
      moreover have "\<not> is_terminal (state_of l d)" using d(2,3) by (cases "state_of l d") auto
      moreover have ud: "(u, d) \<in> dep_rel ts" using n d(1) by (force simp: dep_rel_def)
      ultimately obtain w where "w \<in> set (task_ids ts)" "(d, w) \<in> (dep_rel ts)\<^sup>*"
          "state_of l w = TsWaitingForApproval"
        using "1.IH" [of d] by blast
      with ud show ?thesis by (meson converse_rtrancl_into_rtrancl)
    qed
  qed
  have "t \<in> set (task_ids ts)" "\<not> is_terminal (state_of l t)"
    using assms(5) by (simp_all add: r report_def Let_def)
  from behind [OF this] obtain w where w: "w \<in> set (task_ids ts)" "(t, w) \<in> (dep_rel ts)\<^sup>*"
      "state_of l w = TsWaitingForApproval" by blast
  moreover have "lg_states l w = Some TsWaitingForApproval"
    using w some by simp
  ultimately show ?thesis by (auto simp: r report_def Let_def)
qed

section \<open>Every run ends with a report\<close>

text \<open>
  C27: No run is infinite: from the start of a workflow of \<open>n\<close> tasks, the coordinator, the bodies,
  the caller and the clock together take at most \<open>(n + 6) * (3 * n + 6)\<close> steps.
\<close>

theorem dag_run_bounded:
  assumes "runnable X ts" "exec_start X ts s0" "(exec_step X ts ^^ k) s0 s"
  shows "k \<le> (length ts + 6) * (3 * length ts + 6)"
proof -
  have b: "exec_begins X ts s0"
    using assms(1,2) runnable_wf_spec [OF assms(1)] by (simp add: exec_begins_def runnable_def)
  obtain c e where s0: "s0 = start_exec ts c e" using assms(2) by (auto simp: exec_start_iff)
  have len: "length (task_ids ts) = length ts" by (simp add: task_ids_def)
  have "unstarted ts (xs_ledger s0) \<le> length ts"
    using length_filter_le [of _ "task_ids ts"] by (simp add: unstarted_def len)
  then have "events_left ts s0 \<le> 3 * length ts + 5"
    by (simp add: events_left_def s0 start_exec_def)
  then have "(length ts + 6) * events_left ts s0 \<le> (length ts + 6) * (3 * length ts + 5)"
    by (rule mult_le_mono2)
  moreover have "place ts s0 \<le> length ts + 6" by (simp add: place_def s0 start_exec_def len)
  ultimately have "exec_rank ts s0 \<le> (length ts + 6) * (3 * length ts + 6)"
    by (simp add: exec_rank_def len algebra_simps)
  with exec_term.runs_bounded [OF assms(3) start_exec_inv [OF b]] show ?thesis by simp
qed

text \<open>
  C28: The workflow cannot get stuck: from every state of a run a report can still be reached, and a
  coordinator that has not reported can move unless it waits for a body that executes.
\<close>

theorem dag_always_reports:
  assumes "runnable X ts" "exec_reaches X ts s"
  shows "(\<exists>s' r. (exec_step X ts)\<^sup>*\<^sup>* s s' \<and> xs_pc s' = Reported r) \<and>
    ((\<exists>r. xs_pc s = Reported r) \<or> coordinate X ts 0 s \<noteq> None \<or> xs_bodies s \<noteq> [])"
proof
  have inv: "exec_inv X ts s" by (rule reaches_inv [OF assms])
  obtain s' where s': "(exec_step X ts)\<^sup>*\<^sup>* s s'" "\<forall>u. \<not> exec_step X ts s' u"
    using exec_term.reaches_quiescence [OF inv] by blast
  with exec_progress [OF exec_sys.run_keeps_inv [OF s'(1) inv] s'(2)]
  show "\<exists>s' r. (exec_step X ts)\<^sup>*\<^sup>* s s' \<and> xs_pc s' = Reported r" by blast
  have "xs_pc s = Selecting \<Longrightarrow> xs_bodies s \<noteq> [] \<or> xs_ended s \<noteq> []"
    using inv by (auto simp: exec_inv_def pc_ok_def flight_ok_def in_flight_def)
  then show "(\<exists>r. xs_pc s = Reported r) \<or> coordinate X ts 0 s \<noteq> None \<or> xs_bodies s \<noteq> []"
    by (cases "xs_pc s") (auto simp: coordinate_def split: list.split)
qed

section \<open>Cancellation records what is known\<close>

text \<open>
  When the workflow is cancelled, every task that had not started is recorded as cancelled with
  no effect, every task that waits for approval with the certainty its runner declares, no running
  or finished task is touched, and nothing is left open.
\<close>

lemma dag_cancel_open_certainty:
  assumes "t \<in> set (task_ids ts)"
  shows "(if is_open (state_of l t) then
        state_of (cancel_open X ts l) t = TsCancelled \<and>
        (\<exists>f. lg_failures (cancel_open X ts l) t = Some f \<and> fr_class f = FcCancelled \<and>
          fr_certainty f = (if state_of l t = TsWaitingForApproval then tn_interrupt (node_of ts t) else NoEffect))
      else state_of (cancel_open X ts l) t = state_of l t) \<and>
    \<not> is_open (state_of (cancel_open X ts l) t)"
  using assms cancel_open_failures [OF assms, of l X] by simp

section \<open>Concrete runs\<close>

definition demo_executor :: "nat \<Rightarrow> executor" where
  "demo_executor n = \<lparr>ex_config = new_workflow_config ''run_1'' ''sess_1'' n, ex_bus = True,
     ex_libs = no_libs, ex_now = (\<lambda>_. 0), ex_stamp = (\<lambda>_. 0), ex_event_id = (\<lambda>_. ''evt_0'')\<rparr>"

definition completes :: "finish option" where
  "completes = Some (FinOutcome (OutCompleted JNull))"

text \<open>The diamond under two permits: \<open>b\<close> completes, \<open>c\<close> asks for approval, \<open>d\<close> stays behind it.\<close>

definition approval_schedule :: "choice list" where
  "approval_schedule = replicate 8 (Coord 0) @ [BodyEnds 0 completes] @ replicate 10 (Coord 0) @
     [BodyEnds 0 completes, BodyEnds 0 (Some (FinOutcome OutApprovalPending))] @ replicate 16 (Coord 0)"

definition approval_end :: exec where
  "approval_end = the (follow (demo_executor 2) diamond_tasks approval_schedule (start_exec diamond_tasks False False))"

text \<open>The diamond cancelled by the caller while \<open>a\<close> runs.\<close>

definition cancel_schedule :: "choice list" where
  "cancel_schedule = replicate 8 (Coord 0) @ [CallerCancels] @ replicate 3 (Coord 0) @
     [BodyEnds 0 (Some FinInterrupted)]"

definition cancel_end :: exec where
  "cancel_end = the (follow (demo_executor 2) diamond_tasks cancel_schedule (start_exec diamond_tasks False False))"

lemma demo_permits [simp]: "wc_max_parallel (ex_config (demo_executor n)) \<le> MAX_PERMITS \<longleftrightarrow> n \<le> MAX_PERMITS"
  by (simp add: demo_executor_def new_workflow_config_def)

lemma few_permits [simp]: "Suc 0 \<le> MAX_PERMITS" "2 \<le> MAX_PERMITS"
  by (simp_all add: MAX_PERMITS_def)

lemma demo_runnable: "runnable (demo_executor (Suc n)) diamond_tasks"
proof -
  have "build diamond_tasks = Some (Inr diamond_tasks)" by code_simp
  moreover have "wf_tasks diamond_tasks" by (rule builder_wf [OF diamond_added])
  ultimately show ?thesis by (simp add: runnable_def demo_executor_def new_workflow_config_def)
qed

lemma approval_reaches: "exec_reaches (demo_executor 2) diamond_tasks approval_end"
proof -
  have "follow (demo_executor 2) diamond_tasks approval_schedule (start_exec diamond_tasks False False) \<noteq> None"
    by code_simp
  then show ?thesis unfolding approval_end_def by (intro follow_reaches) auto
qed

lemma cancel_reaches: "exec_reaches (demo_executor 2) diamond_tasks cancel_end"
proof -
  have "follow (demo_executor 2) diamond_tasks cancel_schedule (start_exec diamond_tasks False False) \<noteq> None"
    by code_simp
  then show ?thesis unfolding cancel_end_def by (intro follow_reaches) auto
qed

lemma demo_two: "runnable (demo_executor 2) diamond_tasks"
  using demo_runnable [of 1] by (simp add: numeral_2_eq_2)

lemma approval_events:
  "map (\<lambda>e. (we_task e, we_state e)) (lg_events (xs_ledger approval_end)) =
   [(Some ''a'', ''ready''), (Some ''a'', ''running''), (Some ''a'', ''completed''),
    (Some ''b'', ''ready''), (Some ''c'', ''ready''), (Some ''b'', ''running''), (Some ''c'', ''running''),
    (Some ''b'', ''completed''), (Some ''c'', ''waiting_for_approval'')]"
  by code_simp

lemma approval_event:
  assumes "k < 9"
  shows "k < length (lg_events (xs_ledger approval_end))"
    "we_task (lg_events (xs_ledger approval_end) ! k) =
      fst (map (\<lambda>e. (we_task e, we_state e)) (lg_events (xs_ledger approval_end)) ! k)"
    "we_state (lg_events (xs_ledger approval_end) ! k) =
      snd (map (\<lambda>e. (we_task e, we_state e)) (lg_events (xs_ledger approval_end)) ! k)"
proof -
  have l: "length (lg_events (xs_ledger approval_end)) = 9"
    using arg_cong [OF approval_events, of length] by simp
  with assms show "k < length (lg_events (xs_ledger approval_end))" by simp
  with l assms show
    "we_task (lg_events (xs_ledger approval_end) ! k) =
      fst (map (\<lambda>e. (we_task e, we_state e)) (lg_events (xs_ledger approval_end)) ! k)"
    "we_state (lg_events (xs_ledger approval_end) ! k) =
      snd (map (\<lambda>e. (we_task e, we_state e)) (lg_events (xs_ledger approval_end)) ! k)"
    by simp_all
qed

theorem dag_starts_after_predecessors_witness:
  "\<exists>j<5. we_task (lg_events (xs_ledger approval_end) ! j) = Some ''a'' \<and>
     we_state (lg_events (xs_ledger approval_end) ! j) = ''completed''"
proof -
  have n: "\<lparr>tn_id = ''b'', tn_deps = [''a''], tn_interrupt = EcUncertain\<rparr> \<in> set diamond_tasks"
    by (simp add: diamond_tasks_def diamond_calls_def)
  show ?thesis
    by (rule dag_starts_after_predecessors [OF demo_two approval_reaches _ n])
      (simp_all add: approval_event approval_events)
qed

lemma dag_starts_at_most_once_example:
  "starts_of (lg_events (xs_ledger approval_end)) ''d'' = 0 \<and>
   starts_of (lg_events (xs_ledger approval_end)) ''c'' \<le> 1"
proof -
  have "''d'' \<in> set (task_ids diamond_tasks)" by code_simp
  moreover have "not_started (state_of (xs_ledger approval_end) ''d'')" by code_simp
  ultimately show ?thesis
    using dag_starts_at_most_once [OF demo_two approval_reaches] by blast
qed

theorem dag_parallelism_bounded_witness:
  "xs_peak approval_end = 2 \<and> xs_peak approval_end \<le> wc_max_parallel (ex_config (demo_executor 2))"
proof -
  have "xs_peak approval_end = 2" by code_simp
  with dag_parallelism_bounded [OF demo_two approval_reaches] show ?thesis by blast
qed

theorem dag_log_replays_witness:
  "last_state (lg_events (xs_ledger approval_end)) ''c'' = ''waiting_for_approval'' \<and>
   map we_seq (lg_events (xs_ledger approval_end)) = [1..<Suc (lg_seq (xs_ledger approval_end))]"
proof -
  have "state_of (xs_ledger approval_end) ''c'' = TsWaitingForApproval" by code_simp
  moreover have "''c'' \<in> set (task_ids diamond_tasks)" by code_simp
  ultimately show ?thesis
    using dag_log_replays [OF demo_two approval_reaches] by simp
qed

theorem dag_maps_agree_witness:
  "lg_results (xs_ledger approval_end) ''b'' \<noteq> None \<and> lg_results (xs_ledger approval_end) ''d'' = None"
proof -
  have "lg_states (xs_ledger approval_end) ''b'' = Some TsCompleted"
    "lg_states (xs_ledger approval_end) ''d'' = Some TsPending" by code_simp+
  then show ?thesis
    using dag_maps_agree [OF demo_two approval_reaches] by (metis option.inject task_state.distinct(7))
qed

definition approval_middle :: exec where
  "approval_middle = the (follow (demo_executor 2) diamond_tasks (take 10 approval_schedule)
     (start_exec diamond_tasks False False))"

lemma follow_append: "follow X ts (cs @ ds) s = Option.bind (follow X ts cs s) (follow X ts ds)"
  by (induction cs arbitrary: s) (auto split: Option.bind_splits)

lemma approval_middle_run:
  "exec_reaches (demo_executor 2) diamond_tasks approval_middle \<and>
   (exec_step (demo_executor 2) diamond_tasks)\<^sup>*\<^sup>* approval_middle approval_end"
proof -
  have "follow (demo_executor 2) diamond_tasks (take 10 approval_schedule) (start_exec diamond_tasks False False) \<noteq> None"
    by code_simp
  then have m: "follow (demo_executor 2) diamond_tasks (take 10 approval_schedule)
      (start_exec diamond_tasks False False) = Some approval_middle"
    unfolding approval_middle_def by auto
  have "follow (demo_executor 2) diamond_tasks approval_schedule (start_exec diamond_tasks False False) \<noteq> None"
    by code_simp
  then have "follow (demo_executor 2) diamond_tasks approval_schedule (start_exec diamond_tasks False False)
      = Some approval_end"
    unfolding approval_end_def by auto
  then have "follow (demo_executor 2) diamond_tasks (drop 10 approval_schedule) approval_middle = Some approval_end"
    using follow_append [of _ _ "take 10 approval_schedule" "drop 10 approval_schedule"] m by simp
  with follow_reaches [OF m] show ?thesis by (simp add: follow_steps)
qed

theorem dag_terminal_is_final_witness:
  "state_of (xs_ledger approval_end) ''a'' = state_of (xs_ledger approval_middle) ''a'' \<and>
   state_of (xs_ledger approval_middle) ''a'' = TsCompleted"
proof -
  have "state_of (xs_ledger approval_middle) ''a'' = TsCompleted" by code_simp
  with dag_terminal_is_final [OF demo_two conjunct1 [OF approval_middle_run] conjunct2 [OF approval_middle_run]]
  show ?thesis by simp
qed

definition cancelled_report :: exec where
  "cancelled_report = the (follow (demo_executor 2) diamond_tasks (replicate 3 (Coord 0)) cancel_end)"

lemma cancelled_report_run:
  "(exec_step (demo_executor 2) diamond_tasks)\<^sup>*\<^sup>* cancel_end cancelled_report"
proof -
  have "follow (demo_executor 2) diamond_tasks (replicate 3 (Coord 0)) cancel_end \<noteq> None" by code_simp
  then show ?thesis unfolding cancelled_report_def by (intro follow_steps) auto
qed

theorem dag_nothing_starts_after_cancel_witness:
  "xs_cancel_seen cancel_end \<and>
   starts_of (lg_events (xs_ledger cancelled_report)) ''b'' = starts_of (lg_events (xs_ledger cancel_end)) ''b''"
proof -
  have "xs_cancel_seen cancel_end" by code_simp
  with dag_nothing_starts_after_cancel [OF demo_two cancel_reaches _ cancelled_report_run]
  show ?thesis by blast
qed

fun reported_of :: "pc \<Rightarrow> workflow_report option" where
  "reported_of (Reported r) = Some r"
| "reported_of _ = None"

lemma reported_of_iff: "reported_of p = Some r \<longleftrightarrow> p = Reported r"
  by (cases p) auto

definition approval_report :: workflow_report where
  "approval_report = the (reported_of (xs_pc approval_end))"

lemma approval_reported: "xs_pc approval_end = Reported approval_report"
proof -
  have "reported_of (xs_pc approval_end) \<noteq> None" by code_simp
  then have "reported_of (xs_pc approval_end) = Some approval_report"
    unfolding approval_report_def by auto
  then show ?thesis by (simp add: reported_of_iff)
qed

theorem dag_status_meaning_witness:
  "wr_status approval_report = WsWaitingForApproval \<and> wr_unfinished approval_report = [''d'', ''c''] \<and>
   ws_states (wr_snapshot approval_report) ''c'' = Some TsWaitingForApproval"
proof -
  have "\<not> xs_cancel_seen approval_end" "ws_states (wr_snapshot approval_report) ''c'' = Some TsWaitingForApproval"
    "''c'' \<in> set (task_ids diamond_tasks)" "wr_unfinished approval_report = [''d'', ''c'']"
    by code_simp+
  with dag_status_meaning [OF demo_two approval_reaches approval_reported] show ?thesis by blast
qed

theorem dag_unfinished_only_behind_approval_witness:
  "\<exists>w\<in>set (task_ids diamond_tasks). (''d'', w) \<in> (dep_rel diamond_tasks)\<^sup>* \<and>
     ws_states (wr_snapshot approval_report) w = Some TsWaitingForApproval"
proof -
  have "\<not> xs_cancel_seen approval_end" "''d'' \<in> set (wr_unfinished approval_report)"
    by code_simp+
  with dag_unfinished_only_behind_approval [OF demo_two approval_reaches approval_reported]
  show ?thesis by blast
qed

theorem dag_run_bounded_witness:
  "\<exists>s. (exec_step (demo_executor 2) diamond_tasks ^^ 1) (start_exec diamond_tasks False False) s \<and>
     1 \<le> (length diamond_tasks + 6) * (3 * length diamond_tasks + 6)"
proof -
  have s: "exec_start (demo_executor 2) diamond_tasks (start_exec diamond_tasks False False)"
    by (simp add: exec_start_iff, blast)
  have "exec_step (demo_executor 2) diamond_tasks (start_exec diamond_tasks False False)
      (loop_top (demo_executor 2) diamond_tasks (start_exec diamond_tasks False False))"
    by (rule step_top) (simp add: start_exec_def)
  then have "(exec_step (demo_executor 2) diamond_tasks ^^ 1) (start_exec diamond_tasks False False)
      (loop_top (demo_executor 2) diamond_tasks (start_exec diamond_tasks False False))" by (simp only: relpowp_1)
  with dag_run_bounded [OF demo_two s this] show ?thesis by blast
qed

theorem dag_always_reports_witness:
  "\<exists>s' r. (exec_step (demo_executor 2) diamond_tasks)\<^sup>*\<^sup>* cancel_end s' \<and> xs_pc s' = Reported r"
  using dag_always_reports [OF demo_two cancel_reaches] by blast

lemma dag_cancel_open_certainty_witness:
  "\<exists>f. lg_failures (cancel_open (demo_executor 2) diamond_tasks (xs_ledger approval_end)) ''c'' = Some f \<and>
     fr_class f = FcCancelled \<and> fr_certainty f = EcUncertain"
proof -
  have "''c'' \<in> set (task_ids diamond_tasks)" "is_open (state_of (xs_ledger approval_end) ''c'')"
    "state_of (xs_ledger approval_end) ''c'' = TsWaitingForApproval"
    "tn_interrupt (node_of diamond_tasks ''c'') = EcUncertain" by code_simp+
  with dag_cancel_open_certainty [of "''c''" diamond_tasks "xs_ledger approval_end" "demo_executor 2"]
  show ?thesis by simp
qed

section \<open>The order under one permit\<close>

text \<open>Two independent tasks under \<open>max_parallel = 1\<close>; every body completes with the same result.\<close>

definition pair_tasks :: "task_node list" where
  "pair_tasks = [\<lparr>tn_id = ''a'', tn_deps = [], tn_interrupt = EcUncertain\<rparr>,
     \<lparr>tn_id = ''b'', tn_deps = [], tn_interrupt = EcUncertain\<rparr>]"

text \<open>The body of \<open>a\<close> ends while the coordinator waits in the \<open>select!\<close>, or while it still scans.\<close>

definition late_end :: "choice list" where
  "late_end = replicate 5 (Coord 0) @ [BodyEnds 0 completes] @ replicate 7 (Coord 0) @
     [BodyEnds 0 completes] @ replicate 6 (Coord 0)"

definition early_end :: "choice list" where
  "early_end = replicate 3 (Coord 0) @ [BodyEnds 0 completes] @ replicate 4 (Coord 0) @
     [BodyEnds 0 completes] @ replicate 12 (Coord 0)"

definition final_of :: "choice list \<Rightarrow> exec" where
  "final_of cs = the (follow (demo_executor 1) pair_tasks cs (start_exec pair_tasks False False))"

lemma final_of_reaches:
  "follow (demo_executor 1) pair_tasks cs (start_exec pair_tasks False False) \<noteq> None \<Longrightarrow>
   exec_reaches (demo_executor 1) pair_tasks (final_of cs)"
  unfolding final_of_def by (intro follow_reaches) auto

definition event_names :: "workflow_report \<Rightarrow> (task_id option \<times> string) list" where
  "event_names r = map (\<lambda>e. (we_task e, we_state e)) (wr_events r)"

text \<open>
  With \<open>max_parallel = 1\<close> the order of events is still not fixed by the specification. Of two
  complete runs of the same two independent tasks with the same outcomes, one records that \<open>a\<close>
  completed before \<open>b\<close> started and the other after it: the permit is released when a body ends,
  and the coordinator may hand it to the next task of its scan before it joins the first.
\<close>

lemma dag_serial_order_not_fixed:
  "build pair_tasks = Some (Inr pair_tasks) \<and>
   exec_reaches (demo_executor 1) pair_tasks (final_of late_end) \<and>
   exec_reaches (demo_executor 1) pair_tasks (final_of early_end) \<and>
   map_option wr_status (reported_of (xs_pc (final_of late_end))) = Some WsCompleted \<and>
   map_option wr_status (reported_of (xs_pc (final_of early_end))) = Some WsCompleted \<and>
   map_option event_names (reported_of (xs_pc (final_of late_end))) =
     Some [(Some ''a'', ''ready''), (Some ''b'', ''ready''), (Some ''a'', ''running''),
       (Some ''a'', ''completed''), (Some ''b'', ''running''), (Some ''b'', ''completed''), (None, ''finished'')] \<and>
   map_option event_names (reported_of (xs_pc (final_of early_end))) =
     Some [(Some ''a'', ''ready''), (Some ''b'', ''ready''), (Some ''a'', ''running''),
       (Some ''b'', ''running''), (Some ''a'', ''completed''), (Some ''b'', ''completed''), (None, ''finished'')]"
proof -
  have "build pair_tasks = Some (Inr pair_tasks)" by code_simp
  moreover have "exec_reaches (demo_executor 1) pair_tasks (final_of late_end)"
    by (rule final_of_reaches) code_simp
  moreover have "exec_reaches (demo_executor 1) pair_tasks (final_of early_end)"
    by (rule final_of_reaches) code_simp
  moreover have
    "map_option wr_status (reported_of (xs_pc (final_of late_end))) = Some WsCompleted"
    "map_option wr_status (reported_of (xs_pc (final_of early_end))) = Some WsCompleted"
    by code_simp+
  moreover have "map_option event_names (reported_of (xs_pc (final_of late_end))) =
     Some [(Some ''a'', ''ready''), (Some ''b'', ''ready''), (Some ''a'', ''running''),
       (Some ''a'', ''completed''), (Some ''b'', ''running''), (Some ''b'', ''completed''), (None, ''finished'')]"
    by code_simp
  moreover have "map_option event_names (reported_of (xs_pc (final_of early_end))) =
     Some [(Some ''a'', ''ready''), (Some ''b'', ''ready''), (Some ''a'', ''running''),
       (Some ''b'', ''running''), (Some ''a'', ''completed''), (Some ''b'', ''completed''), (None, ''finished'')]"
    by code_simp
  ultimately show ?thesis by blast
qed

end
