(* ===== verification/DagSpec.thy ===== *)
theory DagSpec
  imports DagProps
begin

text \<open>
  The abstract specification of the workflow executor: a plan gives each task a phase and says whether the
  workflow was stopped. It knows no ledger, log, bus, permits, bodies, timers or tokens. The executor refines it:
  each of its steps is a sequence of steps of the plan, and its report is read off the plan it ends with.
\<close>

section \<open>The plan\<close>

datatype phase = PhPending | PhReady | PhRunning | PhWaiting | PhCompleted | PhFailed | PhCancelled | PhSkipped

record plan =
  pl_phase :: "task_id \<rightharpoonup> phase"
  pl_stopped :: bool

definition start_plan :: "task_node list \<Rightarrow> plan" where
  "start_plan ts = \<lparr>pl_phase = (\<lambda>t. if t \<in> set (task_ids ts) then Some PhPending else None), pl_stopped = False\<rparr>"

definition put_phase :: "task_id \<Rightarrow> phase \<Rightarrow> plan \<Rightarrow> plan" where
  "put_phase t a p = p\<lparr>pl_phase := (pl_phase p)(t \<mapsto> a)\<rparr>"

text \<open>
  What may happen to a plan. Until it is stopped, a pending task whose prerequisites are all completed becomes
  ready, one with a prerequisite that ended badly is skipped, and a ready task starts. A running task ends as its
  body says, stopped or not. Once the plan is stopped, what has not ended and does not run is cancelled.
\<close>

inductive plan_step :: "task_node list \<Rightarrow> plan \<Rightarrow> plan \<Rightarrow> bool" for ts :: "task_node list" where
  plan_ready: "\<not> pl_stopped p \<Longrightarrow> n \<in> set ts \<Longrightarrow> pl_phase p (tn_id n) = Some PhPending \<Longrightarrow>
     \<forall>d\<in>set (tn_deps n). pl_phase p d = Some PhCompleted \<Longrightarrow> plan_step ts p (put_phase (tn_id n) PhReady p)"
| plan_skip: "\<not> pl_stopped p \<Longrightarrow> n \<in> set ts \<Longrightarrow> pl_phase p (tn_id n) = Some PhPending \<Longrightarrow>
     \<exists>d\<in>set (tn_deps n). pl_phase p d \<in> {Some PhFailed, Some PhCancelled, Some PhSkipped} \<Longrightarrow>
     plan_step ts p (put_phase (tn_id n) PhSkipped p)"
| plan_begin: "\<not> pl_stopped p \<Longrightarrow> pl_phase p t = Some PhReady \<Longrightarrow> plan_step ts p (put_phase t PhRunning p)"
| plan_end: "pl_phase p t = Some PhRunning \<Longrightarrow> a \<in> {PhCompleted, PhFailed, PhCancelled, PhWaiting} \<Longrightarrow>
     plan_step ts p (put_phase t a p)"
| plan_stop: "\<not> pl_stopped p \<Longrightarrow> plan_step ts p (p\<lparr>pl_stopped := True\<rparr>)"
| plan_cancel: "pl_stopped p \<Longrightarrow> pl_phase p t \<in> {Some PhPending, Some PhReady, Some PhWaiting} \<Longrightarrow>
     plan_step ts p (put_phase t PhCancelled p)"

inductive_cases plan_stepE: "plan_step ts p q"

definition plan_status :: "plan \<Rightarrow> workflow_status" where
  "plan_status p =
     (if pl_stopped p then WsCancelled
      else if Some PhWaiting \<in> range (pl_phase p) then WsWaitingForApproval
      else if \<forall>t\<in>dom (pl_phase p). pl_phase p t = Some PhCompleted then WsCompleted
      else WsFailed)"

text \<open>Nothing more can happen to the plan, unless it is stopped from outside.\<close>

definition plan_over :: "task_node list \<Rightarrow> plan \<Rightarrow> bool" where
  "plan_over ts p \<longleftrightarrow> (\<forall>q. plan_step ts p q \<longrightarrow> \<not> pl_stopped p \<and> q = p\<lparr>pl_stopped := True\<rparr>)"

section \<open>The plan of a ledger\<close>

fun phase_of :: "task_state \<Rightarrow> phase" where
  "phase_of TsPending = PhPending"
| "phase_of TsReady = PhReady"
| "phase_of TsRunning = PhRunning"
| "phase_of TsWaitingForApproval = PhWaiting"
| "phase_of TsCompleted = PhCompleted"
| "phase_of (TsFailed f) = PhFailed"
| "phase_of TsCancelled = PhCancelled"
| "phase_of (TsSkipped d) = PhSkipped"

definition plan_at :: "task_node list \<Rightarrow> bool \<Rightarrow> ledger \<Rightarrow> plan" where
  "plan_at ts stopped l =
     \<lparr>pl_phase = (\<lambda>t. if t \<in> set (task_ids ts) then Some (phase_of (state_of l t)) else None), pl_stopped = stopped\<rparr>"

definition plan_of :: "task_node list \<Rightarrow> exec \<Rightarrow> plan" where
  "plan_of ts s = plan_at ts (xs_cancel_seen s) (xs_ledger s)"

lemma plan_at_simps [simp]:
  "pl_stopped (plan_at ts b l) = b"
  "t \<in> set (task_ids ts) \<Longrightarrow> pl_phase (plan_at ts b l) t = Some (phase_of (state_of l t))"
  "(plan_at ts b l)\<lparr>pl_stopped := c\<rparr> = plan_at ts c l"
  by (simp_all add: plan_at_def)

lemma plan_at_transition:
  assumes "t \<in> set (task_ids ts)"
  shows "plan_at ts b (transition X t st r (case f of Some g \<Rightarrow> note_failure t g l | None \<Rightarrow> l)) =
    put_phase t (phase_of st) (plan_at ts b l)"
  using assms by (cases f) (auto simp: plan_at_def put_phase_def)

lemma plan_at_recorded:
  "t \<in> set (task_ids ts) \<Longrightarrow> plan_at ts b (recorded X t st r f l) = put_phase t (phase_of st) (plan_at ts b l)"
  unfolding recorded_def by (rule plan_at_transition)

lemma phase_of_iff [simp]:
  "phase_of a = PhPending \<longleftrightarrow> a = TsPending" "phase_of a = PhReady \<longleftrightarrow> a = TsReady"
  "phase_of a = PhRunning \<longleftrightarrow> a = TsRunning" "phase_of a = PhCompleted \<longleftrightarrow> a = TsCompleted"
  "phase_of a = PhWaiting \<longleftrightarrow> a = TsWaitingForApproval"
  "PhWaiting = phase_of a \<longleftrightarrow> a = TsWaitingForApproval"
  by (cases a; simp)+

lemma ended_badly_phase: "ended_badly a \<longleftrightarrow> phase_of a \<in> {PhFailed, PhCancelled, PhSkipped}"
  by (cases a) simp_all

section \<open>The passes follow the plan\<close>

lemma cancel_open_plan: "(plan_step ts)\<^sup>*\<^sup>* (plan_at ts True l) (plan_at ts True (cancel_open X ts l))"
  unfolding cancel_open_def
proof (rule fold_moves)
  fix t l
  assume t: "t \<in> set (task_ids ts)"
  show "(plan_step ts)\<^sup>*\<^sup>* (plan_at ts True l) (plan_at ts True (cancel_task X ts t l))"
  proof (cases "is_open (state_of l t)")
    case True
    then have "plan_at ts True (cancel_task X ts t l) = put_phase t PhCancelled (plan_at ts True l)"
      using t by (auto simp: plan_at_def put_phase_def)
    moreover have "pl_phase (plan_at ts True l) t \<in> {Some PhPending, Some PhReady, Some PhWaiting}"
      using True t by (cases "state_of l t") simp_all
    ultimately show ?thesis by (metis plan_cancel plan_at_simps(1) r_into_rtranclp)
  next
    case False
    then have "plan_at ts True (cancel_task X ts t l) = plan_at ts True l" by (auto simp: plan_at_def)
    then show ?thesis by simp
  qed
qed

lemma propagate_task_plan:
  assumes wf: "wf_spec ts" and t: "t \<in> set (task_ids ts)"
  shows "(plan_step ts)\<^sup>*\<^sup>* (plan_at ts False l) (plan_at ts False (fst (propagate_task X ts t (l, c))))"
proof -
  obtain n where n: "n \<in> set ts" "tn_id n = t" "node_of ts t = n"
    using task_idsE [OF t] wf by (auto simp: wf_spec_def)
  have known: "d \<in> set (task_ids ts)" if "d \<in> set (tn_deps n)" for d
    using wf n(1) that by (auto simp: wf_spec_def preds_known_def)
  show ?thesis
  proof (cases rule: propagate_task_cases [of X ts t l c])
    case (skip d)
    have "plan_step ts (plan_at ts False l) (put_phase t PhSkipped (plan_at ts False l))"
      using plan_skip [of "plan_at ts False l" n ts] n skip(2-4) t known by (auto simp: ended_badly_phase intro!: bexI [of _ d])
    then show ?thesis using t by (simp add: skip(1) plan_at_recorded)
  next
    case ready
    have "plan_step ts (plan_at ts False l) (put_phase t PhReady (plan_at ts False l))"
      using plan_ready [of "plan_at ts False l" n ts] n ready(2,3) t known by simp
    then show ?thesis using t by (simp add: ready(1) plan_at_recorded)
  qed simp
qed

lemma propagate_plan:
  assumes "wf_spec ts"
  shows "(plan_step ts)\<^sup>*\<^sup>* (plan_at ts False l) (plan_at ts False (propagate X ts l))"
  using assms
proof (induction X ts l rule: propagate.induct)
  case (1 X ts l)
  have pass: "(plan_step ts)\<^sup>*\<^sup>* (plan_at ts False (fst (l, False))) (plan_at ts False (fst (propagate_pass X ts l)))"
    unfolding propagate_pass_def
    by (rule fold_moves [where g = "\<lambda>lc. plan_at ts False (fst lc)"])
      (metis propagate_task_plan [OF "1.prems"] prod.collapse)
  obtain l' c where p: "propagate_pass X ts l = (l', c)" by force
  show ?case
  proof (cases c)
    case True
    then have "propagate X ts l = propagate X ts l'" using p by (subst propagate.simps) simp
    with "1.IH" [OF p [symmetric] refl True "1.prems"] pass p show ?thesis by (auto intro: rtranclp_trans)
  next
    case False
    then have "propagate X ts l = l'" using p by (subst propagate.simps) simp
    with pass p show ?thesis by simp
  qed
qed

lemma settle_joined_plan:
  assumes "t \<in> set (task_ids ts)" "state_of l t = TsRunning"
  shows "plan_step ts (plan_at ts b l) (plan_at ts b (settle_joined X ts t result l))"
proof -
  let ?st = "state_of (settle_joined X ts t result l) t"
  have "plan_at ts b (settle_joined X ts t result l) = put_phase t (phase_of ?st) (plan_at ts b l)"
  proof -
    have "u \<noteq> t \<Longrightarrow> state_of (settle_joined X ts t result l) u = state_of l u" for u
      by (subst settle_joined_state(1)) simp
    then show ?thesis using assms(1) by (auto simp: plan_at_def put_phase_def)
  qed
  moreover have "phase_of ?st \<in> {PhCompleted, PhFailed, PhCancelled, PhWaiting}"
    using settle_joined_state(2) [of X ts t result l] by auto
  moreover have "pl_phase (plan_at ts b l) t = Some PhRunning" using assms by simp
  ultimately show ?thesis using plan_end [of "plan_at ts b l" t "phase_of ?st" ts] by simp
qed

section \<open>The executor follows the plan\<close>

lemma exec_step_plan:
  assumes "exec_step X ts s s'" "exec_inv X ts s"
  shows "(plan_step ts)\<^sup>*\<^sup>* (plan_of ts s) (plan_of ts s')"
proof -
  have wf: "wf_spec ts" using assms(2) by (simp add: exec_inv_def ledger_inv_def)
  have wu: "(plan_step ts)\<^sup>*\<^sup>* (plan_of ts s) (plan_of ts (wind_up X ts s))"
    using cancel_open_plan by (simp add: wind_up_def Let_def plan_of_def)
  show ?thesis
    using assms(1)
  proof (cases rule: exec_step.cases)
    case step_top
    have "\<not> xs_cancel_seen s \<Longrightarrow> plan_step ts (plan_of ts s) (plan_at ts True (xs_ledger s))"
      using plan_stop [of "plan_of ts s" ts] by (simp add: plan_of_def)
    then have "\<not> xs_cancel_seen s \<Longrightarrow>
        (plan_step ts)\<^sup>*\<^sup>* (plan_of ts s) (plan_at ts True (cancel_open X ts (xs_ledger s)))"
      using cancel_open_plan by (meson converse_rtranclp_into_rtranclp)
    then show ?thesis using step_top propagate_plan [OF wf]
      by (auto simp: loop_top_cases plan_of_def)
  next
    case (step_start t rest)
    then have t: "state_of (xs_ledger s) t = TsReady" "t \<in> set (task_ids ts)" "\<not> xs_cancel_seen s"
      using assms(2) by (simp_all add: exec_inv_def pc_ok_def task_st_def ready_within_def)
    then have "plan_step ts (plan_of ts s) (put_phase t PhRunning (plan_of ts s))"
      by (intro plan_begin) (simp_all add: plan_of_def)
    then show ?thesis
      using step_start t plan_at_transition [of t ts False X TsRunning None _ None]
      by (simp add: start_task_def plan_of_def)
  next
    case (step_select_join i)
    obtain t result where tr: "xs_ended s ! i = (t, result)" by force
    then have "t \<in> set (in_flight s)" using nth_mem [OF step_select_join(5)] by (force simp: in_flight_def)
    then have "t \<in> set (task_ids ts)" "state_of (xs_ledger s) t = TsRunning"
      using assms(2) by (auto simp: exec_inv_def flight_ok_def task_st_def)
    with step_select_join tr settle_joined_plan show ?thesis by (auto simp: join_task_def plan_of_def)
  qed (use wu in \<open>auto simp: scan_one_def after_scan_def end_body_def plan_of_def\<close>)
qed

lemma start_plan_at: "plan_at ts False (start_ledger ts) = start_plan ts"
proof -
  have "map_of (map (\<lambda>t. (t, TsPending)) us) t = (if t \<in> set us then Some TsPending else None)" for us :: "task_id list" and t
    by (induction us) auto
  then show ?thesis by (auto simp: plan_at_def start_plan_def start_ledger_def state_of_def)
qed

lemma plan_run:
  assumes "exec_inv X ts s" "(exec_step X ts)\<^sup>*\<^sup>* s s'"
  shows "(plan_step ts)\<^sup>*\<^sup>* (plan_of ts s) (plan_of ts s')"
  using exec_sys.run_relation [of "\<lambda>a b. (plan_step ts)\<^sup>*\<^sup>* (plan_of ts a) (plan_of ts b)" X ts s s'] assms
  by (auto intro: rtranclp_trans exec_step_plan)

lemma reported_plan_over:
  assumes "runnable X ts" "exec_reaches X ts s" "xs_pc s = Reported r"
  shows "plan_over ts (plan_of ts s)"
proof -
  define l where "l = xs_ledger s"
  have running: "t \<in> set (task_ids ts) \<Longrightarrow> state_of l t \<noteq> TsRunning"
    and stopped: "xs_cancel_seen s \<Longrightarrow> t \<in> set (task_ids ts) \<Longrightarrow> is_terminal (state_of l t)"
    and ready: "\<not> xs_cancel_seen s \<Longrightarrow> t \<in> set (task_ids ts) \<Longrightarrow> state_of l t \<noteq> TsReady"
    and still: "\<not> xs_cancel_seen s \<Longrightarrow> settled ts l" for t
    using reported_facts [OF assms] by (auto simp: l_def task_st_def none_ready_def)
  have ph: "pl_phase (plan_of ts s) t = Some a \<longleftrightarrow> t \<in> set (task_ids ts) \<and> phase_of (state_of l t) = a" for t a
    by (simp add: plan_of_def plan_at_def l_def)
  have st: "pl_stopped (plan_of ts s) = xs_cancel_seen s" by (simp add: plan_of_def)
  have wf: "wf_spec ts" by (rule reaches_ledger(1) [OF assms(1,2)])
  have node: "tn_id n \<in> set (task_ids ts) \<and> node_of ts (tn_id n) = n" if "n \<in> set ts" for n
    using that wf node_of_mem [of ts n] by (auto simp: wf_spec_def task_ids_def)
  have final: "is_terminal a \<Longrightarrow> phase_of a \<notin> {PhPending, PhReady, PhWaiting}" for a by (cases a) auto
  show ?thesis
    unfolding plan_over_def
  proof (intro allI impI)
    fix q
    assume "plan_step ts (plan_of ts s) q"
    then show "\<not> pl_stopped (plan_of ts s) \<and> q = (plan_of ts s)\<lparr>pl_stopped := True\<rparr>"
    proof (cases rule: plan_step.cases)
      case (plan_ready n)
      then have "actionable ts l (tn_id n)" using node by (auto simp: actionable_def ph)
      with plan_ready node still show ?thesis by (auto simp: settled_def st)
    next
      case (plan_skip n)
      then have "actionable ts l (tn_id n)" using node by (auto simp: actionable_def ph ended_badly_phase)
      with plan_skip node still show ?thesis by (auto simp: settled_def st)
    next
      case (plan_begin t)
      with ready [of t] show ?thesis by (auto simp: ph st)
    next
      case (plan_end t a)
      with running show ?thesis by (auto simp: ph)
    next
      case plan_stop
      then show ?thesis by simp
    next
      case (plan_cancel t)
      with stopped [of t] final show ?thesis by (auto simp: ph st)
    qed
  qed
qed

lemma report_plan_status: "report_status ts (xs_cancel_seen s) (xs_ledger s) = plan_status (plan_of ts s)"
proof -
  have "Some PhWaiting \<in> range (pl_phase (plan_of ts s)) \<longleftrightarrow>
      (\<exists>t\<in>set (task_ids ts). state_of (xs_ledger s) t = TsWaitingForApproval)"
    by (auto simp: plan_of_def plan_at_def image_iff)
  moreover have "(\<forall>t\<in>dom (pl_phase (plan_of ts s)). pl_phase (plan_of ts s) t = Some PhCompleted) \<longleftrightarrow>
      (\<forall>t\<in>set (task_ids ts). state_of (xs_ledger s) t = TsCompleted)"
    by (auto simp: plan_of_def plan_at_def split: if_splits)
  ultimately show ?thesis
    by (simp add: report_status_def plan_status_def list_ex_iff list_all_iff) (simp add: plan_of_def)
qed

text \<open>
  C2: The executor refines the plan. Whatever the coordinator, the bodies, the caller and the clock do, every state
  of a run is one that the plan reaches from all tasks pending, by its own steps alone. When the executor
  reports, the status it reports is the plan's, and the plan is over: nothing could happen to it any more but
  being stopped, so the executor never gives up while a task could be readied, skipped, started or ended.
\<close>

theorem dag_refines_plan:
  assumes "runnable X ts" "exec_start X ts s0" "(exec_step X ts)\<^sup>*\<^sup>* s0 s"
  shows "(plan_step ts)\<^sup>*\<^sup>* (start_plan ts) (plan_of ts s) \<and>
    (\<forall>r. xs_pc s = Reported r \<longrightarrow> wr_status r = plan_status (plan_of ts s) \<and> plan_over ts (plan_of ts s))"
proof -
  have reach: "exec_reaches X ts s0" "exec_reaches X ts s" using assms(2,3) by (auto simp: exec_reaches_def)
  have "plan_of ts s0 = start_plan ts"
    using assms(2) by (auto simp: exec_start_iff plan_of_def start_exec_def start_plan_at)
  moreover have "(plan_step ts)\<^sup>*\<^sup>* (plan_of ts s0) (plan_of ts s)"
    using reaches_inv [OF assms(1) reach(1)] assms(3) by (rule plan_run)
  moreover have "wr_status r = plan_status (plan_of ts s)" if "xs_pc s = Reported r" for r
    using reported_facts(1) [OF assms(1) reach(2) that] by (simp add: report_def Let_def report_plan_status)
  moreover have "plan_over ts (plan_of ts s)" if "xs_pc s = Reported r" for r
    using reported_plan_over [OF assms(1) reach(2) that] .
  ultimately show ?thesis by simp
qed

text \<open>The diamond of \<open>DagProps\<close> whose task \<open>c\<close> waits for approval, and what stays behind it.\<close>

lemma approval_run: "(exec_step (demo_executor 2) diamond_tasks)\<^sup>*\<^sup>* (start_exec diamond_tasks False False) approval_end"
proof -
  have "follow (demo_executor 2) diamond_tasks approval_schedule (start_exec diamond_tasks False False) \<noteq> None"
    by code_simp
  then show ?thesis unfolding approval_end_def by (intro follow_steps) auto
qed

theorem dag_refines_plan_witness:
  "(plan_step diamond_tasks)\<^sup>*\<^sup>* (start_plan diamond_tasks) (plan_of diamond_tasks approval_end) \<and>
   plan_over diamond_tasks (plan_of diamond_tasks approval_end) \<and>
   plan_status (plan_of diamond_tasks approval_end) = WsWaitingForApproval \<and>
   pl_phase (plan_of diamond_tasks approval_end) ''d'' = Some PhPending"
proof -
  have "wr_status approval_report = WsWaitingForApproval"
    "pl_phase (plan_of diamond_tasks approval_end) ''d'' = Some PhPending" by code_simp+
  moreover have "exec_start (demo_executor 2) diamond_tasks (start_exec diamond_tasks False False)"
    by (simp add: exec_start_iff, blast)
  ultimately show ?thesis using dag_refines_plan [OF demo_two _ approval_run] approval_reported by simp
qed

end
