(* ===== verification/Security.thy ===== *)
theory Security
  imports RustStr
begin

text \<open>
  \<open>src/security.rs\<close>: workspace-bound path resolution and the catalog of local commands. Paths are
  strings; their components, their comparison and \<open>push\<close> are those of \<open>std::path\<close> on Unix. The file
  system is a parameter: a world and the calls the source makes on it. Only the errors' texts and the
  world are left to it; which path is asked for, and what is done with the answer, is the source's.
\<close>

section \<open>Errors\<close>

datatype security_error =
    AccessDenied string
  | PathNotFound string
  | InvalidPath string
  | IoError string
  | CommandFailed string

fun show_security_error :: "security_error \<Rightarrow> string" where
  "show_security_error (AccessDenied msg) = ''Security rejection: '' @ msg"
| "show_security_error (PathNotFound msg) = ''Path not found: '' @ msg"
| "show_security_error (InvalidPath msg) = msg"
| "show_security_error (IoError msg) = ''I/O error: '' @ msg"
| "show_security_error (CommandFailed msg) = ''Command execution failed: '' @ msg"

section \<open>Paths\<close>

datatype path_component = RootDir | CurDir | ParentDir | Normal string

fun split_slash :: "string \<Rightarrow> string list" where
  "split_slash [] = [[]]"
| "split_slash (c # cs) =
     (if c = CHR ''/'' then [] # split_slash cs
      else (case split_slash cs of [] \<Rightarrow> [[c]] | w # ws \<Rightarrow> (c # w) # ws))"

definition piece_component :: "string \<Rightarrow> path_component option" where
  "piece_component w =
     (if w = [] \<or> w = ''.'' then None else if w = ''..'' then Some ParentDir else Some (Normal w))"

definition is_absolute :: "string \<Rightarrow> bool" where
  "is_absolute p = starts_with p ''/''"

text \<open>\<open>Path::components\<close>: \<open>.\<close> is kept only at the start of a relative path.\<close>

definition path_components :: "string \<Rightarrow> path_component list" where
  "path_components p =
     (let ws = split_slash p; body = List.map_filter piece_component ws
      in if is_absolute p then RootDir # body
         else if hd ws = ''.'' then CurDir # body
         else body)"

fun component_str :: "path_component \<Rightarrow> string" where
  "component_str RootDir = ''/''"
| "component_str CurDir = ''.''"
| "component_str ParentDir = ''..''"
| "component_str (Normal s) = s"

definition path_push :: "string \<Rightarrow> string \<Rightarrow> string" where
  "path_push p q =
     (if is_absolute q then q
      else if p = [] \<or> last p = CHR ''/'' then p @ q
      else p @ ''/'' @ q)"

text \<open>\<open>iter().collect::<PathBuf>()\<close>, and \<open>Path::parent\<close> of a path given by its components.\<close>

definition path_collect :: "string list \<Rightarrow> string" where
  "path_collect ws = fold (\<lambda>w p. path_push p w) ws []"

definition path_starts_with :: "string \<Rightarrow> string \<Rightarrow> bool" where
  "path_starts_with p root = prefix (path_components root) (path_components p)"

text \<open>\<open>normalize_path\<close>: a stack of component texts; popping an empty stack does nothing.\<close>

definition normalize_step :: "path_component \<Rightarrow> string list \<Rightarrow> string list" where
  "normalize_step c stack = (case c of
       CurDir \<Rightarrow> stack
     | ParentDir \<Rightarrow> butlast stack
     | _ \<Rightarrow> stack @ [component_str c])"

definition normalize_stack :: "string \<Rightarrow> string list" where
  "normalize_stack p = fold normalize_step (path_components p) []"

definition normalize_path :: "string \<Rightarrow> string" where
  "normalize_path p = path_collect (normalize_stack p)"

section \<open>The file system\<close>

record 'w fs =
  fs_exists :: "'w \<Rightarrow> string \<Rightarrow> bool"
  fs_canonicalize :: "'w \<Rightarrow> string \<Rightarrow> string + string"
  fs_is_dir :: "'w \<Rightarrow> string \<Rightarrow> bool"
  fs_create_dir_all :: "'w \<Rightarrow> string \<Rightarrow> (string + unit) \<times> 'w"
  fs_env :: "'w \<Rightarrow> string \<Rightarrow> string option"
  fs_current_dir :: "'w \<Rightarrow> string option"

section \<open>The capability\<close>

text \<open>\<open>WorkspaceCapability\<close> is its root.\<close>

definition new_workspace :: "'w fs \<Rightarrow> string \<Rightarrow> 'w \<Rightarrow> (security_error + string) \<times> 'w" where
  "new_workspace F p w =
     (let (made, w') = (if fs_exists F w p then (Inr (), w) else fs_create_dir_all F w p)
      in (case made of
            Inl e \<Rightarrow> Inl (IoError (''Failed to create workspace directory '' @ p @ '': '' @ e))
          | Inr _ \<Rightarrow>
              map_err (\<lambda>e. IoError (''Failed to canonicalize workspace root '' @ p @ '': '' @ e))
                (fs_canonicalize F w' p),
          w'))"

definition detect_workspace :: "'w fs \<Rightarrow> 'w \<Rightarrow> string \<times> 'w" where
  "detect_workspace F w0 =
     (let attempt = (\<lambda>p w. case p of
            None \<Rightarrow> (None, w)
          | Some p \<Rightarrow> (case new_workspace F p w of (Inr r, w') \<Rightarrow> (Some r, w') | (Inl _, w') \<Rightarrow> (None, w')));
          home = (\<lambda>w. case fs_env F w ''HOME'' of
            None \<Rightarrow> None
          | Some h \<Rightarrow> (let c = path_push h ''workspace'' in if fs_exists F w c then Some c else None));
          (r1, w1) = attempt (fs_env F w0 ''AEGIS_WORKSPACE'') w0
      in case r1 of Some r \<Rightarrow> (r, w1) | None \<Rightarrow>
        (let (r2, w2) = attempt (fs_current_dir F w1) w1
         in case r2 of Some r \<Rightarrow> (r, w2) | None \<Rightarrow>
           (let (r3, w3) = attempt (home w2) w2
            in case r3 of Some r \<Rightarrow> (r, w3) | None \<Rightarrow>
              ((case fs_canonicalize F w3 ''.'' of Inr c \<Rightarrow> c | Inl _ \<Rightarrow> ''.''), w3))))"

definition resolve_read_path :: "'w fs \<Rightarrow> 'w \<Rightarrow> string \<Rightarrow> string \<Rightarrow> security_error + string" where
  "resolve_read_path F w root requested =
     (let trimmed = trim requested in
      if trimmed = [] then Inl (InvalidPath ''Path cannot be empty'')
      else
        (let candidate = (if is_absolute trimmed then trimmed else path_push root trimmed) in
         if \<not> fs_exists F w candidate then Inl (PathNotFound (''File does not exist: '' @ trimmed))
         else try_bind
           (map_err (\<lambda>e. IoError (''Failed to canonicalize path '' @ trimmed @ '': '' @ e))
              (fs_canonicalize F w candidate))
           (\<lambda>canonical.
              if \<not> path_starts_with canonical root
              then Inl (AccessDenied (''Path '' @ canonical @ '' escapes authorized workspace root '' @ root))
              else Inr canonical)))"

text \<open>
  The loop over the parents of the normalized path: the first that exists, canonicalized.
  \<open>parent()\<close> is the path without its last component unless that is the root.
\<close>

function nearest_ancestor ::
  "'w fs \<Rightarrow> 'w \<Rightarrow> string list \<Rightarrow> security_error + (string list \<times> string) option" where
  "nearest_ancestor F w cur =
     (if cur = [] \<or> last cur = ''/'' then Inr None
      else
        (let parent = butlast cur; p = path_collect parent in
         if fs_exists F w p then
           map_err (\<lambda>e. IoError (''Failed to canonicalize ancestor '' @ p @ '': '' @ e))
             (case fs_canonicalize F w p of Inl e \<Rightarrow> Inl e | Inr a \<Rightarrow> Inr (Some (parent, a)))
         else nearest_ancestor F w parent))"
  by pat_completeness auto
termination
  by (relation "measure (\<lambda>(F, w, cur). length cur)") (auto simp: Let_def)

declare nearest_ancestor.simps [simp del]

definition resolve_write_path :: "'w fs \<Rightarrow> 'w \<Rightarrow> string \<Rightarrow> string \<Rightarrow> security_error + string" where
  "resolve_write_path F w root requested =
     (let trimmed = trim requested in
      if trimmed = [] then Inl (InvalidPath ''Path cannot be empty'')
      else
        (let raw_target = (if is_absolute trimmed then trimmed else path_push root trimmed);
             normalized = normalize_path raw_target
         in try_bind (nearest_ancestor F w (normalize_stack raw_target)) (\<lambda>existing.
              case existing of
                None \<Rightarrow> Inl (AccessDenied (''No valid ancestor directory found for '' @ trimmed))
              | Some (_, ancestor) \<Rightarrow>
                  if \<not> path_starts_with ancestor root
                  then Inl (AccessDenied (''Target ancestor '' @ ancestor @
                    '' escapes authorized workspace root '' @ root))
                  else if \<not> path_starts_with normalized root
                  then Inl (AccessDenied (''Normalized target path '' @ normalized @
                    '' escapes authorized workspace root '' @ root))
                  else Inr normalized)))"

definition resolve_dir_path :: "'w fs \<Rightarrow> 'w \<Rightarrow> string \<Rightarrow> string option \<Rightarrow> security_error + string" where
  "resolve_dir_path F w root requested =
     (let target = (case requested of
            Some d \<Rightarrow>
              if trim d \<noteq> [] \<and> trim d \<noteq> ''.''
              then (if is_absolute (trim d) then trim d else path_push root (trim d))
              else root
          | None \<Rightarrow> root)
      in if \<not> fs_exists F w target then Inl (PathNotFound (''Directory does not exist: '' @ target))
         else try_bind
           (map_err (\<lambda>e. IoError (''Failed to canonicalize directory '' @ target @ '': '' @ e))
              (fs_canonicalize F w target))
           (\<lambda>canonical.
              if \<not> fs_is_dir F w canonical
              then Inl (InvalidPath (''Path is not a directory: '' @ canonical))
              else if \<not> path_starts_with canonical root
              then Inl (AccessDenied (''Directory '' @ canonical @ '' escapes authorized workspace root '' @ root))
              else Inr canonical))"

section \<open>The catalog of local commands\<close>

definition shell_metacharacters :: string where
  "shell_metacharacters =
     [CHR '';'', CHR ''|'', CHR ''&'', CHR ''$'', CHR ''<'', CHR ''>'', CHR 0x60, CHR 0x5C, CHR 0x0A,
      CHR 0x0D, CHR ''('', CHR '')'', CHR ''{'', CHR ''}'', CHR ''!'', CHR ''*'', CHR ''?'', CHR ''['',
      CHR '']'', CHR 0x27, CHR 0x22]"

definition local_forms :: "string list list" where
  "local_forms =
     [[''git'', ''status''], [''git'', ''diff''], [''git'', ''log'', ''-1'', ''--oneline''], [''ls'']]"

definition admit_local_command :: "string \<Rightarrow> security_error + unit" where
  "admit_local_command command =
     (if list_ex (\<lambda>c. c \<in> set shell_metacharacters) command
      then Inl (AccessDenied ''Command is not a local form. Shell joining, substitution, and quoting are not local execution.'')
      else if split_whitespace command \<in> set local_forms then Inr ()
      else Inl (AccessDenied ''Command is not eligible for local shell. Local execution is only the catalogued forms: git status, git diff, git log -1 --oneline, and ls. Anything else needs a typed tool.''))"

section \<open>Normalized paths\<close>

definition name_ok :: "string \<Rightarrow> bool" where
  "name_ok s \<longleftrightarrow> s \<noteq> [] \<and> s \<noteq> ''.'' \<and> s \<noteq> ''..'' \<and> CHR ''/'' \<notin> set s"

lemma split_slash_nonempty [simp]: "split_slash s \<noteq> []"
  by (cases s) (auto split: list.split)

lemma split_slash_append: "split_slash (p @ CHR ''/'' # q) = split_slash p @ split_slash q"
proof (induction p)
  case (Cons c p)
  then show ?case by (auto split: list.split)
qed simp

lemma split_slash_name: "CHR ''/'' \<notin> set s \<Longrightarrow> split_slash s = [s]"
  by (induction s) auto

lemma split_slash_no_slash: "w \<in> set (split_slash s) \<Longrightarrow> CHR ''/'' \<notin> set w"
  by (induction s arbitrary: w) (auto split: list.splits if_splits)

lemma name_ok_relative: "name_ok s \<Longrightarrow> \<not> is_absolute s"
  by (cases s) (auto simp: name_ok_def is_absolute_def starts_with_def)

lemma name_ok_component: "name_ok s \<Longrightarrow> piece_component s = Some (Normal s)"
  by (simp add: name_ok_def piece_component_def)

lemma name_ok_last: "name_ok s \<Longrightarrow> last s \<noteq> CHR ''/''"
  by (metis last_in_set name_ok_def)

lemma push_names:
  assumes "p \<noteq> []" "last p \<noteq> CHR ''/''" "list_all name_ok ns"
  shows "fold (\<lambda>w p. path_push p w) ns p = p @ concat (map (\<lambda>n. CHR ''/'' # n) ns)"
  using assms
proof (induction ns arbitrary: p)
  case (Cons n ns)
  have n: "name_ok n" "n \<noteq> []" using Cons.prems by (auto simp: name_ok_def)
  have "fold (\<lambda>w p. path_push p w) (n # ns) p = fold (\<lambda>w p. path_push p w) ns (p @ ''/'' @ n)"
    using Cons.prems name_ok_relative [OF n(1)] by (simp add: path_push_def)
  then show ?case
    using Cons.IH [of "p @ ''/'' @ n"] Cons.prems n name_ok_last [OF n(1)] by simp
qed simp

lemma pieces_of_names:
  "list_all name_ok ns \<Longrightarrow> List.map_filter piece_component ns = map Normal ns"
  by (induction ns) (simp_all add: name_ok_component)

lemma split_names:
  assumes "list_all name_ok (n # ns)"
  shows "split_slash (n @ concat (map (\<lambda>m. CHR ''/'' # m) ns)) = n # ns"
  using assms
proof (induction ns arbitrary: n)
  case Nil
  then show ?case by (simp add: split_slash_name name_ok_def)
next
  case (Cons m ns)
  then show ?case
    by (simp add: split_slash_append split_slash_name name_ok_def)
qed

lemma components_of_names:
  assumes "list_all name_ok ns"
  shows "path_components (path_collect ns) = map Normal ns"
proof (cases ns)
  case Nil
  then show ?thesis
    by (simp add: path_collect_def path_components_def is_absolute_def starts_with_def piece_component_def)
next
  case (Cons n ms)
  then have n: "name_ok n" "n \<noteq> []" "list_all name_ok ms" using assms by (auto simp: name_ok_def)
  have "path_collect ns = n @ concat (map (\<lambda>m. CHR ''/'' # m) ms)"
    using push_names [OF n(2) name_ok_last [OF n(1)] n(3)] name_ok_relative [OF n(1)] Cons
    by (simp add: path_collect_def path_push_def)
  moreover have "\<not> is_absolute (n @ x)" for x
    using n name_ok_relative [OF n(1)] by (cases n) (auto simp: is_absolute_def starts_with_def)
  moreover have "n \<noteq> ''.''" using n by (simp add: name_ok_def)
  ultimately show ?thesis
    using split_names [of n ms] assms Cons pieces_of_names [OF assms]
    by (simp add: path_components_def Let_def)
qed

lemma components_of_rooted:
  assumes "list_all name_ok ns"
  shows "path_components (path_collect (''/'' # ns)) = RootDir # map Normal ns"
proof (cases ns)
  case Nil
  then show ?thesis
    by (simp add: path_collect_def path_components_def is_absolute_def starts_with_def piece_component_def
        path_push_def)
next
  case (Cons n ms)
  then have n: "name_ok n" "n \<noteq> []" "list_all name_ok ms" using assms by (auto simp: name_ok_def)
  have l: "last (CHR ''/'' # n) \<noteq> CHR ''/''" using name_ok_last [OF n(1)] n(2) by simp
  have "path_collect (''/'' # ns) = CHR ''/'' # n @ concat (map (\<lambda>m. CHR ''/'' # m) ms)"
    using push_names [OF _ l n(3)] name_ok_relative [OF n(1)] Cons
    by (simp add: path_collect_def path_push_def is_absolute_def starts_with_def)
  then show ?thesis
    using split_names [of n ms] assms Cons pieces_of_names [OF assms]
    by (simp add: path_components_def is_absolute_def starts_with_def piece_component_def)
qed

text \<open>A normalized stack: names, possibly behind the root.\<close>

definition stack_ok :: "string list \<Rightarrow> bool" where
  "stack_ok stack \<longleftrightarrow> list_all name_ok stack \<or> (\<exists>ns. stack = ''/'' # ns \<and> list_all name_ok ns)"

lemma stack_ok_snoc: "stack_ok stack \<Longrightarrow> name_ok n \<Longrightarrow> stack_ok (stack @ [n])"
  by (auto simp: stack_ok_def)

lemma stack_ok_butlast: "stack_ok stack \<Longrightarrow> stack_ok (butlast stack)"
  by (cases stack) (auto simp: stack_ok_def list_all_iff dest: in_set_butlastD)

lemma normalize_fold_ok:
  assumes "stack_ok stack" "\<forall>c\<in>set cs. c \<noteq> RootDir \<and> (\<forall>s. c = Normal s \<longrightarrow> name_ok s)"
  shows "stack_ok (fold normalize_step cs stack)"
  using assms
proof (induction cs arbitrary: stack)
  case (Cons c cs)
  then have "stack_ok (normalize_step c stack)"
    by (cases c) (simp_all add: normalize_step_def stack_ok_snoc stack_ok_butlast)
  with Cons show ?case by simp
qed simp

lemma piece_components_ok:
  assumes "c \<in> set (List.map_filter piece_component (split_slash p))"
  shows "c \<noteq> RootDir \<and> c \<noteq> CurDir \<and> (\<forall>s. c = Normal s \<longrightarrow> name_ok s)"
proof -
  obtain w where w: "w \<in> set (split_slash p)" "piece_component w = Some c"
    using assms by (auto simp: List.map_filter_def)
  with split_slash_no_slash [OF w(1)] show ?thesis
    by (auto simp: piece_component_def name_ok_def split: if_splits)
qed

lemma normalize_stack_ok: "stack_ok (normalize_stack p)"
proof -
  define body where "body = List.map_filter piece_component (split_slash p)"
  have b: "\<forall>c\<in>set body. c \<noteq> RootDir \<and> (\<forall>s. c = Normal s \<longrightarrow> name_ok s)"
    using piece_components_ok by (auto simp: body_def)
  have "stack_ok [''/'']" "stack_ok []" by (simp_all add: stack_ok_def)
  with normalize_fold_ok [OF _ b] show ?thesis
    by (auto simp: normalize_stack_def path_components_def Let_def body_def [symmetric] normalize_step_def)
qed

text \<open>The components of a collected stack are the stack's.\<close>

fun stack_component :: "string \<Rightarrow> path_component" where
  "stack_component s = (if s = ''/'' then RootDir else Normal s)"

lemma components_of_stack:
  assumes "stack_ok stack"
  shows "path_components (path_collect stack) = map stack_component stack"
proof -
  have m: "list_all name_ok ns \<Longrightarrow> map stack_component ns = map Normal ns" for ns
    by (induction ns) (auto simp: name_ok_def)
  from assms show ?thesis
    unfolding stack_ok_def
    by (auto simp: components_of_names components_of_rooted m simp del: stack_component.simps)
      (simp add: m)
qed

lemma stack_ok_no_dots:
  "ParentDir \<notin> set (map stack_component stack) \<and> CurDir \<notin> set (map stack_component stack)"
  by auto

subsection \<open>The nearest existing ancestor\<close>

lemma nearest_ancestor_Some:
  assumes "nearest_ancestor F w cur = Inr (Some (anc, a))"
  shows "\<exists>rest. cur = anc @ rest \<and> rest \<noteq> [] \<and> ''/'' \<notin> set rest \<and> fs_exists F w (path_collect anc) \<and>
    fs_canonicalize F w (path_collect anc) = Inr a \<and>
    (\<forall>k. 0 < k \<and> k < length rest \<longrightarrow> \<not> fs_exists F w (path_collect (anc @ take k rest)))"
  using assms
proof (induction F w cur rule: nearest_ancestor.induct)
  case (1 F w cur)
  have ne: "cur \<noteq> []" "last cur \<noteq> ''/''"
    using "1.prems" by (auto simp: nearest_ancestor.simps [of F w cur] split: if_splits)
  have cur: "cur = butlast cur @ [last cur]" using ne by simp
  show ?case
  proof (cases "fs_exists F w (path_collect (butlast cur))")
    case True
    with "1.prems" ne have "anc = butlast cur" "fs_canonicalize F w (path_collect anc) = Inr a"
      by (auto simp: nearest_ancestor.simps [of F w cur] Let_def split: sum.splits)
    with True ne cur show ?thesis by (intro exI [of _ "[last cur]"]) auto
  next
    case False
    then have "nearest_ancestor F w (butlast cur) = Inr (Some (anc, a))"
      using "1.prems" ne by (simp add: nearest_ancestor.simps [of F w cur] Let_def)
    from "1.IH" [OF _ refl refl False this] ne obtain rest where
      r: "butlast cur = anc @ rest" "rest \<noteq> []" "fs_exists F w (path_collect anc)"
        "fs_canonicalize F w (path_collect anc) = Inr a"
        "\<forall>k. 0 < k \<and> k < length rest \<longrightarrow> \<not> fs_exists F w (path_collect (anc @ take k rest))"
        "''/'' \<notin> set rest"
      by auto
    have "\<not> fs_exists F w (path_collect (anc @ take k (rest @ [last cur])))"
      if "0 < k" "k < length (rest @ [last cur])" for k
      using that r(1,5) False by (cases "k = length rest") auto
    moreover have "cur = anc @ rest @ [last cur]" by (subst cur, subst r(1)) simp
    moreover have "''/'' \<notin> set (rest @ [last cur])" using r(6) ne by auto
    ultimately show ?thesis using r(3,4) by blast
  qed
qed

section \<open>What a resolved path is\<close>

text \<open>The canonical location of something that exists, under the root.\<close>

definition real_inside :: "'w fs \<Rightarrow> 'w \<Rightarrow> string \<Rightarrow> string \<Rightarrow> bool" where
  "real_inside F w root p \<longleftrightarrow> path_starts_with p root \<and> (\<exists>q. fs_exists F w q \<and> fs_canonicalize F w q = Inr p)"

text \<open>
  A path without dots that extends an existing one by names, no proper extension existing in between, where the
  existing one is really inside the root. The path itself may exist or not.
\<close>

definition extends_real :: "'w fs \<Rightarrow> 'w \<Rightarrow> string \<Rightarrow> string list \<Rightarrow> string \<Rightarrow> bool" where
  "extends_real F w root rest p \<longleftrightarrow> ParentDir \<notin> set (path_components p) \<and> CurDir \<notin> set (path_components p) \<and>
     (\<exists>anc a. path_components p = path_components anc @ map Normal rest \<and>
        fs_exists F w anc \<and> fs_canonicalize F w anc = Inr a \<and> path_starts_with a root \<and>
        (\<forall>k. 0 < k \<and> k < length rest \<longrightarrow> \<not> fs_exists F w (fold (\<lambda>n q. path_push q n) (take k rest) anc)))"

definition write_inside :: "'w fs \<Rightarrow> 'w \<Rightarrow> string \<Rightarrow> string \<Rightarrow> bool" where
  "write_inside F w root p \<longleftrightarrow> path_starts_with p root \<and> (\<exists>rest. rest \<noteq> [] \<and> extends_real F w root rest p)"

text \<open>
  The root is real: it and the directories above it are their own canonical locations, as they were when the
  capability was made of a canonicalized path.
\<close>

definition root_real :: "'w fs \<Rightarrow> 'w \<Rightarrow> string \<Rightarrow> bool" where
  "root_real F w root \<longleftrightarrow> (\<forall>q a. prefix (path_components q) (path_components root) \<and> fs_exists F w q \<and>
     fs_canonicalize F w q = Inr a \<longrightarrow> path_components a = path_components q)"

text \<open>
  Directories made for a file: below a directory really inside the root, on a path that, while the root is real,
  extends the root itself.
\<close>

definition dirs_inside :: "'w fs \<Rightarrow> 'w \<Rightarrow> string \<Rightarrow> string \<Rightarrow> bool" where
  "dirs_inside F w root d \<longleftrightarrow> (\<exists>rest. extends_real F w root rest d) \<and> (root_real F w root \<longrightarrow> path_starts_with d root)"

text \<open>\<open>Path::parent\<close>\<close>

definition path_parent :: "string \<Rightarrow> string option" where
  "path_parent p = (let cs = path_components p in
     if cs = [] \<or> last cs = RootDir then None else Some (path_collect (map component_str (butlast cs))))"

lemma read_resolved: "resolve_read_path F w root req = Inr p \<Longrightarrow> real_inside F w root p"
  unfolding resolve_read_path_def real_inside_def Let_def by (auto simp: try_bind_Inr_iff split: if_splits)

lemma dir_resolved: "resolve_dir_path F w root dir = Inr p \<Longrightarrow> real_inside F w root p \<and> fs_is_dir F w p"
  unfolding resolve_dir_path_def real_inside_def Let_def by (auto simp: try_bind_Inr_iff split: if_splits)

text \<open>The path for writing, with the stack it was collected from.\<close>

lemma write_resolved:
  assumes "resolve_write_path F w root req = Inr p"
  obtains stack where "stack_ok stack" "p = path_collect stack" "write_inside F w root p"
proof -
  define raw where "raw = (if is_absolute (trim req) then trim req else path_push root (trim req))"
  from assms obtain anc a where n: "nearest_ancestor F w (normalize_stack raw) = Inr (Some (anc, a))"
    and a: "path_starts_with a root" and p: "p = normalize_path raw" "path_starts_with p root"
    by (auto simp: resolve_write_path_def Let_def raw_def [symmetric] try_bind_Inr_iff split: if_splits option.splits)
  obtain rest where r: "normalize_stack raw = anc @ rest" "rest \<noteq> []" "''/'' \<notin> set rest"
      "fs_exists F w (path_collect anc)" "fs_canonicalize F w (path_collect anc) = Inr a"
      "\<forall>k. 0 < k \<and> k < length rest \<longrightarrow> \<not> fs_exists F w (path_collect (anc @ take k rest))"
    using nearest_ancestor_Some [OF n] by blast
  have ok: "stack_ok (anc @ rest)" using normalize_stack_ok [of raw] r(1) by simp
  have "stack_ok anc"
    using ok r(3) by (auto simp: stack_ok_def append_eq_Cons_conv)
  then have anc: "path_components (path_collect anc) = map stack_component anc"
    by (rule components_of_stack)
  have cp: "path_components p = map stack_component (anc @ rest)"
    using components_of_stack [OF ok] p(1) r(1) by (simp add: normalize_path_def)
  have "map stack_component rest = map Normal rest" using r(3) by (induction rest) auto
  with cp anc have "path_components p = path_components (path_collect anc) @ map Normal rest" by simp
  moreover have "\<forall>k. 0 < k \<and> k < length rest \<longrightarrow>
      \<not> fs_exists F w (fold (\<lambda>n q. path_push q n) (take k rest) (path_collect anc))"
    using r(6) by (simp add: path_collect_def)
  moreover have "ParentDir \<notin> set (path_components p) \<and> CurDir \<notin> set (path_components p)"
    using stack_ok_no_dots [of "anc @ rest"] unfolding cp .
  ultimately have "extends_real F w root rest p"
    unfolding extends_real_def using a r(4,5) by blast
  then have "write_inside F w root p" using p(2) r(2) unfolding write_inside_def by blast
  then show ?thesis using that [OF ok] p(1) r(1) by (simp add: normalize_path_def)
qed

text \<open>The directory of a path for writing, in which its file is made.\<close>

lemma write_parent:
  assumes "resolve_write_path F w root req = Inr p" "path_parent p = Some d"
  shows "dirs_inside F w root d"
proof -
  obtain stack where st: "stack_ok stack" "p = path_collect stack" "write_inside F w root p"
    by (rule write_resolved [OF assms(1)])
  note comps = components_of_stack [OF st(1), folded st(2)]
  have collect: "map component_str (map stack_component xs) = xs" for xs by (induction xs) auto
  have d: "d = path_collect (butlast stack)"
    using assms(2) collect [of "butlast stack"] by (auto simp: path_parent_def comps Let_def map_butlast split: if_splits)
  have dc: "path_components d = butlast (path_components p)"
    using components_of_stack [OF stack_ok_butlast [OF st(1)]] by (simp add: d comps map_butlast)
  from st(3) obtain rest anc a where r: "rest \<noteq> []" "path_components p = path_components anc @ map Normal rest"
      "fs_exists F w anc" "fs_canonicalize F w anc = Inr a" "path_starts_with a root" "path_starts_with p root"
      "\<forall>k. 0 < k \<and> k < length rest \<longrightarrow> \<not> fs_exists F w (fold (\<lambda>n q. path_push q n) (take k rest) anc)"
      "ParentDir \<notin> set (path_components p)" "CurDir \<notin> set (path_components p)"
    unfolding write_inside_def extends_real_def by blast
  have dd: "path_components d = path_components anc @ map Normal (butlast rest)"
    using r(1) by (simp add: dc r(2) butlast_append map_butlast)
  have "extends_real F w root (butlast rest) d"
    unfolding extends_real_def
  proof (intro conjI exI)
    show "ParentDir \<notin> set (path_components d)" "CurDir \<notin> set (path_components d)"
      using r(8,9) by (auto simp: dc dest: in_set_butlastD)
    show "\<forall>k. 0 < k \<and> k < length (butlast rest) \<longrightarrow>
        \<not> fs_exists F w (fold (\<lambda>n q. path_push q n) (take k (butlast rest)) anc)"
      using r(7) by (auto simp: take_butlast)
  qed (use dd r(3-5) in simp_all)
  moreover have "path_starts_with d root" if "root_real F w root"
  proof (rule ccontr)
    assume out: "\<not> path_starts_with d root"
    have ne: "path_components p \<noteq> []" using r(1,2) by simp
    have "prefix (path_components root) (butlast (path_components p) @ [last (path_components p)])"
      using r(6) ne by (simp add: path_starts_with_def)
    with out have eq: "path_components root = path_components p"
      using ne by (simp only: path_starts_with_def dc prefix_snoc append_butlast_last_id) simp
    have "prefix (path_components anc) (path_components root)" by (simp add: eq r(2))
    then have "path_components a = path_components anc" using that r(3,4) unfolding root_real_def by blast
    with r(1,2,5) eq show False by (auto simp: path_starts_with_def dest: prefix_length_le)
  qed
  ultimately show ?thesis unfolding dirs_inside_def by blast
qed

section \<open>Properties\<close>

text \<open>
  C32: A write target is inside the workspace, lexically and at its nearest existing ancestor: the
  resolved path has no dot components and extends the root component-wise; it is an existing
  directory path extended by plain names, none of the intermediate ones existing, and that
  ancestor's canonical location extends the root too.
\<close>

theorem write_path_contained:
  assumes "resolve_write_path F w root req = Inr p"
  shows "path_starts_with p root \<and> ParentDir \<notin> set (path_components p) \<and> CurDir \<notin> set (path_components p) \<and>
    (\<exists>anc a rest. rest \<noteq> [] \<and> path_components p = path_components anc @ map Normal rest \<and>
       fs_exists F w anc \<and> fs_canonicalize F w anc = Inr a \<and> path_starts_with a root \<and>
       (\<forall>k. 0 < k \<and> k < length rest \<longrightarrow> \<not> fs_exists F w (fold (\<lambda>n q. path_push q n) (take k rest) anc)))"
proof -
  obtain stack where "write_inside F w root p" by (rule write_resolved [OF assms])
  then show ?thesis unfolding write_inside_def extends_real_def by blast
qed

text \<open>
  A file system of named canonical locations: a directory \<open>/ws\<close> that holds a symbolic link
  \<open>/ws/link\<close> to \<open>/etc/passwd\<close>.
\<close>

definition linked_fs :: "unit fs" where
  "linked_fs =
     (let real = map_of [(''/'', ''/''), (''/ws'', ''/ws''), (''/ws/src'', ''/ws/src''),
            (''/etc/passwd'', ''/etc/passwd''), (''/ws/link'', ''/etc/passwd'')]
      in \<lparr>fs_exists = (\<lambda>_ p. real p \<noteq> None),
          fs_canonicalize = (\<lambda>_ p. case real p of Some q \<Rightarrow> Inr q | None \<Rightarrow> Inl ''not found''),
          fs_is_dir = (\<lambda>_ p. p \<in> {''/'', ''/ws'', ''/ws/src''}),
          fs_create_dir_all = (\<lambda>_ p. (Inl ''read-only'', ())),
          fs_env = (\<lambda>_ _. None), fs_current_dir = (\<lambda>_. None)\<rparr>)"

lemma linked_write: "resolve_write_path linked_fs () ''/ws'' ''src/../a/b.txt'' = Inr ''/ws/a/b.txt''"
  by code_simp

theorem write_path_contained_witness:
  "path_starts_with ''/ws/a/b.txt'' ''/ws'' \<and> ParentDir \<notin> set (path_components ''/ws/a/b.txt'')"
  using write_path_contained [OF linked_write] by blast

text \<open>
  The containment of writes stops at the last component: when the target itself is a symbolic
  link inside the workspace that points outside, the path is resolved for writing although its real
  location is not under the root, while the same request is refused for reading.
\<close>

lemma write_path_follows_final_link:
  "resolve_write_path linked_fs () ''/ws'' ''link'' = Inr ''/ws/link'' \<and>
   fs_canonicalize linked_fs () ''/ws/link'' = Inr ''/etc/passwd'' \<and>
   \<not> path_starts_with ''/etc/passwd'' ''/ws'' \<and>
   \<not> is_ok (resolve_read_path linked_fs () ''/ws'' ''link'')"
proof -
  have "resolve_write_path linked_fs () ''/ws'' ''link'' = Inr ''/ws/link''" by code_simp
  moreover have "fs_canonicalize linked_fs () ''/ws/link'' = Inr ''/etc/passwd''" by code_simp
  moreover have "\<not> path_starts_with ''/etc/passwd'' ''/ws''" by code_simp
  moreover have "\<not> is_ok (resolve_read_path linked_fs () ''/ws'' ''link'')" by code_simp
  ultimately show ?thesis by blast
qed

text \<open>
  What is resolved for reading, listing or running in is the canonical location of an existing
  path and extends the root component-wise, so neither a dotted path nor a symbolic link leads
  outside; a working directory is a directory.
\<close>

lemma read_and_dir_paths_contained:
  "(resolve_read_path F w root req = Inr p \<longrightarrow>
      path_starts_with p root \<and> (\<exists>q. fs_exists F w q \<and> fs_canonicalize F w q = Inr p)) \<and>
   (resolve_dir_path F w root dir = Inr d \<longrightarrow>
      path_starts_with d root \<and> fs_is_dir F w d \<and> (\<exists>q. fs_exists F w q \<and> fs_canonicalize F w q = Inr d))"
  unfolding resolve_read_path_def resolve_dir_path_def Let_def
  by (auto simp: try_bind_Inr_iff split: if_splits)

lemma read_and_dir_paths_contained_example:
  "path_starts_with ''/ws/src'' ''/ws'' \<and> fs_is_dir linked_fs () ''/ws/src''"
proof -
  have "resolve_dir_path linked_fs () ''/ws'' (Some ''./src'') = Inr ''/ws/src'' \<or>
      resolve_dir_path linked_fs () ''/ws'' (Some ''src'') = Inr ''/ws/src''" by code_simp
  then show ?thesis using read_and_dir_paths_contained [of linked_fs "()" "''/ws''" "''src''" "[]"] by blast
qed

end
