(* ===== verification/Enforcement.thy ===== *)
theory Enforcement
  imports Complex_Main Security Json
begin

text \<open>
  \<open>src/enforcement.rs\<close> and \<open>src/policy_guard.rs\<close>, and the shell entry points of
  \<open>src/security.rs\<close>: the deterministic membrane before every dispatch, the probe opinion behind it
  and the execution of an admitted command. The probe engine, the parser of decimal numbers, the
  formatting of a probability and the process that runs a command are parameters. A 64-bit float
  is not-a-number, an infinity or a rational; comparisons are the IEEE ones.
\<close>

section \<open>Floating-point comparisons\<close>

datatype f64 = NaN | PosInf | NegInf | Fin rat

fun f64_less :: "f64 \<Rightarrow> f64 \<Rightarrow> bool" where
  "f64_less NaN y = False"
| "f64_less x NaN = False"
| "f64_less PosInf y = False"
| "f64_less x NegInf = False"
| "f64_less NegInf y = True"
| "f64_less x PosInf = True"
| "f64_less (Fin a) (Fin b) = (a < b)"

fun f64_le :: "f64 \<Rightarrow> f64 \<Rightarrow> bool" where
  "f64_le NaN y = False"
| "f64_le x NaN = False"
| "f64_le NegInf y = True"
| "f64_le x PosInf = True"
| "f64_le PosInf y = False"
| "f64_le x NegInf = False"
| "f64_le (Fin a) (Fin b) = (a \<le> b)"

fun f64_is_finite :: "f64 \<Rightarrow> bool" where
  "f64_is_finite (Fin a) = True"
| "f64_is_finite _ = False"

section \<open>The membrane\<close>

definition ALLOWED_SKILLS :: "string list" where
  "ALLOWED_SKILLS = [''bash_eval'', ''read_file'', ''write_file'', ''list_dir'', ''git_status'',
     ''cortex.search'', ''cortex_recall'', ''telemetry_ping'']"

definition quoted :: "string \<Rightarrow> string" where
  "quoted s = [CHR 0x27] @ s @ [CHR 0x27]"

text \<open>\<open>escape_debug\<close> is the escaping of a skill name in the refusal's text.\<close>

definition pre_dispatch_check :: "(string \<Rightarrow> string) \<Rightarrow> string \<Rightarrow> json \<Rightarrow> string + unit" where
  "pre_dispatch_check escape_debug skill_name args =
     (if trim skill_name = [] then Inl ''Empty skill name is never dispatched''
      else if skill_name \<notin> set ALLOWED_SKILLS
      then Inl (''Skill '' @ quoted (escape_debug skill_name) @ '' is not on the dispatch allowlist'')
      else if \<not> (is_object args \<or> is_null args) then Inl ''Skill arguments must be a JSON object''
      else if skill_name = ''bash_eval'' then
        (case json_get args ''command'' of
           Some (JString cmd) \<Rightarrow>
             if trim cmd = [] then Inl ''Empty shell command is never dispatched''
             else map_err show_security_error (admit_local_command cmd)
         | Some _ \<Rightarrow> Inl ''Shell command must be a string''
         | None \<Rightarrow> Inl ''Empty shell command is never dispatched'')
      else Inr ())"

section \<open>The probe threshold\<close>

definition DEFAULT_PROBE_THRESHOLD :: f64 where "DEFAULT_PROBE_THRESHOLD = Fin (1 / 2)"

definition probe_threshold_from :: "(string \<Rightarrow> f64 option) \<Rightarrow> string option \<Rightarrow> f64" where
  "probe_threshold_from parse value =
     (case Option.bind value (\<lambda>v. parse (trim v)) of
        Some t \<Rightarrow>
          if f64_is_finite t \<and> f64_less DEFAULT_PROBE_THRESHOLD t \<and> f64_le t (Fin 1) then t
          else DEFAULT_PROBE_THRESHOLD
      | None \<Rightarrow> DEFAULT_PROBE_THRESHOLD)"

section \<open>The probe opinion\<close>

text \<open>The probes of the engine's crate that the source asks, and its answers by the probe's name.\<close>

datatype probe = Noul string | Choice string "(string \<times> string) list"

type_synonym probe_set = "(string \<times> probe) list"

record probe_response =
  pr_noul :: "string \<Rightarrow> f64 option"
  pr_choice :: "string \<Rightarrow> string option"

record guard_libs =
  gl_evaluate :: "json \<Rightarrow> probe_set \<Rightarrow> string + probe_response"
  gl_escape_debug :: "string \<Rightarrow> string"
  gl_parse_f64 :: "string \<Rightarrow> f64 option"
  gl_format4 :: "f64 \<Rightarrow> string"
  gl_json_text :: "json \<Rightarrow> string"

text \<open>\<open>ProbePolicyGuard\<close>: an engine over the in-process reference backend, over an endpoint, or any other.\<close>

record policy_guard =
  pg_engine :: "json \<Rightarrow> probe_set \<Rightarrow> string + probe_response"
  pg_min_safety_probability :: f64

definition new_guard :: "(json \<Rightarrow> probe_set \<Rightarrow> string + probe_response) \<Rightarrow> f64 \<Rightarrow> policy_guard" where
  "new_guard engine min_safety = \<lparr>pg_engine = engine, pg_min_safety_probability = min_safety\<rparr>"

definition new_reference :: "guard_libs \<Rightarrow> f64 \<Rightarrow> policy_guard" where
  "new_reference G min_safety = \<lparr>pg_engine = gl_evaluate G, pg_min_safety_probability = min_safety\<rparr>"

definition new_http :: "(string \<Rightarrow> json \<Rightarrow> probe_set \<Rightarrow> string + probe_response) \<Rightarrow> string \<Rightarrow> f64 \<Rightarrow> policy_guard" where
  "new_http evaluate_at endpoint min_safety =
     \<lparr>pg_engine = evaluate_at endpoint, pg_min_safety_probability = min_safety\<rparr>"

definition action_probes :: probe_set where
  "action_probes =
     [(''safety'', Noul ''Is this agent action safe, non-destructive, and strictly within security bounds?''),
      (''boundary'', Choice ''Classify permission scope of the proposed action.''
         [(''contained'', ''Operates inside permitted workspace''),
          (''unauthorized_escalation'', ''Escalates outside workspace'')])]"

definition check_action :: "guard_libs \<Rightarrow> policy_guard \<Rightarrow> string \<Rightarrow> string \<Rightarrow> security_error + bool" where
  "check_action G guard action payload =
     (let state = json_object [(''action'', JString action), (''payload'', JString payload)]
      in try_bind
        (map_err (\<lambda>e. AccessDenied (''Probe evaluation failed: '' @ e)) (pg_engine guard state action_probes))
        (\<lambda>response.
          (let safety = (case pr_noul response ''safety'' of Some p \<Rightarrow> p | None \<Rightarrow> Fin 0);
               boundary = (case pr_choice response ''boundary'' of Some c \<Rightarrow> c | None \<Rightarrow> ''unauthorized_escalation'')
           in if f64_less safety (pg_min_safety_probability guard) \<or> boundary = ''unauthorized_escalation''
              then Inl (AccessDenied (''Action '' @ quoted action @
                '' blocked by sovereign probe policy: safety '' @ gl_format4 G safety @ '' < '' @
                gl_format4 G (pg_min_safety_probability guard) @ '', scope '' @ quoted boundary))
              else Inr True)))"

definition gate_skill :: "guard_libs \<Rightarrow> policy_guard \<Rightarrow> string \<Rightarrow> json \<Rightarrow> security_error + unit" where
  "gate_skill G guard skill args =
     (case pre_dispatch_check (gl_escape_debug G) skill args of
        Inl reason \<Rightarrow> Inl (AccessDenied reason)
      | Inr _ \<Rightarrow> try_bind (check_action G guard skill (gl_json_text G args)) (\<lambda>_. Inr ()))"

text \<open>\<open>probe_gate\<close>: \<open>env\<close> is the value of \<open>AIEN_PROBE_ENFORCE\<close>, if set.\<close>

definition probe_gate :: "guard_libs \<Rightarrow> string option \<Rightarrow> string \<Rightarrow> json \<Rightarrow> string + unit" where
  "probe_gate G env skill args =
     map_err show_security_error (gate_skill G (new_reference G (probe_threshold_from (gl_parse_f64 G) env)) skill args)"

section \<open>Running a command\<close>

text \<open>
  What the process that runs a command line answers: an exit code (none when a signal ended it) and
  its two outputs as text. The launches are returned beside the result.
\<close>

record shell_output =
  so_code :: "int option"
  so_stdout :: string
  so_stderr :: string

record launch =
  la_line :: string
  la_dir :: string

definition shell_line :: "string \<Rightarrow> string \<Rightarrow> string" where
  "shell_line secs cmd =
     ''timeout '' @ secs @ ''s bash -c '' @ quoted (str_replace [CHR 0x27] [CHR 0x27, CHR 0x5C, CHR 0x27, CHR 0x27] cmd)"

definition execute_shell ::
  "'w fs \<Rightarrow> (launch \<Rightarrow> string + shell_output) \<Rightarrow> (int \<Rightarrow> string) \<Rightarrow> 'w \<Rightarrow> string \<Rightarrow> string \<Rightarrow> string option \<Rightarrow> string \<Rightarrow>
   (security_error + string) \<times> launch list" where
  "execute_shell F sh show_code w base command cwd secs =
     (let trimmed = trim command in
      if trimmed = [] then (Inl (InvalidPath ''Command cannot be empty''), [])
      else case resolve_dir_path F w base cwd of
          Inl e \<Rightarrow> (Inl e, [])
        | Inr dir \<Rightarrow>
            (let l = \<lparr>la_line = shell_line secs trimmed, la_dir = dir\<rparr>
             in (case sh l of
                   Inl e \<Rightarrow> Inl (CommandFailed (''Failed to execute command: '' @ e))
                 | Inr out \<Rightarrow>
                     if so_code out = Some 0 then Inr (so_stdout out)
                     else if so_code out = Some 124
                     then Inl (CommandFailed (''Command timed out after '' @ secs @ '' seconds: '' @ trimmed))
                     else Inl (CommandFailed (''Exit code '' @
                       show_code (case so_code out of Some c \<Rightarrow> c | None \<Rightarrow> -1) @ '': '' @
                       (if trim (so_stderr out) \<noteq> [] then trim (so_stderr out) else trim (so_stdout out)))),
                 [l])))"

definition dispatch_shell ::
  "guard_libs \<Rightarrow> 'w fs \<Rightarrow> (launch \<Rightarrow> string + shell_output) \<Rightarrow> (int \<Rightarrow> string) \<Rightarrow> 'w \<Rightarrow> string \<Rightarrow> string \<Rightarrow>
   string option \<Rightarrow> string \<Rightarrow> (security_error + string) \<times> launch list" where
  "dispatch_shell G F sh show_code w base command cwd secs =
     (case map_err AccessDenied (pre_dispatch_check (gl_escape_debug G) ''bash_eval''
             (json_object [(''command'', JString command)])) of
        Inl e \<Rightarrow> (Inl e, [])
      | Inr _ \<Rightarrow>
          (case admit_local_command command of
             Inl e \<Rightarrow> (Inl e, [])
           | Inr _ \<Rightarrow> execute_shell F sh show_code w base command cwd secs))"

definition dispatch_shell_gated ::
  "guard_libs \<Rightarrow> string option \<Rightarrow> 'w fs \<Rightarrow> (launch \<Rightarrow> string + shell_output) \<Rightarrow> (int \<Rightarrow> string) \<Rightarrow> 'w \<Rightarrow> string \<Rightarrow>
   string \<Rightarrow> string option \<Rightarrow> string \<Rightarrow> (security_error + string) \<times> launch list" where
  "dispatch_shell_gated G env F sh show_code w base command cwd secs =
     (case map_err AccessDenied (probe_gate G env ''bash_eval'' (json_object [(''command'', JString command)])) of
        Inl e \<Rightarrow> (Inl e, [])
      | Inr _ \<Rightarrow> dispatch_shell G F sh show_code w base command cwd secs)"

section \<open>Properties\<close>

lemma probe_threshold_bounds:
  "\<exists>a. probe_threshold_from parse v = Fin a \<and> 1 / 2 \<le> a \<and> a \<le> 1"
proof -
  have d: "\<exists>a. DEFAULT_PROBE_THRESHOLD = Fin a \<and> 1 / 2 \<le> a \<and> a \<le> 1"
    by (intro exI [of _ "1 / 2"]) (simp add: DEFAULT_PROBE_THRESHOLD_def)
  show ?thesis
  proof (cases "Option.bind v (\<lambda>v. parse (trim v))")
    case None
    then show ?thesis using d by (simp add: probe_threshold_from_def)
  next
    case (Some t)
    show ?thesis
    proof (cases "f64_is_finite t \<and> f64_less DEFAULT_PROBE_THRESHOLD t \<and> f64_le t (Fin 1)")
      case True
      then show ?thesis using Some
        by (cases t) (auto simp: probe_threshold_from_def DEFAULT_PROBE_THRESHOLD_def)
    next
      case False
      then have "probe_threshold_from parse v = DEFAULT_PROBE_THRESHOLD"
        using Some by (auto simp: probe_threshold_from_def)
      then show ?thesis using d by simp
    qed
  qed
qed

text \<open>
  The probe gate cannot be weakened from outside: whatever the environment variable holds, the
  threshold is a finite number between one half and one, and it is one half unless the variable
  holds a larger number in that range.
\<close>

lemma probe_threshold_never_weakened:
  "\<exists>a. probe_threshold_from parse v = Fin a \<and> 1 / 2 \<le> a \<and> a \<le> 1 \<and>
     (a = 1 / 2 \<or> Option.bind v (\<lambda>v. parse (trim v)) = Some (Fin a))"
proof -
  obtain a where a: "probe_threshold_from parse v = Fin a" "1 / 2 \<le> a" "a \<le> 1"
    using probe_threshold_bounds by blast
  have "a \<noteq> 1 / 2 \<Longrightarrow> Option.bind v (\<lambda>v. parse (trim v)) = Some (Fin a)"
    using a(1) by (auto simp: probe_threshold_from_def DEFAULT_PROBE_THRESHOLD_def
        split: option.splits if_splits)
  with a show ?thesis by blast
qed

lemma pre_dispatch_Inr:
  "pre_dispatch_check esc skill args = Inr u \<Longrightarrow>
   skill \<in> set ALLOWED_SKILLS \<and> (is_object args \<or> is_null args) \<and>
   (skill = ''bash_eval'' \<longrightarrow> (\<exists>cmd. json_get args ''command'' = Some (JString cmd) \<and>
      trim cmd \<noteq> [] \<and> admit_local_command cmd = Inr ()))"
  by (auto simp: pre_dispatch_check_def split: if_splits option.splits json.splits)

lemma not_less_Fin: "\<not> f64_less p (Fin a) \<Longrightarrow> b \<le> a \<Longrightarrow> p = NaN \<or> f64_le (Fin b) p"
  by (cases p) auto

text \<open>
  C31: Nothing is dispatched past the gate unless every check passed: the skill's exact name is on
  the allowlist, its arguments are an object or null, a shell command is a text that the catalog
  admits; the probe engine answered, it named a scope other than escalation, and it gave a safety
  value that is not below one half (or is not a number). A missing answer is a refusal.
\<close>

theorem probe_gate_passes_only_checked:
  assumes "probe_gate G env skill args = Inr u"
  shows "skill \<in> set ALLOWED_SKILLS \<and> (is_object args \<or> is_null args) \<and>
    (skill = ''bash_eval'' \<longrightarrow> (\<exists>cmd. json_get args ''command'' = Some (JString cmd) \<and>
       trim cmd \<noteq> [] \<and> admit_local_command cmd = Inr ())) \<and>
    (\<exists>resp p scope. gl_evaluate G (json_object [(''action'', JString skill), (''payload'', JString (gl_json_text G args))]) action_probes = Inr resp \<and>
       pr_noul resp ''safety'' = Some p \<and> (p = NaN \<or> f64_le (Fin (1 / 2)) p) \<and>
       pr_choice resp ''boundary'' = Some scope \<and> scope \<noteq> ''unauthorized_escalation'')"
proof -
  define th where "th = probe_threshold_from (gl_parse_f64 G) env"
  obtain a where a: "th = Fin a" "1 / 2 \<le> a" using probe_threshold_bounds unfolding th_def by blast
  from assms have g: "gate_skill G (new_reference G th) skill args = Inr u" by (simp add: probe_gate_def th_def)
  then obtain v b where d: "pre_dispatch_check (gl_escape_debug G) skill args = Inr v"
    and c: "check_action G (new_reference G th) skill (gl_json_text G args) = Inr b"
    by (auto simp: gate_skill_def try_bind_Inr_iff split: sum.splits)
  from c obtain resp where r:
      "gl_evaluate G (json_object [(''action'', JString skill), (''payload'', JString (gl_json_text G args))]) action_probes = Inr resp"
    and s: "\<not> f64_less (case pr_noul resp ''safety'' of Some p \<Rightarrow> p | None \<Rightarrow> Fin 0) th"
    and bd: "(case pr_choice resp ''boundary'' of Some c \<Rightarrow> c | None \<Rightarrow> ''unauthorized_escalation'') \<noteq> ''unauthorized_escalation''"
    by (auto simp: check_action_def new_reference_def Let_def try_bind_Inr_iff split: if_splits)
  have "0 < a" using a(2) by (rule less_le_trans [rotated]) simp
  then obtain p where p: "pr_noul resp ''safety'' = Some p" "\<not> f64_less p (Fin a)"
    using s a(1) by (cases "pr_noul resp ''safety''") auto
  have "p = NaN \<or> f64_le (Fin (1 / 2)) p" by (rule not_less_Fin [OF p(2) a(2)])
  with bd r p(1) pre_dispatch_Inr [OF d] show ?thesis
    by (cases "pr_choice resp ''boundary''") auto
qed

definition yes_guard :: "f64 \<Rightarrow> guard_libs" where
  "yes_guard p = \<lparr>gl_evaluate = (\<lambda>_ _. Inr \<lparr>pr_noul = (\<lambda>_. Some p), pr_choice = (\<lambda>_. Some ''contained'')\<rparr>),
     gl_escape_debug = (\<lambda>s. s), gl_parse_f64 = (\<lambda>_. None), gl_format4 = (\<lambda>_. []), gl_json_text = (\<lambda>_. ''{}'')\<rparr>"

lemma yes_gate: "probe_gate (yes_guard (Fin 1)) None ''git_status'' JNull = Inr ()"
proof -
  have "trim ''git_status'' = ''git_status''" by code_simp
  then show ?thesis
    by (simp add: probe_gate_def gate_skill_def pre_dispatch_check_def check_action_def new_reference_def yes_guard_def
        probe_threshold_from_def DEFAULT_PROBE_THRESHOLD_def ALLOWED_SKILLS_def)
qed

theorem probe_gate_passes_only_checked_witness:
  "probe_gate (yes_guard (Fin 1)) None ''git_status'' JNull = Inr () \<and> ''git_status'' \<in> set ALLOWED_SKILLS"
  using probe_gate_passes_only_checked [OF yes_gate] yes_gate by blast

text \<open>
  A probe engine that answers not-a-number for the safety probability opens the gate: the test
  \<open>safety < minimum\<close> is false for it under every threshold, so the action is allowed, although a
  missing answer is refused.
\<close>

lemma probe_gate_open_on_nan:
  "check_action (yes_guard NaN) (new_reference (yes_guard NaN) th) name payload = Inr True \<and>
   \<not> is_ok (check_action (yes_guard (Fin 0)) (new_reference (yes_guard (Fin 0)) (Fin (1 / 2))) name payload)"
  by (simp add: check_action_def new_reference_def yes_guard_def)

lemma quote_is_meta: "CHR 0x27 \<in> set shell_metacharacters"
  by (simp add: shell_metacharacters_def)

lemma admitted_plain:
  assumes "admit_local_command c = Inr u"
  shows "split_whitespace c \<in> set local_forms" "\<forall>x\<in>set c. x \<notin> set shell_metacharacters"
    "CHR 0x27 \<notin> set (trim c)"
proof -
  show a: "split_whitespace c \<in> set local_forms" "\<forall>x\<in>set c. x \<notin> set shell_metacharacters"
    using assms by (auto simp: admit_local_command_def list_ex_iff split: if_splits)
  show "CHR 0x27 \<notin> set (trim c)" using a(2) quote_is_meta set_trim_subset by blast
qed

lemma contains_char: "str_contains s [c] \<longleftrightarrow> c \<in> set s"
  by (induction s) auto

lemma dispatch_shell_launches:
  assumes "dispatch_shell G F sh show_code w base command cwd secs = (res, ls)"
  shows "ls = [] \<and> \<not> is_ok res \<or>
    (\<exists>dir. ls = [\<lparr>la_line = ''timeout '' @ secs @ ''s bash -c '' @ quoted (trim command), la_dir = dir\<rparr>] \<and>
       real_inside F w base dir \<and> fs_is_dir F w dir \<and>
       split_whitespace command \<in> {[''git'', ''status''], [''git'', ''diff''],
         [''git'', ''log'', ''-1'', ''--oneline''], [''ls'']} \<and>
       (\<forall>x\<in>set command. x \<notin> set shell_metacharacters))"
proof (cases "admit_local_command command")
  case (Inl e)
  then show ?thesis using assms by (auto simp: dispatch_shell_def split: sum.splits)
next
  case (Inr u)
  note plain = admitted_plain [OF Inr]
  have line: "shell_line secs (trim command) = ''timeout '' @ secs @ ''s bash -c '' @ quoted (trim command)"
    using plain(3) by (simp add: shell_line_def str_replace_absent contains_char)
  have dir: "resolve_dir_path F w base cwd = Inr d \<Longrightarrow> real_inside F w base d \<and> fs_is_dir F w d" for d
    by (rule dir_resolved)
  show ?thesis
  proof (cases "snd (dispatch_shell G F sh show_code w base command cwd secs)")
    case Nil
    then show ?thesis using assms Inr
      by (auto simp: dispatch_shell_def execute_shell_def Let_def is_ok_iff split: sum.splits if_splits)
  next
    case (Cons l ls')
    then obtain d where "resolve_dir_path F w base cwd = Inr d" "ls = [\<lparr>la_line = shell_line secs (trim command), la_dir = d\<rparr>]"
      using assms Inr
      by (auto simp: dispatch_shell_def execute_shell_def Let_def split: sum.splits if_splits)
    with dir line plain(1,2) show ?thesis by (simp add: local_forms_def)
  qed
qed

definition quiet_shell :: "launch \<Rightarrow> string + shell_output" where
  "quiet_shell l = Inr \<lparr>so_code = Some 0, so_stdout = ''clean'', so_stderr = []\<rparr>"

lemma quiet_dispatch:
  "dispatch_shell (yes_guard (Fin 1)) linked_fs quiet_shell (\<lambda>_. ''0'') () ''/ws'' '' git  status '' None ''15'' =
   (Inr ''clean'', [\<lparr>la_line = ''timeout 15s bash -c '' @ quoted ''git  status'', la_dir = ''/ws''\<rparr>])"
  by code_simp

lemma dispatch_shell_example:
  "path_starts_with ''/ws'' ''/ws'' \<and> split_whitespace '' git  status '' = [''git'', ''status'']"
proof -
  have "split_whitespace '' git  status '' = [''git'', ''status'']" by code_simp
  with dispatch_shell_launches [OF quiet_dispatch] show ?thesis by (auto simp: real_inside_def)
qed

end
