(* ===== verification/Skills.thy ===== *)
theory Skills
  imports Enforcement Failure "HOL-Library.Multiset"
begin

text \<open>
  \<open>src/skills.rs\<close>: the skill registry, its built-in skills and the three ways to run one. A handler is a
  function of its arguments and the world; it returns its result, the effects it had, in order, and the world
  afterwards. The file system, the processes and the probe engine are parameters. The registry's map is read
  in an arbitrary order, which the listings take as an argument.
\<close>

section \<open>Registry\<close>

record skill_definition =
  sd_name :: string
  sd_description :: string
  sd_parameters :: json
  sd_advertised :: bool

record skill_request =
  sq_skill :: string
  sq_arguments :: json

record skill_response =
  sp_success :: bool
  sp_output :: string
  sp_error :: "string option"

datatype effect =
    RanShell launch
  | ReadFile string
  | MadeDirs string
  | WroteFile string string
  | ListedDir string
  | RanGit string "string list"

type_synonym 'w handler = "json \<Rightarrow> 'w \<Rightarrow> ((string + string) \<times> effect list) \<times> 'w"

type_synonym 'w skill_map = "string \<rightharpoonup> skill_definition \<times> 'w handler"

record 'w registry =
  rg_skills :: "'w skill_map"
  rg_root :: string

definition register :: "skill_definition \<Rightarrow> 'w handler \<Rightarrow> 'w skill_map \<Rightarrow> 'w skill_map" where
  "register sd h m = m(sd_name sd \<mapsto> (sd, h))"

definition list_skills :: "string list \<Rightarrow> 'w registry \<Rightarrow> skill_definition list" where
  "list_skills keys R = map (\<lambda>k. fst (the (rg_skills R k))) keys"

definition advertised_skills :: "string list \<Rightarrow> 'w registry \<Rightarrow> skill_definition list" where
  "advertised_skills keys R = filter sd_advertised (list_skills keys R)"

definition openai_tool :: "skill_definition \<Rightarrow> json" where
  "openai_tool sd = json_object [(''type'', JString ''function''),
     (''function'', json_object [(''name'', JString (sd_name sd)), (''description'', JString (sd_description sd)),
        (''parameters'', sd_parameters sd)])]"

text \<open>\<open>a["function"]["name"].as_str().unwrap_or("")\<close>\<close>

definition tool_name :: "json \<Rightarrow> string" where
  "tool_name t = (case Option.bind (json_get t ''function'') (\<lambda>f. get_str f ''name'') of Some n \<Rightarrow> n | None \<Rightarrow> [])"

definition to_openai_tools :: "string list \<Rightarrow> 'w registry \<Rightarrow> json list" where
  "to_openai_tools keys R = sort_key tool_name (map openai_tool (advertised_skills keys R))"

section \<open>The world of the handlers\<close>

text \<open>
  What a shell command or \<open>git\<close> does to the world is theirs; \<open>sw_read_dir\<close> gives the readable entries with
  whether each is a directory.
\<close>

record 'w skill_world =
  sw_fs :: "'w fs"
  sw_guard :: guard_libs
  sw_env :: "'w \<Rightarrow> string option"
  sw_shell :: "'w \<Rightarrow> launch \<Rightarrow> string + shell_output"
  sw_shell_after :: "launch list \<Rightarrow> 'w \<Rightarrow> 'w"
  sw_read :: "'w \<Rightarrow> string \<Rightarrow> string + string"
  sw_write :: "string \<Rightarrow> string \<Rightarrow> 'w \<Rightarrow> (string + unit) \<times> 'w"
  sw_read_dir :: "'w \<Rightarrow> string \<Rightarrow> string + (string \<times> bool) list"
  sw_git :: "string \<Rightarrow> string list \<Rightarrow> 'w \<Rightarrow> (string + string) \<times> 'w"
  sw_show_int :: "int \<Rightarrow> string"

definition get_str_or :: "string \<Rightarrow> string \<Rightarrow> json \<Rightarrow> string" where
  "get_str_or dflt k v = (case get_str v k of Some s \<Rightarrow> s | None \<Rightarrow> dflt)"

section \<open>The built-in handlers\<close>

definition bash_handler :: "'w skill_world \<Rightarrow> string \<Rightarrow> 'w handler" where
  "bash_handler W base args w =
     (let (r, launched) = dispatch_shell (sw_guard W) (sw_fs W) (sw_shell W w) (sw_show_int W) w base
            (get_str_or [] ''command'' args) (get_str args ''cwd'') ''15''
      in ((map_err show_security_error r, map RanShell launched), sw_shell_after W launched w))"

definition read_handler :: "'w skill_world \<Rightarrow> string \<Rightarrow> 'w handler" where
  "read_handler W base args w =
     (case resolve_read_path (sw_fs W) w base (get_str_or [] ''path'' args) of
        Inl e \<Rightarrow> ((Inl (show_security_error e), []), w)
      | Inr p \<Rightarrow>
          ((map_err (\<lambda>e. ''Failed to read file '' @ p @ '': '' @ e) (sw_read W w p), [ReadFile p]), w))"

definition write_handler :: "'w skill_world \<Rightarrow> string \<Rightarrow> 'w handler" where
  "write_handler W base args w =
     (case resolve_write_path (sw_fs W) w base (get_str_or [] ''path'' args) of
        Inl e \<Rightarrow> ((Inl (show_security_error e), []), w)
      | Inr p \<Rightarrow>
          (let content = get_str_or [] ''content'' args;
               (made, w1) = (case path_parent p of
                  None \<Rightarrow> ([], w)
                | Some dir \<Rightarrow> ([MadeDirs dir], snd (fs_create_dir_all (sw_fs W) w dir)));
               (r, w2) = sw_write W p content w1
           in ((case r of
                  Inr _ \<Rightarrow> Inr (''Wrote '' @ sw_show_int W (int (length content)) @ '' bytes to '' @ p)
                | Inl e \<Rightarrow> Inl (''Failed to write file '' @ p @ '': '' @ e),
                made @ [WroteFile p content]), w2)))"

definition list_handler :: "'w skill_world \<Rightarrow> string \<Rightarrow> 'w handler" where
  "list_handler W base args w =
     (case resolve_dir_path (sw_fs W) w base (get_str args ''path'') of
        Inl e \<Rightarrow> ((Inl (show_security_error e), []), w)
      | Inr p \<Rightarrow>
          ((try_bind (map_err (\<lambda>e. ''Failed to read directory '' @ p @ '': '' @ e) (sw_read_dir W w p)) (\<lambda>entries.
              Inr (str_join [CHR 0x0A] (sort (map (\<lambda>(n, is_dir). n @ '' ('' @ (if is_dir then ''dir'' else ''file'') @ '')'')
                entries)))),
            [ListedDir p]), w))"

definition git_handler :: "'w skill_world \<Rightarrow> string \<Rightarrow> 'w handler" where
  "git_handler W base args w =
     (case resolve_dir_path (sw_fs W) w base (get_str args ''path'') of
        Inl e \<Rightarrow> ((Inl (show_security_error e), []), w)
      | Inr p \<Rightarrow>
          (let (st, w1) = sw_git W p [''status'', ''--short''] w in
           case st of
             Inl e \<Rightarrow> ((Inl (''Failed to run git status: '' @ e), [RanGit p [''status'', ''--short'']]), w1)
           | Inr status \<Rightarrow>
               (let (lg, w2) = sw_git W p [''log'', ''-1'', ''--oneline''] w1;
                    effects = [RanGit p [''status'', ''--short''], RanGit p [''log'', ''-1'', ''--oneline'']]
                in case lg of
                     Inl e \<Rightarrow> ((Inl (''Failed to run git log: '' @ e), effects), w2)
                   | Inr logged \<Rightarrow>
                       ((Inr (''HEAD: '' @ trim logged @ [CHR 0x0A] @ ''Status:'' @ [CHR 0x0A] @
                          (if status = [] then ''clean'' else trim status)), effects), w2))))"

definition unconnected :: "string \<Rightarrow> 'w handler" where
  "unconnected msg args w = ((Inl msg, []), w)"

section \<open>The built-in skills\<close>

definition text_param :: "string \<Rightarrow> json" where
  "text_param description = json_object [(''type'', JString ''string''), (''description'', JString description)]"

definition object_schema :: "(string \<times> json) list \<Rightarrow> string list \<Rightarrow> json" where
  "object_schema props required = json_object ([(''type'', JString ''object''), (''properties'', json_object props)] @
     (if required = [] then [] else [(''required'', JArray (map JString required))]))"

definition register_unconnected :: "'w skill_map \<Rightarrow> 'w skill_map" where
  "register_unconnected m0 =
     (let m1 = register \<lparr>sd_name = ''cortex.search'', sd_description = ''Search Cortex. Not connected.'',
            sd_parameters = object_schema [(''query'', text_param ''Memory query'')] [''query''],
            sd_advertised = False\<rparr>
            (unconnected ''Unavailable: cortex.search is not connected to a Cortex backend.'') m0;
          m2 = register \<lparr>sd_name = ''cortex_recall'', sd_description = ''Legacy alias of cortex.search. Not connected.'',
            sd_parameters = object_schema [(''query'', text_param ''Memory query'')] [''query''],
            sd_advertised = False\<rparr>
            (unconnected ''Unavailable: cortex.search is not connected to a Cortex backend.'') m1
      in register \<lparr>sd_name = ''telemetry_ping'', sd_description = ''Legacy name. Not connected.'',
           sd_parameters = json_object [(''type'', JString ''object'')], sd_advertised = False\<rparr>
           (unconnected ''Unavailable: telemetry.read is not connected.'') m2)"

definition register_builtin_skills :: "'w skill_world \<Rightarrow> string \<Rightarrow> 'w skill_map \<Rightarrow> 'w skill_map" where
  "register_builtin_skills W base m0 =
     (let m1 = register \<lparr>sd_name = ''bash_eval'',
            sd_description = ''Run one catalogued local command inside '' @ base @
              ''. Allowed forms are exactly: git status, git diff, git log -1 --oneline, and ls. This is not an OS sandbox.'',
            sd_parameters = object_schema [(''command'', text_param ''The command line string to run''),
              (''cwd'', text_param (''Optional working directory inside authorized workspace '' @ base))] [''command''],
            sd_advertised = True\<rparr> (bash_handler W base) m0;
          m2 = register \<lparr>sd_name = ''read_file'',
            sd_description = ''Read the contents of a text file strictly within authorized workspace roots'',
            sd_parameters = object_schema [(''path'', text_param ''Relative or absolute path inside the workspace root'')]
              [''path''],
            sd_advertised = True\<rparr> (read_handler W base) m1;
          m3 = register \<lparr>sd_name = ''write_file'',
            sd_description = ''Write text contents to a file strictly within authorized workspace roots'',
            sd_parameters = object_schema [(''path'', text_param ''Target file path inside the workspace root''),
              (''content'', text_param ''Text content to write'')] [''path'', ''content''],
            sd_advertised = True\<rparr> (write_handler W base) m2;
          m4 = register \<lparr>sd_name = ''list_dir'',
            sd_description = ''List directory contents strictly within authorized workspace roots'',
            sd_parameters = object_schema [(''path'', text_param ''Directory path inside workspace root'')] [],
            sd_advertised = True\<rparr> (list_handler W base) m3;
          m5 = register \<lparr>sd_name = ''git_status'',
            sd_description = ''Check git status and commit in repository strictly within authorized workspace root'',
            sd_parameters = object_schema [(''path'', text_param ''Repository path inside workspace root'')] [],
            sd_advertised = True\<rparr> (git_handler W base) m4
      in register_unconnected m5)"

definition with_workspace :: "'w skill_world \<Rightarrow> string \<Rightarrow> 'w registry" where
  "with_workspace W base = \<lparr>rg_skills = register_builtin_skills W base Map.empty, rg_root = base\<rparr>"

section \<open>Running a skill\<close>

definition refused :: "string \<Rightarrow> skill_response" where
  "refused reason = \<lparr>sp_success = False, sp_output = [], sp_error = Some reason\<rparr>"

definition execute_skill :: "'w skill_world \<Rightarrow> 'w registry \<Rightarrow> skill_request \<Rightarrow> 'w \<Rightarrow>
    (skill_response \<times> effect list) \<times> 'w" where
  "execute_skill W R req w =
     (case pre_dispatch_check (gl_escape_debug (sw_guard W)) (sq_skill req) (sq_arguments req) of
        Inl reason \<Rightarrow> ((refused reason, []), w)
      | Inr _ \<Rightarrow>
          (case rg_skills R (sq_skill req) of
             None \<Rightarrow> ((refused (''Skill '' @ quoted (sq_skill req) @ '' not found in registry''), []), w)
           | Some (_, h) \<Rightarrow>
               (case h (sq_arguments req) w of
                  ((Inr out, es), w') \<Rightarrow> ((\<lparr>sp_success = True, sp_output = out, sp_error = None\<rparr>, es), w')
                | ((Inl err, es), w') \<Rightarrow> ((refused err, es), w'))))"

definition execute_gated :: "'w skill_world \<Rightarrow> 'w registry \<Rightarrow> skill_request \<Rightarrow> 'w \<Rightarrow>
    (skill_response \<times> effect list) \<times> 'w" where
  "execute_gated W R req w =
     (case probe_gate (sw_guard W) (sw_env W w) (sq_skill req) (sq_arguments req) of
        Inl reason \<Rightarrow> ((refused reason, []), w)
      | Inr _ \<Rightarrow> execute_skill W R req w)"

definition classify_error :: "string \<Rightarrow> string \<Rightarrow> tool_fault" where
  "classify_error skill err =
     (if starts_with err ''Unavailable'' then fault_unavailable err
      else if skill_idempotent skill then \<lparr>tf_class = FcFailed, tf_certainty = NoEffect, tf_message = err\<rparr>
      else \<lparr>tf_class = FcFailed, tf_certainty = EffectOccurred, tf_message = err\<rparr>)"

definition dispatch_classified :: "'w skill_world \<Rightarrow> 'w registry \<Rightarrow> string \<Rightarrow> json \<Rightarrow> 'w \<Rightarrow>
    ((tool_fault + string) \<times> effect list) \<times> 'w" where
  "dispatch_classified W R skill args w =
     (case map_err fault_rejected (probe_gate (sw_guard W) (sw_env W w) skill args) of
        Inl f \<Rightarrow> ((Inl f, []), w)
      | Inr _ \<Rightarrow>
          (case map_err fault_rejected (pre_dispatch_check (gl_escape_debug (sw_guard W)) skill args) of
             Inl f \<Rightarrow> ((Inl f, []), w)
           | Inr _ \<Rightarrow>
               (case rg_skills R skill of
                  None \<Rightarrow> ((Inl (fault_rejected (''Skill '' @ quoted skill @ '' not found in registry'')), []), w)
                | Some (_, h) \<Rightarrow>
                    (case h args w of ((r, es), w') \<Rightarrow> ((map_err (classify_error skill) r, es), w')))))"

section \<open>The listing does not depend on the order of the map\<close>

text \<open>Every entry is stored under its own name.\<close>

definition named :: "'w skill_map \<Rightarrow> bool" where
  "named m \<longleftrightarrow> (\<forall>k sd h. m k = Some (sd, h) \<longrightarrow> sd_name sd = k)"

lemma named_register: "named m \<Longrightarrow> named (register sd h m)"
  by (auto simp: named_def register_def)

lemma named_with_workspace: "named (rg_skills (with_workspace W base))"
proof -
  have "named Map.empty" by (simp add: named_def)
  then show ?thesis
    unfolding with_workspace_def register_builtin_skills_def register_unconnected_def Let_def registry.select_convs
    by (intro named_register)
qed

lemma tool_name_openai_tool [simp]: "tool_name (openai_tool sd) = sd_name sd"
  by (simp add: tool_name_def openai_tool_def get_str_def)

lemma openai_tools_order_free:
  assumes "named (rg_skills R)" "distinct keys" "set keys = dom (rg_skills R)"
    "distinct keys'" "set keys' = dom (rg_skills R)"
  shows "to_openai_tools keys R = to_openai_tools keys' R"
    and "sorted (map tool_name (to_openai_tools keys R))"
    and "set (to_openai_tools keys R) = {openai_tool sd |k sd h. rg_skills R k = Some (sd, h) \<and> sd_advertised sd}"
proof -
  have name: "sd_name (fst (the (rg_skills R k))) = k" if "k \<in> dom (rg_skills R)" for k
    using assms(1) that by (auto simp: named_def)
  have names: "map sd_name (list_skills ks R) = ks" if "set ks = dom (rg_skills R)" for ks
    using name that by (auto simp: list_skills_def intro: map_idI)
  have "inj_on sd_name (set (list_skills keys R))"
    using assms(2) names [OF assms(3)] by (metis distinct_map)
  then have inj: "inj_on tool_name (set (map openai_tool (advertised_skills keys R)))"
    by (auto simp: inj_on_def advertised_skills_def)
  have "mset keys = mset keys'" using assms(2-) by (metis set_eq_iff_mset_eq_distinct)
  then have same: "mset (map openai_tool (advertised_skills keys R)) = mset (map openai_tool (advertised_skills keys' R))"
    by (simp add: advertised_skills_def list_skills_def mset_filter)
  show "to_openai_tools keys R = to_openai_tools keys' R"
    unfolding to_openai_tools_def using same inj by (rule sort_key_eq_sort_key)
  show "sorted (map tool_name (to_openai_tools keys R))" by (simp add: to_openai_tools_def)
  show "set (to_openai_tools keys R) = {openai_tool sd |k sd h. rg_skills R k = Some (sd, h) \<and> sd_advertised sd}"
    using assms(3) by (force simp: to_openai_tools_def advertised_skills_def list_skills_def)
qed

section \<open>What the built-in skills do\<close>

lemma builtin_cases:
  assumes "rg_skills (with_workspace W base) k = Some (sd, h)"
  obtains "k = ''bash_eval''" "h = bash_handler W base" | "k = ''read_file''" "h = read_handler W base"
    | "k = ''write_file''" "h = write_handler W base" | "k = ''list_dir''" "h = list_handler W base"
    | "k = ''git_status''" "h = git_handler W base"
    | m where "k \<in> {''cortex.search'', ''cortex_recall'', ''telemetry_ping''}" "h = unconnected m"
  using assms
  by (auto simp: with_workspace_def register_builtin_skills_def register_unconnected_def register_def Let_def split: if_splits)

text \<open>
  Where an effect is, seen from the world in which its path was resolved. What is read, listed or run in is a canonical
  location under the root. A file is written at a path that extends the root and is made of names below an
  existing directory whose canonical location is under the root; if the last of these names is a symbolic link,
  the write follows it (\<open>write_path_follows_final_link\<close>).
\<close>

fun effect_inside :: "'w skill_world \<Rightarrow> 'w \<Rightarrow> string \<Rightarrow> effect \<Rightarrow> bool" where
  "effect_inside W w base (RanShell l) \<longleftrightarrow> real_inside (sw_fs W) w base (la_dir l) \<and> fs_is_dir (sw_fs W) w (la_dir l) \<and>
     (\<exists>cmd. la_line l = ''timeout 15s bash -c '' @ quoted (trim cmd) \<and> split_whitespace cmd \<in> set local_forms \<and>
        (\<forall>x\<in>set cmd. x \<notin> set shell_metacharacters))"
| "effect_inside W w base (ReadFile p) \<longleftrightarrow> real_inside (sw_fs W) w base p"
| "effect_inside W w base (MadeDirs d) \<longleftrightarrow> dirs_inside (sw_fs W) w base d"
| "effect_inside W w base (WroteFile p c) \<longleftrightarrow> write_inside (sw_fs W) w base p"
| "effect_inside W w base (ListedDir p) \<longleftrightarrow> real_inside (sw_fs W) w base p \<and> fs_is_dir (sw_fs W) w p"
| "effect_inside W w base (RanGit p as) \<longleftrightarrow> real_inside (sw_fs W) w base p \<and> fs_is_dir (sw_fs W) w p \<and>
     as \<in> {[''status'', ''--short''], [''log'', ''-1'', ''--oneline'']}"

fun reads_only :: "effect \<Rightarrow> bool" where
  "reads_only (ReadFile _) = True"
| "reads_only (ListedDir _) = True"
| "reads_only (RanGit _ _) = True"
| "reads_only _ = False"

lemma write_target: "resolve_write_path F w base req = Inr p \<Longrightarrow> write_inside F w base p"
  by (rule write_resolved)

lemma bash_effects:
  assumes "bash_handler W base args w = ((r, es), w')"
  shows "\<forall>e\<in>set es. effect_inside W w base e"
    and "r = Inl err \<Longrightarrow> es \<noteq> [] \<Longrightarrow> \<not> starts_with err ''Unavailable''"
proof -
  obtain s ls where d: "dispatch_shell (sw_guard W) (sw_fs W) (sw_shell W w) (sw_show_int W) w base
      (get_str_or [] ''command'' args) (get_str args ''cwd'') ''15'' = (s, ls)" by force
  with assms have r: "r = map_err show_security_error s" "es = map RanShell ls"
    by (auto simp: bash_handler_def)
  from dispatch_shell_launches [OF d] show "\<forall>e\<in>set es. effect_inside W w base e"
    by (auto simp: r local_forms_def)
  assume err: "r = Inl err" "es \<noteq> []"
  then obtain e where e: "s = Inl e" "err = show_security_error e" by (auto simp: r map_err_Inl_iff)
  from d err(2) have "\<exists>m. e = CommandFailed m"
    unfolding r(2) e(1) dispatch_shell_def execute_shell_def
    by (auto simp: Let_def split: sum.splits if_splits)
  then show "\<not> starts_with err ''Unavailable''" by (auto simp: e(2) starts_with_def)
qed

lemma write_effects:
  assumes "write_handler W base args w = ((r, es), w')"
  shows "\<forall>e\<in>set es. effect_inside W w base e"
    and "r = Inl err \<Longrightarrow> es \<noteq> [] \<Longrightarrow> \<not> starts_with err ''Unavailable''"
proof -
  show "\<forall>e\<in>set es. effect_inside W w base e"
  proof (cases "resolve_write_path (sw_fs W) w base (get_str_or [] ''path'' args)")
    case (Inl e)
    with assms show ?thesis by (simp add: write_handler_def)
  next
    case (Inr p)
    note write_target [OF Inr] write_parent [OF Inr]
    with Inr assms show ?thesis
      by (auto simp: write_handler_def Let_def split: option.splits prod.splits sum.splits)
  qed
  show "r = Inl err \<Longrightarrow> es \<noteq> [] \<Longrightarrow> \<not> starts_with err ''Unavailable''"
    using assms unfolding write_handler_def
    by (auto simp: Let_def starts_with_def split: sum.splits option.splits prod.splits)
qed

lemma reading_effects:
  "read_handler W base args w = ((r, es), w') \<Longrightarrow> \<forall>e\<in>set es. effect_inside W w base e \<and> reads_only e"
  "list_handler W base args w = ((r, es), w') \<Longrightarrow> \<forall>e\<in>set es. effect_inside W w base e \<and> reads_only e"
  "git_handler W base args w = ((r, es), w') \<Longrightarrow> \<forall>e\<in>set es. effect_inside W w base e \<and> reads_only e"
  unfolding read_handler_def list_handler_def git_handler_def
  by (auto simp: Let_def dest!: read_resolved dir_resolved split: sum.splits prod.splits)

lemma handler_effects:
  assumes "rg_skills (with_workspace W base) k = Some (sd, h)" "h args w = ((r, es), w')"
  shows "\<forall>e\<in>set es. effect_inside W w base e" "skill_idempotent k \<Longrightarrow> \<forall>e\<in>set es. reads_only e"
    "r = Inl err \<Longrightarrow> es \<noteq> [] \<Longrightarrow> k \<in> {''bash_eval'', ''write_file''} \<Longrightarrow> \<not> starts_with err ''Unavailable''"
    "k \<notin> {''bash_eval'', ''write_file''} \<Longrightarrow> \<forall>e\<in>set es. reads_only e"
proof -
  note eff = bash_effects(1) write_effects(1) reading_effects
  have "(\<forall>e\<in>set es. effect_inside W w base e) \<and> (k \<notin> {''bash_eval'', ''write_file''} \<longrightarrow> (\<forall>e\<in>set es. reads_only e)) \<and>
      (k \<in> {''bash_eval'', ''write_file''} \<longrightarrow> r = Inl err \<longrightarrow> es \<noteq> [] \<longrightarrow> \<not> starts_with err ''Unavailable'')"
    using assms(1)
  proof (cases rule: builtin_cases)
    case 1
    with assms(2) have "bash_handler W base args w = ((r, es), w')" by simp
    with bash_effects(1) [OF this] bash_effects(2) [OF this] 1(1) show ?thesis by simp
  next
    case 2
    with assms(2) have "read_handler W base args w = ((r, es), w')" by simp
    from reading_effects(1) [OF this] 2(1) show ?thesis by simp
  next
    case 3
    with assms(2) have "write_handler W base args w = ((r, es), w')" by simp
    with write_effects(1) [OF this] write_effects(2) [OF this] 3(1) show ?thesis by simp
  next
    case 4
    with assms(2) have "list_handler W base args w = ((r, es), w')" by simp
    from reading_effects(2) [OF this] 4(1) show ?thesis by simp
  next
    case 5
    with assms(2) have "git_handler W base args w = ((r, es), w')" by simp
    from reading_effects(3) [OF this] 5(1) show ?thesis by simp
  next
    case (6 m)
    with assms(2) show ?thesis by (auto simp: unconnected_def)
  qed
  then show "\<forall>e\<in>set es. effect_inside W w base e"
    "k \<notin> {''bash_eval'', ''write_file''} \<Longrightarrow> \<forall>e\<in>set es. reads_only e"
    "r = Inl err \<Longrightarrow> es \<noteq> [] \<Longrightarrow> k \<in> {''bash_eval'', ''write_file''} \<Longrightarrow> \<not> starts_with err ''Unavailable''"
    by blast+
  then show "skill_idempotent k \<Longrightarrow> \<forall>e\<in>set es. reads_only e"
    by (auto simp: skill_idempotent_def)
qed

lemma executed_effects:
  assumes "es = snd (fst (execute_skill W (with_workspace W base) req w)) \<or>
    es = snd (fst (execute_gated W (with_workspace W base) req w)) \<or>
    es = snd (fst (dispatch_classified W (with_workspace W base) (sq_skill req) (sq_arguments req) w))"
  shows "\<forall>e\<in>set es. effect_inside W w base e" "skill_idempotent (sq_skill req) \<Longrightarrow> \<forall>e\<in>set es. reads_only e"
proof -
  have "(\<forall>e\<in>set es. effect_inside W w base e) \<and> (skill_idempotent (sq_skill req) \<longrightarrow> (\<forall>e\<in>set es. reads_only e))"
  proof (cases "es = []")
    case False
    with assms obtain sd h r w' where "rg_skills (with_workspace W base) (sq_skill req) = Some (sd, h)"
        "h (sq_arguments req) w = ((r, es), w')"
      by (auto simp: execute_skill_def execute_gated_def dispatch_classified_def
          split: sum.splits option.splits prod.splits)
    from handler_effects(1,2) [OF this] show ?thesis by blast
  qed simp
  then show "\<forall>e\<in>set es. effect_inside W w base e" "skill_idempotent (sq_skill req) \<Longrightarrow> \<forall>e\<in>set es. reads_only e"
    by blast+
qed

text \<open>A world over the linked file system of \<open>Security\<close>.\<close>

definition demo_skills :: "unit skill_world" where
  "demo_skills = \<lparr>sw_fs = linked_fs, sw_guard = yes_guard (Fin 1), sw_env = (\<lambda>_. None),
     sw_shell = (\<lambda>_. quiet_shell), sw_shell_after = (\<lambda>_ w. w), sw_read = (\<lambda>_ _. Inl ''gone''),
     sw_write = (\<lambda>_ _ w. (Inr (), w)), sw_read_dir = (\<lambda>_ _. Inr []), sw_git = (\<lambda>_ _ w. (Inr [], w)),
     sw_show_int = (\<lambda>_. ''1'')\<rparr>"

lemma demo_write:
  "execute_skill demo_skills (with_workspace demo_skills ''/ws'')
     \<lparr>sq_skill = ''write_file'', sq_arguments = json_object [(''path'', JString ''src/../a/b.txt''), (''content'', JString ''x'')]\<rparr> () =
   ((\<lparr>sp_success = True, sp_output = ''Wrote 1 bytes to /ws/a/b.txt'', sp_error = None\<rparr>,
     [MadeDirs ''/ws/a'', WroteFile ''/ws/a/b.txt'' ''x'']), ())"
  by code_simp

lemma demo_read:
  "dispatch_classified demo_skills (with_workspace demo_skills ''/ws'') ''read_file''
     (json_object [(''path'', JString ''src'')]) () =
   ((Inl \<lparr>tf_class = FcFailed, tf_certainty = NoEffect, tf_message = ''Failed to read file /ws/src: gone''\<rparr>,
     [ReadFile ''/ws/src'']), ())"
  by code_simp

text \<open>
  C8: What the built-in skills do outside, through any of the three entries, and where. They read, list, run \<open>git\<close> and start
  shells only at canonical locations of existing paths under the root, listings and commands in directories; a shell
  gets a catalogued command, \<open>git\<close> only looks. They write only at a path without dots that extends the root by its
  components and consists of names below an existing directory whose canonical location is under the root, and make
  directories only below such a one and, while the root itself is no link, under the root. (A write follows a link
  at its very last component.) A skill with the idempotent profile does nothing but look; and through the two
  outside entries nothing happens at all when the probe gate or the membrane refuses the call.
\<close>

theorem skill_effects_contained:
  assumes "es = snd (fst (execute_skill W (with_workspace W base) req w)) \<or>
    es = snd (fst (execute_gated W (with_workspace W base) req w)) \<or>
    es = snd (fst (dispatch_classified W (with_workspace W base) (sq_skill req) (sq_arguments req) w))"
  shows "(\<forall>e\<in>set es. effect_inside W w base e) \<and> (skill_idempotent (sq_skill req) \<longrightarrow> (\<forall>e\<in>set es. reads_only e)) \<and>
    (probe_gate (sw_guard W) (sw_env W w) (sq_skill req) (sq_arguments req) \<noteq> Inr () \<or>
     pre_dispatch_check (gl_escape_debug (sw_guard W)) (sq_skill req) (sq_arguments req) \<noteq> Inr () \<longrightarrow>
       (\<forall>R. snd (fst (execute_gated W R req w)) = [] \<and>
         snd (fst (dispatch_classified W R (sq_skill req) (sq_arguments req) w)) = []))"
  using executed_effects [OF assms]
  by (auto simp: execute_skill_def execute_gated_def dispatch_classified_def split: sum.splits)

theorem skill_effects_contained_witness:
  "dirs_inside linked_fs () ''/ws'' ''/ws/a'' \<and> write_inside linked_fs () ''/ws'' ''/ws/a/b.txt''"
  using skill_effects_contained [of "[MadeDirs ''/ws/a'', WroteFile ''/ws/a/b.txt'' ''x'']" demo_skills "''/ws''"
      "\<lparr>sq_skill = ''write_file'', sq_arguments = json_object [(''path'', JString ''src/../a/b.txt''), (''content'', JString ''x'')]\<rparr>" "()"]
  by (simp add: demo_write) (simp add: demo_skills_def)

text \<open>
  C37: A fault that claims to have had no effect had none: when a dispatch is classified as without effect, be it
  refused, unavailable, or failed on an idempotent skill, no shell command was started and nothing was written,
  so repeating it is safe.
\<close>

theorem no_effect_faults_are_true:
  assumes "dispatch_classified W (with_workspace W base) skill args w = ((Inl f, es), w')" "tf_certainty f = NoEffect"
  shows "\<forall>e\<in>set es. reads_only e"
proof (cases "es = []")
  case False
  with assms(1) obtain sd h err where h: "rg_skills (with_workspace W base) skill = Some (sd, h)"
      "h args w = ((Inl err, es), w')" "f = classify_error skill err"
    by (auto simp: dispatch_classified_def map_err_Inl_iff split: sum.splits option.splits prod.splits)
  show ?thesis
  proof (cases "skill \<in> {''bash_eval'', ''write_file''}")
    case True
    then have "\<not> skill_idempotent skill" by (auto simp: skill_idempotent_def)
    with assms(2) h(3) have "starts_with err ''Unavailable''"
      by (auto simp: classify_error_def split: if_splits)
    with handler_effects(3) [OF h(1,2)] True False show ?thesis by blast
  qed (use handler_effects(4) [OF h(1,2)] in blast)
qed simp

theorem no_effect_faults_are_true_witness: "reads_only (ReadFile ''/ws/src'')"
  using no_effect_faults_are_true [OF demo_read] by simp

end
