(* ===== verification/Inference.thy ===== *)
theory Inference
  imports Json
begin

text \<open>
  \<open>src/inference.rs\<close>: the three inference backends behind one engine interface, the prompt template and the
  reading of tool calls out of model text. The HTTP client, the shared inference service, fresh identifiers and
  the JSON text functions are parameters; a 32-bit float is the decimal text it is written with.
\<close>

section \<open>Requests and responses\<close>

type_synonym f32_text = string

record tool_call =
  tc_id :: string
  tc_type :: string
  tc_name :: string
  tc_arguments :: string

record chat_turn =
  ct_content :: "string option"
  ct_reasoning :: "string option"
  ct_tool_calls :: "tool_call list option"
  ct_finish_reason :: "string option"

text \<open>The unified interface, as a record of its methods over the state \<open>'w\<close> of the outside world.\<close>

type_synonym 'w text_call = "'w \<Rightarrow> (string + string) \<times> 'w"

record 'w engine =
  en_model_id :: string
  en_endpoint :: string
  en_generate_with_tokens :: "string \<Rightarrow> string option \<Rightarrow> f32_text option \<Rightarrow> u32 option \<Rightarrow> 'w text_call"
  en_generate_chat :: "json list \<Rightarrow> f32_text option \<Rightarrow> u32 option \<Rightarrow> 'w text_call"
  en_chat_with_tools :: "json list \<Rightarrow> json list option \<Rightarrow> f32_text option \<Rightarrow> u32 option \<Rightarrow> 'w \<Rightarrow> (string + chat_turn) \<times> 'w"
  en_stream_chat :: "json list \<Rightarrow> f32_text option \<Rightarrow> u32 option \<Rightarrow> 'w \<Rightarrow> (string + (string + string) list) \<times> 'w"
  en_check_health :: "'w \<Rightarrow> bool \<times> 'w"

definition generate :: "'w engine \<Rightarrow> string \<Rightarrow> string option \<Rightarrow> f32_text option \<Rightarrow> 'w text_call" where
  "generate E prompt sys temp = en_generate_with_tokens E prompt sys temp (Some 1024)"

definition or_default :: "'a \<Rightarrow> 'a option \<Rightarrow> 'a" where
  "or_default d x = (case x of Some y \<Rightarrow> y | None \<Rightarrow> d)"

definition role_message :: "string \<Rightarrow> string \<Rightarrow> json" where
  "role_message role content = json_object [(''role'', JString role), (''content'', JString content)]"

section \<open>Decoding a response\<close>

text \<open>
  The derived decoders: an object is read by field name, an array by position and with exactly the fields; an
  optional field may be absent from an object or null. The parser of the text refuses a repeated field.
\<close>

fun struct_fields :: "string list \<Rightarrow> json \<Rightarrow> json option list option" where
  "struct_fields names (JObject m) = Some (map (map_of m) names)"
| "struct_fields names (JArray a) = (if length a = length names then Some (map Some a) else None)"
| "struct_fields names _ = None"

fun opt_field :: "(json \<Rightarrow> 'a option) \<Rightarrow> json option \<Rightarrow> 'a option option" where
  "opt_field d None = Some None"
| "opt_field d (Some JNull) = Some None"
| "opt_field d (Some v) = map_option Some (d v)"

definition req_field :: "(json \<Rightarrow> 'a option) \<Rightarrow> json option \<Rightarrow> 'a option" where
  "req_field d f = Option.bind f d"

fun decode_list :: "(json \<Rightarrow> 'a option) \<Rightarrow> json list \<Rightarrow> 'a list option" where
  "decode_list d [] = Some []"
| "decode_list d (v # vs) = Option.bind (d v) (\<lambda>x. map_option (Cons x) (decode_list d vs))"

definition decode_vec :: "(json \<Rightarrow> 'a option) \<Rightarrow> json \<Rightarrow> 'a list option" where
  "decode_vec d v = Option.bind (as_array v) (decode_list d)"

definition decode_function :: "json \<Rightarrow> (string \<times> string) option" where
  "decode_function v = (case struct_fields [''name'', ''arguments''] v of
     Some [n, a] \<Rightarrow> Option.bind (req_field as_str n) (\<lambda>n. map_option (Pair n) (req_field as_str a))
   | _ \<Rightarrow> None)"

definition decode_tool_call :: "json \<Rightarrow> tool_call option" where
  "decode_tool_call v = (case struct_fields [''id'', ''type'', ''function''] v of
     Some [i, t, f] \<Rightarrow>
       Option.bind (req_field as_str i) (\<lambda>i. Option.bind (req_field as_str t) (\<lambda>t.
         map_option (\<lambda>(n, a). \<lparr>tc_id = i, tc_type = t, tc_name = n, tc_arguments = a\<rparr>) (req_field decode_function f)))
   | _ \<Rightarrow> None)"

definition decode_message :: "json \<Rightarrow> (string option \<times> string option) option" where
  "decode_message v = (case struct_fields [''content'', ''reasoning''] v of
     Some [c, r] \<Rightarrow> Option.bind (opt_field as_str c) (\<lambda>c. map_option (Pair c) (opt_field as_str r))
   | _ \<Rightarrow> None)"

definition decode_choice :: "json \<Rightarrow> (string option \<times> string option) option" where
  "decode_choice v = (case struct_fields [''message''] v of Some [m] \<Rightarrow> req_field decode_message m | _ \<Rightarrow> None)"

definition decode_chat_response :: "json \<Rightarrow> (string option \<times> string option) list option" where
  "decode_chat_response v =
     (case struct_fields [''choices''] v of Some [c] \<Rightarrow> req_field (decode_vec decode_choice) c | _ \<Rightarrow> None)"

definition decode_tools_message :: "json \<Rightarrow> chat_turn option" where
  "decode_tools_message v = (case struct_fields [''content'', ''reasoning'', ''tool_calls''] v of
     Some [c, r, t] \<Rightarrow>
       Option.bind (opt_field as_str c) (\<lambda>c. Option.bind (opt_field as_str r) (\<lambda>r.
         map_option (\<lambda>t. \<lparr>ct_content = c, ct_reasoning = r, ct_tool_calls = t, ct_finish_reason = None\<rparr>)
           (opt_field (decode_vec decode_tool_call) t)))
   | _ \<Rightarrow> None)"

definition decode_tools_choice :: "json \<Rightarrow> chat_turn option" where
  "decode_tools_choice v = (case struct_fields [''message'', ''finish_reason''] v of
     Some [m, f] \<Rightarrow> Option.bind (req_field decode_tools_message m) (\<lambda>t.
       map_option (\<lambda>f. t\<lparr>ct_finish_reason := f\<rparr>) (opt_field as_str f))
   | _ \<Rightarrow> None)"

definition decode_tools_response :: "json \<Rightarrow> chat_turn list option" where
  "decode_tools_response v =
     (case struct_fields [''choices''] v of Some [c] \<Rightarrow> req_field (decode_vec decode_tools_choice) c | _ \<Rightarrow> None)"

section \<open>The HTTP backend\<close>

record http_reply =
  hr_status :: nat
  hr_status_text :: string
  hr_body :: "string + string"
  hr_chunks :: "(string + string) list"

text \<open>\<open>il_json_error\<close> is the text of the parser's or decoder's error for a body.\<close>

record 'w infer_libs =
  il_json :: libs
  il_pretty :: "json list \<Rightarrow> string option"
  il_show_json :: "json \<Rightarrow> string"
  il_float :: "f32_text \<Rightarrow> json"
  il_json_error :: "string \<Rightarrow> string"
  il_post :: "string \<Rightarrow> json \<Rightarrow> 'w \<Rightarrow> (string + http_reply) \<times> 'w"
  il_get :: "string \<Rightarrow> 'w \<Rightarrow> (string + http_reply) \<times> 'w"

record http_backend =
  hb_endpoint :: string
  hb_model_id :: string

definition new_http_backend :: "string option \<Rightarrow> string option \<Rightarrow> http_backend" where
  "new_http_backend endpoint model =
     \<lparr>hb_endpoint = or_default ''http://127.0.0.1:18006/v1/chat/completions'' endpoint,
      hb_model_id = or_default ''atlas-lightning-omni'' model\<rparr>"

definition is_success :: "http_reply \<Rightarrow> bool" where
  "is_success rep \<longleftrightarrow> 200 \<le> hr_status rep \<and> hr_status rep < 300"

definition u32_json :: "u32 \<Rightarrow> json" where
  "u32_json n = JNumber (PosInt (ucast n))"

definition chat_body :: "'w infer_libs \<Rightarrow> http_backend \<Rightarrow> json list \<Rightarrow> u32 \<Rightarrow> u32 option \<Rightarrow> f32_text option \<Rightarrow>
    (string \<times> json) list" where
  "chat_body L B messages dflt max_tokens temp =
     [(''model'', JString (hb_model_id B)), (''messages'', JArray messages),
      (''max_tokens'', u32_json (or_default dflt max_tokens)), (''temperature'', il_float L (or_default ''0.2'' temp))]"

text \<open>\<open>res.json().await?\<close>\<close>

definition reply_json :: "'w infer_libs \<Rightarrow> (json \<Rightarrow> 'a option) \<Rightarrow> http_reply \<Rightarrow> string + 'a" where
  "reply_json L d rep = try_bind (hr_body rep) (\<lambda>body.
     case Option.bind (lib_from_str (il_json L) body) d of Some x \<Rightarrow> Inr x | None \<Rightarrow> Inl (il_json_error L body))"

definition reply_text :: "http_reply \<Rightarrow> string" where
  "reply_text rep = (case hr_body rep of Inr t \<Rightarrow> t | Inl _ \<Rightarrow> [])"

definition endpoint_error :: "string \<Rightarrow> http_reply \<Rightarrow> string" where
  "endpoint_error what rep = what @ '' '' @ hr_status_text rep @ '': '' @ reply_text rep"

definition nonblank :: "string option \<Rightarrow> string option" where
  "nonblank t = (case t of Some s \<Rightarrow> (if trim s = [] then None else Some s) | None \<Rightarrow> None)"

definition chat_text :: "(string option \<times> string option) list \<Rightarrow> string" where
  "chat_text choices =
     (case choices of
        (c, r) # _ \<Rightarrow> (case nonblank c of Some s \<Rightarrow> s
          | None \<Rightarrow> (case nonblank r of Some s \<Rightarrow> s | None \<Rightarrow> ''Response received with zero text content''))
      | [] \<Rightarrow> ''Response received with zero text content'')"

definition http_generate_chat :: "'w infer_libs \<Rightarrow> http_backend \<Rightarrow> json list \<Rightarrow> f32_text option \<Rightarrow> u32 option \<Rightarrow>
    'w text_call" where
  "http_generate_chat L B messages temp max_tokens w =
     (let (res, w') = il_post L (hb_endpoint B) (json_object (chat_body L B messages 1024 max_tokens temp)) w
      in (case res of
            Inr rep \<Rightarrow> (if is_success rep then map_sum id chat_text (reply_json L decode_chat_response rep)
                        else Inl (endpoint_error ''Inference endpoint error'' rep))
          | Inl e \<Rightarrow> Inl (''Inference endpoint unreachable: '' @ e), w'))"

definition http_generate_with_tokens :: "'w infer_libs \<Rightarrow> http_backend \<Rightarrow> string \<Rightarrow> string option \<Rightarrow> f32_text option \<Rightarrow>
    u32 option \<Rightarrow> 'w text_call" where
  "http_generate_with_tokens L B prompt sys temp max_tokens =
     http_generate_chat L B ((case sys of Some s \<Rightarrow> [role_message ''system'' s] | None \<Rightarrow> []) @ [role_message ''user'' prompt])
       temp max_tokens"

definition no_choice_turn :: chat_turn where
  "no_choice_turn = \<lparr>ct_content = Some ''Zero response received from engine'', ct_reasoning = None, ct_tool_calls = None,
     ct_finish_reason = Some ''stop''\<rparr>"

definition http_chat_with_tools :: "'w infer_libs \<Rightarrow> http_backend \<Rightarrow> json list \<Rightarrow> json list option \<Rightarrow> f32_text option \<Rightarrow>
    u32 option \<Rightarrow> 'w \<Rightarrow> (string + chat_turn) \<times> 'w" where
  "http_chat_with_tools L B messages tools temp max_tokens w =
     (let body = json_object (chat_body L B messages 2048 max_tokens temp @
            (case tools of Some ts \<Rightarrow> (if ts = [] then [] else [(''tools'', JArray ts)]) | None \<Rightarrow> []));
          (res, w') = il_post L (hb_endpoint B) body w
      in (case res of
            Inr rep \<Rightarrow> (if is_success rep
               then map_sum id (\<lambda>cs. case cs of c # _ \<Rightarrow> c | [] \<Rightarrow> no_choice_turn) (reply_json L decode_tools_response rep)
               else Inl (endpoint_error ''Inference endpoint error'' rep))
          | Inl e \<Rightarrow> Inl (''Inference endpoint unreachable: '' @ e), w'))"

definition http_stream_chat :: "'w infer_libs \<Rightarrow> http_backend \<Rightarrow> json list \<Rightarrow> f32_text option \<Rightarrow> u32 option \<Rightarrow>
    'w \<Rightarrow> (string + (string + string) list) \<times> 'w" where
  "http_stream_chat L B messages temp max_tokens w =
     (let (res, w') = il_post L (hb_endpoint B)
            (json_object (chat_body L B messages 1024 max_tokens temp @ [(''stream'', JBool True)])) w
      in (try_bind res (\<lambda>rep. if is_success rep then Inr (hr_chunks rep)
            else Inl (endpoint_error ''Model seat streaming error'' rep)), w'))"

definition http_check_health :: "'w infer_libs \<Rightarrow> http_backend \<Rightarrow> 'w \<Rightarrow> bool \<times> 'w" where
  "http_check_health L B w =
     (let (res, w') = il_get L (str_replace ''/v1/chat/completions'' ''/v1/models'' (hb_endpoint B)) w
      in (case res of Inr rep \<Rightarrow> is_success rep | Inl _ \<Rightarrow> False, w'))"

definition http_engine :: "'w infer_libs \<Rightarrow> http_backend \<Rightarrow> 'w engine" where
  "http_engine L B = \<lparr>en_model_id = hb_model_id B, en_endpoint = hb_endpoint B,
     en_generate_with_tokens = http_generate_with_tokens L B, en_generate_chat = http_generate_chat L B,
     en_chat_with_tools = http_chat_with_tools L B, en_stream_chat = http_stream_chat L B,
     en_check_health = http_check_health L B\<rparr>"

section \<open>Tool calls in model text\<close>

text \<open>\<open>str::find\<close> and \<open>str::rfind\<close> of a character.\<close>

fun find_str :: "string \<Rightarrow> string \<Rightarrow> nat option" where
  "find_str [] p = (if p = [] then Some 0 else None)"
| "find_str (c # s) p = (if prefix p (c # s) then Some 0 else map_option Suc (find_str s p))"

fun rfind_char :: "string \<Rightarrow> char \<Rightarrow> nat option" where
  "rfind_char [] c = None"
| "rfind_char (x # s) c = (case rfind_char s c of Some i \<Rightarrow> Some (Suc i) | None \<Rightarrow> (if x = c then Some 0 else None))"

definition first_of :: "json \<Rightarrow> string \<Rightarrow> string \<Rightarrow> json option" where
  "first_of v k k' = (case json_get v k of Some x \<Rightarrow> Some x | None \<Rightarrow> json_get v k')"

definition extract_tool_call :: "libs \<Rightarrow> string \<Rightarrow> json \<Rightarrow> tool_call option" where
  "extract_tool_call L uid val =
     Option.bind (Option.bind (first_of val ''name'' ''tool'') as_str) (\<lambda>name.
       Some \<lparr>tc_id = ''call_'' @ uid, tc_type = ''function'', tc_name = name,
         tc_arguments = (case first_of val ''arguments'' ''params'' of
             Some (JString s) \<Rightarrow> s
           | Some args \<Rightarrow> or_default ''{}'' (lib_to_string L args)
           | None \<Rightarrow> ''{}'')\<rparr>)"

definition call_after :: "libs \<Rightarrow> string \<Rightarrow> string \<Rightarrow> string \<Rightarrow> (string option \<times> tool_call list option) option" where
  "call_after L uid before candidate =
     Option.bind (lib_from_str L candidate) (\<lambda>val. map_option (\<lambda>item.
       (let pre = trim before in (if pre = [] then None else Some pre, Some [item]))) (extract_tool_call L uid val))"

definition call_between :: "libs \<Rightarrow> string \<Rightarrow> string \<Rightarrow> string \<Rightarrow> string \<Rightarrow>
    (string option \<times> tool_call list option) option" where
  "call_between L uid opening closing txt =
     Option.bind (find_str txt opening) (\<lambda>start.
       (let code = drop (start + length opening) txt
        in Option.bind (find_str code closing) (\<lambda>stop. call_after L uid (take start txt) (trim (take stop code)))))"

definition call_in_braces :: "libs \<Rightarrow> string \<Rightarrow> string \<Rightarrow> (string option \<times> tool_call list option) option" where
  "call_in_braces L uid txt =
     Option.bind (find_str txt ''{'') (\<lambda>start. Option.bind (rfind_char txt (CHR ''}'')) (\<lambda>stop.
       if start < stop then call_after L uid (take start txt) (drop start (take (Suc stop) txt)) else None))"

definition fence :: string where "fence = [CHR 0x60, CHR 0x60, CHR 0x60]"

definition parse_structured_tool_calls :: "libs \<Rightarrow> string \<Rightarrow> string \<Rightarrow> string option \<times> tool_call list option" where
  "parse_structured_tool_calls L uid txt =
     (case call_between L uid (fence @ ''json'') fence txt of Some r \<Rightarrow> r
      | None \<Rightarrow> (case call_between L uid ''<tool_call>'' ''</tool_call>'' txt of Some r \<Rightarrow> r
      | None \<Rightarrow> (case call_in_braces L uid txt of Some r \<Rightarrow> r
      | None \<Rightarrow> (Some txt, None))))"

section \<open>The protocol backend\<close>

text \<open>The shared crate's request, and its service as two parameters.\<close>

record infer_request =
  iq_request_id :: string
  iq_model :: string
  iq_messages :: "(string \<times> string) list"
  iq_max_tokens :: u32
  iq_temperature :: f32_text
  iq_stop_sequences :: "string list"

record 'w infer_service =
  is_infer :: "infer_request \<Rightarrow> 'w \<Rightarrow> (string + string) \<times> 'w"
  is_capabilities :: "'w \<Rightarrow> bool \<times> 'w"
  is_uuid :: "'w \<Rightarrow> string \<times> 'w"

definition protocol_infer :: "'w infer_service \<Rightarrow> string \<Rightarrow> (string \<times> string) list \<Rightarrow> f32_text option \<Rightarrow>
    u32 option \<Rightarrow> 'w text_call" where
  "protocol_infer S model messages temp max_tokens w =
     (let (uid, w1) = is_uuid S w;
          (r, w2) = is_infer S \<lparr>iq_request_id = uid, iq_model = model, iq_messages = messages,
             iq_max_tokens = or_default 256 max_tokens, iq_temperature = or_default ''0.0'' temp,
             iq_stop_sequences = []\<rparr> w1
      in (map_err (\<lambda>e. ''Protocol inference error: '' @ e) r, w2))"

definition protocol_generate_with_tokens :: "'w infer_service \<Rightarrow> string \<Rightarrow> string \<Rightarrow> string option \<Rightarrow>
    f32_text option \<Rightarrow> u32 option \<Rightarrow> 'w text_call" where
  "protocol_generate_with_tokens S model prompt sys =
     protocol_infer S model ((case sys of Some s \<Rightarrow> [(''system'', s)] | None \<Rightarrow> []) @ [(''user'', prompt)])"

definition infer_message :: "json \<Rightarrow> string \<times> string" where
  "infer_message msg = (or_default ''user'' (get_str msg ''role''), or_default [] (get_str msg ''content''))"

definition protocol_generate_chat :: "'w infer_service \<Rightarrow> string \<Rightarrow> json list \<Rightarrow> f32_text option \<Rightarrow> u32 option \<Rightarrow>
    'w text_call" where
  "protocol_generate_chat S model messages = protocol_infer S model (map infer_message messages)"

definition protocol_chat_with_tools :: "libs \<Rightarrow> 'w infer_service \<Rightarrow> string \<Rightarrow> json list \<Rightarrow> json list option \<Rightarrow>
    f32_text option \<Rightarrow> u32 option \<Rightarrow> 'w \<Rightarrow> (string + chat_turn) \<times> 'w" where
  "protocol_chat_with_tools L S model messages tools temp max_tokens w =
     (case protocol_generate_chat S model messages temp max_tokens w of
        (Inl e, w1) \<Rightarrow> (Inl e, w1)
      | (Inr content, w1) \<Rightarrow>
          (let (uid, w2) = is_uuid S w1;
               (clean, calls) = parse_structured_tool_calls L uid content
           in (Inr \<lparr>ct_content = clean, ct_reasoning = None, ct_tool_calls = calls, ct_finish_reason = Some ''stop''\<rparr>,
              if calls = None then w1 else w2)))"

definition sse_data :: "string \<Rightarrow> string" where
  "sse_data payload = ''data: '' @ payload @ [CHR 0x0A, CHR 0x0A] @ ''data: [DONE]'' @ [CHR 0x0A, CHR 0x0A]"

definition protocol_stream_chat :: "'w infer_libs \<Rightarrow> 'w infer_service \<Rightarrow> string \<Rightarrow> json list \<Rightarrow> f32_text option \<Rightarrow>
    u32 option \<Rightarrow> 'w \<Rightarrow> (string + (string + string) list) \<times> 'w" where
  "protocol_stream_chat L S model messages temp max_tokens w =
     (case protocol_generate_chat S model messages temp max_tokens w of
        (Inl e, w1) \<Rightarrow> (Inl e, w1)
      | (Inr content, w1) \<Rightarrow>
          (let (uid, w2) = is_uuid S w1;
               chunk = json_object [(''id'', JString uid), (''object'', JString ''chat.completion.chunk''),
                 (''choices'', JArray [json_object [(''index'', JNumber (PosInt 0)),
                    (''delta'', json_object [(''content'', JString content)]), (''finish_reason'', JNull)]])]
           in (Inr [Inr (sse_data (il_show_json L chunk))], w2)))"

definition protocol_engine :: "'w infer_libs \<Rightarrow> 'w infer_service \<Rightarrow> string \<Rightarrow> 'w engine" where
  "protocol_engine L S model = \<lparr>en_model_id = model, en_endpoint = ''protocol://aien-inference-service'',
     en_generate_with_tokens = protocol_generate_with_tokens S model,
     en_generate_chat = protocol_generate_chat S model,
     en_chat_with_tools = protocol_chat_with_tools (il_json L) S model,
     en_stream_chat = protocol_stream_chat L S model,
     en_check_health = is_capabilities S\<rparr>"

definition with_mock :: "'w infer_libs \<Rightarrow> 'w infer_service \<Rightarrow> 'w engine" where
  "with_mock L mock = protocol_engine L mock ''mock-protocol-model''"

text \<open>The embedded adapter delegates every method; two of its constructors ignore their arguments and serve the mock.\<close>

definition embedded_engine :: "'w engine \<Rightarrow> 'w engine" where
  "embedded_engine inner = \<lparr>en_model_id = en_model_id inner, en_endpoint = en_endpoint inner,
     en_generate_with_tokens = (\<lambda>prompt sys temp mx. en_generate_with_tokens inner prompt sys temp mx),
     en_generate_chat = (\<lambda>ms temp mx. en_generate_chat inner ms temp mx),
     en_chat_with_tools = (\<lambda>ms tools temp mx. en_chat_with_tools inner ms tools temp mx),
     en_stream_chat = (\<lambda>ms temp mx. en_stream_chat inner ms temp mx),
     en_check_health = en_check_health inner\<rparr>"

definition new_embedded :: "'w infer_libs \<Rightarrow> 'w infer_service \<Rightarrow> string \<Rightarrow> 'w engine" where
  "new_embedded L S model = embedded_engine (protocol_engine L S model)"

definition embedded_reference_weights :: "'w infer_libs \<Rightarrow> 'w infer_service \<Rightarrow> 'c \<Rightarrow> string + 'w engine" where
  "embedded_reference_weights L mock config = Inr (embedded_engine (with_mock L mock))"

definition embedded_load_or_fallback :: "'w infer_libs \<Rightarrow> 'w infer_service \<Rightarrow> string option \<Rightarrow> string option \<Rightarrow>
    string + 'w engine" where
  "embedded_load_or_fallback L mock model_path tokenizer_path = Inr (embedded_engine (with_mock L mock))"

lemma embedded_engine_delegates [simp]: "embedded_engine inner = inner"
  by (simp add: embedded_engine_def)

section \<open>The prompt template\<close>

definition nl :: string where "nl = [CHR 0x0A]"

definition turn_text :: "string \<Rightarrow> string \<Rightarrow> string" where
  "turn_text role body = ''<|'' @ role @ ''|>'' @ nl @ body @ ''</s>'' @ nl"

definition tools_preamble :: "string \<Rightarrow> string" where
  "tools_preamble tools_json = ''You have access to the following tools:'' @ nl @ tools_json @ nl @ nl @
     ''To execute a tool call, output ONLY a JSON object in this format:'' @ nl @ fence @ ''json'' @ nl @ ''{'' @ nl @
     ''  \"name\": \"<tool_name>\",'' @ nl @ ''  \"arguments\": { ... }'' @ nl @ ''}'' @ nl @ fence @ nl @
     ''If no tool call is needed, provide your final response directly.'' @ nl"

definition call_text :: "json \<Rightarrow> string" where
  "call_text tc =
     (let fld = (\<lambda>k. Option.bind (json_get tc ''function'') (\<lambda>f. get_str f k))
      in fence @ ''json'' @ nl @ ''{\"name\": \"'' @ or_default [] (fld ''name'') @ ''\", \"arguments\": '' @
         or_default ''{}'' (fld ''arguments'') @ ''}'' @ nl @ fence @ nl)"

text \<open>The loop's state: the prompt so far and the system text that waits for the next turn.\<close>

definition flush_system :: "string \<times> string \<Rightarrow> string \<times> string" where
  "flush_system st = (case st of (prompt, sys) \<Rightarrow>
     if sys = [] then (prompt, sys) else (prompt @ turn_text ''system'' (trim sys), []))"

definition say :: "string \<Rightarrow> string \<times> string \<Rightarrow> string \<times> string" where
  "say t st = (fst st @ t, snd st)"

definition add_message :: "json \<Rightarrow> string \<times> string \<Rightarrow> string \<times> string" where
  "add_message msg st =
     (let role = or_default ''user'' (get_str msg ''role''); content = or_default [] (get_str msg ''content'')
      in if role = ''system'' then (fst st, (if snd st = [] then [] else snd st @ nl) @ content)
         else if role = ''user'' then say (turn_text ''user'' (trim content)) (flush_system st)
         else if role = ''assistant'' then
           (case Option.bind (json_get msg ''tool_calls'') as_array of
              Some calls \<Rightarrow> say (''<|assistant|>'' @ nl @ trim content @ trim (concat (map call_text calls)) @ nl @ ''</s>'' @ nl)
                (flush_system st)
            | None \<Rightarrow> say (turn_text ''assistant'' (trim content)) (flush_system st))
         else if role = ''tool'' then say (''<|user|>'' @ nl @ ''[Tool Output]: '' @ trim content @ ''</s>'' @ nl) st
         else say (turn_text ''user'' (trim content)) st)"

definition format_messages_to_prompt :: "'w infer_libs \<Rightarrow> json list \<Rightarrow> json list option \<Rightarrow> string" where
  "format_messages_to_prompt L messages tools =
     (let sys = (case tools of Some ts \<Rightarrow> (if ts = [] then [] else tools_preamble (or_default [] (il_pretty L ts)))
            | None \<Rightarrow> [])
      in fst (flush_system (fold add_message messages ([], sys))) @ ''<|assistant|>'' @ nl)"

section \<open>Search\<close>

lemma find_str_first:
  "p \<noteq> [] \<Longrightarrow> \<not> str_contains (a @ butlast p) p \<Longrightarrow> find_str (a @ p @ b) p = Some (length a)"
proof (induction a)
  case Nil
  then show ?case by (cases p) auto
next
  case (Cons c a)
  have "\<not> prefix p (c # a @ p @ b)"
  proof
    assume "prefix p (c # a @ p @ b)"
    moreover have "c # a @ p @ b = (c # a @ butlast p) @ (last p # b)" using Cons.prems(1) by simp
    ultimately have "prefix p ((c # a @ butlast p) @ (last p # b))" by simp
    moreover have "length p \<le> length (c # a @ butlast p)" by simp
    ultimately have "prefix p (c # a @ butlast p)" by (meson prefixI prefix_length_prefix)
    with Cons.prems(2) show False by simp
  qed
  with Cons show ?case by simp
qed

lemma find_str_Some:
  "find_str s p = Some i \<Longrightarrow> \<exists>b. s = take i s @ p @ b \<and> i + length p \<le> length s"
proof (induction s arbitrary: i)
  case Nil
  then show ?case by (auto split: if_splits)
next
  case (Cons c s)
  show ?case
  proof (cases "prefix p (c # s)")
    case True
    then obtain b where b: "c # s = p @ b" by (auto simp: prefix_def)
    from True Cons.prems have "i = 0" by simp
    with b show ?thesis by simp
  next
    case False
    with Cons.prems obtain j where j: "find_str s p = Some j" "i = Suc j" by auto
    from Cons.IH [OF j(1)] j(2) show ?thesis by auto
  qed
qed

section \<open>Properties\<close>

text \<open>
  The HTTP backend fails closed: a chat returns text exactly when the endpoint answered with a success status and
  a body that parses and decodes as a chat response, the world is the one after that single request, and the text
  is never blank.
\<close>

lemma nonblank_Some: "nonblank t = Some s \<Longrightarrow> t = Some s \<and> trim s \<noteq> []"
  by (auto simp: nonblank_def split: option.splits if_splits)

lemma trim_fixed_text: "trim ''Response received with zero text content'' \<noteq> []"
  by code_simp

lemma chat_text_nonblank: "trim (chat_text choices) \<noteq> []"
  using trim_fixed_text
  by (auto simp: chat_text_def dest: nonblank_Some split: list.split option.split)

lemma http_chat_fails_closed:
  "let (answer, w1) = il_post L (hb_endpoint B) (json_object (chat_body L B messages 1024 max_tokens temp)) w;
       (r, w') = http_generate_chat L B messages temp max_tokens w
   in w' = w1 \<and>
     (is_ok r = (case answer of Inl _ \<Rightarrow> False
        | Inr rep \<Rightarrow> is_success rep \<and> is_ok (reply_json L decode_chat_response rep))) \<and>
     (case r of Inr t \<Rightarrow> trim t \<noteq> [] | Inl _ \<Rightarrow> True)"
  by (auto simp: http_generate_chat_def chat_text_nonblank map_sum_def is_ok_def split: prod.splits sum.splits)

lemma call_between_first:
  assumes "opening \<noteq> []" "\<not> str_contains (pre @ butlast opening) opening"
    "closing \<noteq> []" "\<not> str_contains (body @ butlast closing) closing"
  shows "call_between L uid opening closing (pre @ opening @ body @ closing @ post) = call_after L uid pre (trim body)"
  using find_str_first [OF assms(1,2), of "body @ closing @ post"] find_str_first [OF assms(3,4), of post]
  by (simp add: call_between_def Let_def)

text \<open>
  C38: The format that the prompt asks for is read back: a fenced block whose body is the text of an object with a
  name and arguments, the first of its kind in the reply, becomes exactly one call of that name with the
  arguments' own text, under a fresh identifier, and what stood before the fence becomes the content.
\<close>

theorem prompted_call_is_read_back:
  assumes "\<not> str_contains (pre @ fence @ ''jso'') (fence @ ''json'')" "\<not> str_contains (body @ butlast fence) fence"
    "lib_from_str L (trim body) = Some val" "get_str val ''name'' = Some name"
    "json_get val ''arguments'' = Some args" "lib_to_string L args = Some args_text" "\<not> is_string args"
  shows "parse_structured_tool_calls L uid (pre @ fence @ ''json'' @ body @ fence @ post) =
    ((if trim pre = [] then None else Some (trim pre)),
     Some [\<lparr>tc_id = ''call_'' @ uid, tc_type = ''function'', tc_name = name, tc_arguments = args_text\<rparr>])"
proof -
  have ne: "fence @ ''json'' \<noteq> []" "fence \<noteq> []" by (simp_all add: fence_def)
  have but: "butlast (fence @ ''json'') = fence @ ''jso''" by (simp add: fence_def)
  have "call_between L uid (fence @ ''json'') fence (pre @ (fence @ ''json'') @ body @ fence @ post) =
      call_after L uid pre (trim body)"
    by (rule call_between_first [OF ne(1) _ ne(2)]) (use assms(1,2) in \<open>simp_all only: but append.assoc not_False_eq_True\<close>)
  moreover obtain nv where nv: "json_get val ''name'' = Some nv" "as_str nv = Some name"
    using assms(4) by (auto simp: get_str_def bind_eq_Some_conv)
  have "extract_tool_call L uid val =
      Some \<lparr>tc_id = ''call_'' @ uid, tc_type = ''function'', tc_name = name, tc_arguments = args_text\<rparr>"
    using nv assms(5-7) by (cases args) (simp_all add: extract_tool_call_def first_of_def or_default_def)
  with assms(3) have "call_after L uid pre (trim body) = Some ((if trim pre = [] then None else Some (trim pre)),
      Some [\<lparr>tc_id = ''call_'' @ uid, tc_type = ''function'', tc_name = name, tc_arguments = args_text\<rparr>])"
    by (simp add: call_after_def Let_def)
  ultimately show ?thesis by (simp add: parse_structured_tool_calls_def)
qed

text \<open>A library that knows one text.\<close>

definition one_call :: json where
  "one_call = JObject [(''arguments'', JObject []), (''name'', JString ''ls'')]"

definition one_text_libs :: libs where
  "one_text_libs = \<lparr>lib_to_string = (\<lambda>_. Some ''{}''),
     lib_from_str = (\<lambda>t. if t = ''{\"arguments\":{},\"name\":\"ls\"}'' then Some one_call else None),
     lib_sha256 = (\<lambda>_. [])\<rparr>"

theorem prompted_call_is_read_back_witness:
  "parse_structured_tool_calls one_text_libs ''7'' (''ok '' @ fence @ ''json'' @ '' {\"arguments\":{},\"name\":\"ls\"} '' @ fence @ ''!'') =
   (Some ''ok'', Some [\<lparr>tc_id = ''call_7'', tc_type = ''function'', tc_name = ''ls'', tc_arguments = ''{}''\<rparr>])"
proof -
  have 1: "\<not> str_contains (''ok '' @ fence @ ''jso'') (fence @ ''json'')" by code_simp
  have 2: "\<not> str_contains ('' {\"arguments\":{},\"name\":\"ls\"} '' @ butlast fence) fence" by code_simp
  have 3: "lib_from_str one_text_libs (trim '' {\"arguments\":{},\"name\":\"ls\"} '') = Some one_call" by code_simp
  have 4: "get_str one_call ''name'' = Some ''ls''" by code_simp
  have 5: "json_get one_call ''arguments'' = Some (JObject [])" by code_simp
  have 6: "lib_to_string one_text_libs (JObject []) = Some ''{}''" by (simp add: one_text_libs_def)
  have 7: "trim ''ok '' = ''ok''" by code_simp
  show ?thesis using prompted_call_is_read_back [OF 1 2 3 4 5 6, of "''7''" "''!''"] unfolding 7 by simp
qed

end
