(* ===== verification/Agent.thy ===== *)
theory Agent
  imports DagExec Skills Inference
begin

text \<open>
  \<open>src/agent.rs\<close>: one task of the agent, as its turns of a model call and the tool calls it asks for, with the
  record of every failed attempt; and the adapter at the end of \<open>src/orchestration/workflow.rs\<close> that makes a task's
  result the outcome of a workflow task. The model, the tool dispatcher, the clock, fresh identifiers and the
  outcome of the race between a dispatch, a cancellation and the deadline are parameters.
\<close>

section \<open>Records\<close>

definition DEFAULT_MAX_CONTEXT_TOKENS :: nat where "DEFAULT_MAX_CONTEXT_TOKENS = 8192"

record tool_exec =
  te_call_id :: string
  te_tool_name :: string
  te_arguments :: json
  te_output :: string
  te_success :: bool
  te_failure :: "failure_record option"
  te_retry_failures :: "failure_record list"

record failure_policy =
  fp_retry :: retry_policy
  fp_timeout_ms :: "nat option"

record agent_step =
  as_index :: nat
  as_thought :: "string option"
  as_tool_calls :: "tool_exec list"

record agent_result =
  ar_final_response :: string
  ar_steps :: "agent_step list"
  ar_turns_taken :: nat
  ar_duration_ms :: nat
  ar_completed :: bool

text \<open>
  The engine and what it acts on. \<open>ae_race\<close> says which branch of the guarded dispatch finishes first, and
  \<open>ae_dropped\<close> is the world left by a dispatch that was dropped while it ran. \<open>ae_turn_db\<close> records the finished
  task in the database, when there is one; its result is ignored.
\<close>

datatype race = AnswerFirst | CancelFirst | DeadlineFirst

record 'w agent =
  ae_libs :: libs
  ae_engine :: "'w engine"
  ae_tools :: "json list"
  ae_dispatch :: "string \<Rightarrow> json \<Rightarrow> 'w \<Rightarrow> (tool_fault + string) \<times> 'w"
  ae_race :: "string \<Rightarrow> json \<Rightarrow> 'w \<Rightarrow> race"
  ae_dropped :: "string \<Rightarrow> json \<Rightarrow> 'w \<Rightarrow> 'w"
  ae_cancelled :: "'w \<Rightarrow> bool"
  ae_now :: "'w \<Rightarrow> i64"
  ae_elapsed :: "'w \<Rightarrow> nat"
  ae_fresh_run :: "'w \<Rightarrow> run_id"
  ae_fresh_event :: "'w \<Rightarrow> nat \<Rightarrow> event_id"
  ae_env :: "'w \<Rightarrow> string \<Rightarrow> string option"
  ae_show_nat :: "nat \<Rightarrow> string"
  ae_turn_db :: "(string \<Rightarrow> string \<Rightarrow> string \<Rightarrow> u64 \<Rightarrow> 'w \<Rightarrow> 'w) option"
  ae_policy :: failure_policy
  ae_bus :: "session_id option option"
  ae_run_id :: "run_id option"

text \<open>The builder methods; a cancellation token comes with the races it can win.\<close>

definition with_dispatcher :: "(string \<Rightarrow> json \<Rightarrow> 'w \<Rightarrow> (tool_fault + string) \<times> 'w) \<Rightarrow> (string \<Rightarrow> json \<Rightarrow> 'w \<Rightarrow> 'w) \<Rightarrow>
    'w agent \<Rightarrow> 'w agent" where
  "with_dispatcher dispatch dropped A = A\<lparr>ae_dispatch := dispatch, ae_dropped := dropped\<rparr>"

definition with_failure_policy :: "failure_policy \<Rightarrow> 'w agent \<Rightarrow> 'w agent" where
  "with_failure_policy policy A = A\<lparr>ae_policy := policy\<rparr>"

definition with_cancel_token :: "('w \<Rightarrow> bool) \<Rightarrow> (string \<Rightarrow> json \<Rightarrow> 'w \<Rightarrow> race) \<Rightarrow> 'w agent \<Rightarrow> 'w agent" where
  "with_cancel_token cancelled race A = A\<lparr>ae_cancelled := cancelled, ae_race := race\<rparr>"

definition agent_with_event_bus :: "session_id option \<Rightarrow> 'w agent \<Rightarrow> 'w agent" where
  "agent_with_event_bus session A = A\<lparr>ae_bus := Some session\<rparr>"

definition with_run_id :: "run_id \<Rightarrow> 'w agent \<Rightarrow> 'w agent" where
  "with_run_id run A = A\<lparr>ae_run_id := Some run\<rparr>"

section \<open>One dispatch\<close>

definition fault :: "failure_class \<Rightarrow> effect_certainty \<Rightarrow> string \<Rightarrow> tool_fault" where
  "fault c e m = \<lparr>tf_class = c, tf_certainty = e, tf_message = m\<rparr>"

text \<open>Without a deadline the race is between the answer and the cancellation only.\<close>

definition attempt_tool :: "'w agent \<Rightarrow> string \<Rightarrow> json \<Rightarrow> bool \<Rightarrow> 'w \<Rightarrow> (tool_fault + string) \<times> 'w" where
  "attempt_tool A name args idempotent w =
     (let unknown = (if idempotent then NoEffect else EcUncertain)
      in if ae_cancelled A w then (Inl (fault FcCancelled NoEffect ''cancelled before dispatch''), w)
         else (case (ae_race A name args w, fp_timeout_ms (ae_policy A)) of
             (CancelFirst, _) \<Rightarrow> (Inl (fault FcCancelled unknown ''cancelled while running''), ae_dropped A name args w)
           | (DeadlineFirst, Some ms) \<Rightarrow>
               (Inl (fault FcTimeout unknown (''deadline of '' @ ae_show_nat A ms @ '' ms exceeded'')), ae_dropped A name args w)
           | _ \<Rightarrow> ae_dispatch A name args w))"

section \<open>The context window\<close>

definition count_words :: "string \<Rightarrow> nat" where
  "count_words t = (length (split_whitespace t) * 4) div 3 + 4"

definition message_tokens :: "libs \<Rightarrow> json \<Rightarrow> nat" where
  "message_tokens L m =
     (case get_str m ''content'' of Some c \<Rightarrow> count_words c | None \<Rightarrow> 0) +
     (case Option.bind (json_get m ''tool_calls'') as_array of
        Some calls \<Rightarrow> sum_list (map (\<lambda>call. case lib_to_string L call of Some t \<Rightarrow> count_words t | None \<Rightarrow> 0) calls)
      | None \<Rightarrow> 0)"

definition estimate_tokens :: "libs \<Rightarrow> json list \<Rightarrow> nat" where
  "estimate_tokens L messages = sum_list (map (message_tokens L) messages)"

text \<open>\<open>messages.remove(2)\<close>\<close>

definition remove_at :: "nat \<Rightarrow> 'a list \<Rightarrow> 'a list" where
  "remove_at i xs = take i xs @ drop (Suc i) xs"

function prune_loop :: "libs \<Rightarrow> nat \<Rightarrow> json list \<Rightarrow> json list" where
  "prune_loop L budget messages =
     (if length messages > 2 \<and> estimate_tokens L messages > budget
      then prune_loop L budget (remove_at 2 messages) else messages)"
  by pat_completeness auto
termination
  by (relation "measure (\<lambda>(L, b, ms). length ms)") (auto simp: remove_at_def)

declare prune_loop.simps [simp del]

definition prune_context_window :: "libs \<Rightarrow> json list \<Rightarrow> nat \<Rightarrow> bool \<times> json list" where
  "prune_context_window L messages budget =
     (if length messages \<le> 2 then (False, messages)
      else (let kept = prune_loop L budget messages in (length kept < length messages, kept)))"

section \<open>A tool call\<close>

text \<open>What the task carries from call to call; \<open>tk_published\<close> are the envelopes handed to the bus, in order.\<close>

record 'w task_run =
  tk_world :: 'w
  tk_messages :: "json list"
  tk_steps :: "agent_step list"
  tk_failure_seq :: nat
  tk_last_failed :: "string option"
  tk_published :: "event_envelope list"

definition tool_failure_record :: "'w agent \<Rightarrow> run_id \<Rightarrow> nat \<Rightarrow> tool_call \<Rightarrow> json \<Rightarrow> string option \<Rightarrow> nat \<Rightarrow>
    attempt_failure \<Rightarrow> failure_record" where
  "tool_failure_record A rid turn tc args parent sq a =
     push_cause (ae_libs A) ''tool_dispatch'' (redact_payload_echoes (tf_message (af_fault a)) args) (Some args)
       (new_failure_record sq rid turn (tc_id tc) parent (tc_name tc) (af_attempt a) (tf_class (af_fault a))
         (tf_certainty (af_fault a)) (af_created_at a) (af_failed_at a))"

text \<open>The loop over the failed attempts: a number, a record and, with a bus, an event for each.\<close>

definition record_attempt :: "'w agent \<Rightarrow> run_id \<Rightarrow> nat \<Rightarrow> tool_call \<Rightarrow> json \<Rightarrow> attempt_failure \<Rightarrow> 'w task_run \<Rightarrow>
    failure_record \<times> 'w task_run" where
  "record_attempt A rid turn tc args a s =
     (let sq = tk_failure_seq s + 1;
          rec = tool_failure_record A rid turn tc args (tk_last_failed s) sq a;
          sent = (case ae_bus A of
              Some sid \<Rightarrow> [new_envelope (ae_fresh_event A (tk_world s) sq) (ae_now A (tk_world s)) (StepFailed rec) sid (Some rid) sq]
            | None \<Rightarrow> [])
      in (rec, s\<lparr>tk_failure_seq := sq, tk_published := tk_published s @ sent\<rparr>))"

fun record_attempts :: "'w agent \<Rightarrow> run_id \<Rightarrow> nat \<Rightarrow> tool_call \<Rightarrow> json \<Rightarrow> attempt_failure list \<Rightarrow> 'w task_run \<Rightarrow>
    failure_record list \<times> 'w task_run" where
  "record_attempts A rid turn tc args [] s = ([], s)"
| "record_attempts A rid turn tc args (a # as) s =
     (case record_attempt A rid turn tc args a s of (rec, s1) \<Rightarrow>
        (case record_attempts A rid turn tc args as s1 of (recs, s2) \<Rightarrow> (rec # recs, s2)))"

definition call_args :: "libs \<Rightarrow> tool_call \<Rightarrow> json" where
  "call_args L tc = (case lib_from_str L (tc_arguments tc) of Some v \<Rightarrow> v
     | None \<Rightarrow> json_object [(''raw'', JString (tc_arguments tc))])"

definition halt_reason :: "tool_call \<Rightarrow> tool_fault + string \<Rightarrow> string option" where
  "halt_reason tc r =
     (case r of
        Inl f \<Rightarrow> (if tf_class f = FcApprovalPending
            then Some (''Halted: tool call '' @ tc_id tc @ '' is waiting for approval and will not be replayed automatically.'')
            else if tf_class f = FcCancelled then Some (''Run cancelled during tool call '' @ tc_id tc @ ''.'')
            else None)
      | Inr _ \<Rightarrow> None)"

definition tool_message :: "tool_call \<Rightarrow> string \<Rightarrow> json" where
  "tool_message tc out = json_object [(''role'', JString ''tool''), (''tool_call_id'', JString (tc_id tc)),
     (''content'', JString out)]"

definition run_tool_call :: "'w agent \<Rightarrow> run_id \<Rightarrow> nat \<Rightarrow> tool_call \<Rightarrow> 'w task_run \<Rightarrow>
    (tool_exec \<times> string option) \<times> 'w task_run" where
  "run_tool_call A rid turn tc s =
     (let args = call_args (ae_libs A) tc;
          idempotent = skill_idempotent (tc_name tc);
          ((result, failed), w') = retry_loop (ae_now A) (fp_retry (ae_policy A)) idempotent
            (\<lambda>_. attempt_tool A (tc_name tc) args idempotent) (tk_world s);
          (recs, s1) = record_attempts A rid turn tc args failed (s\<lparr>tk_world := w'\<rparr>);
          output = (case result of Inr out \<Rightarrow> out | Inl f \<Rightarrow> redact_payload_echoes (tf_message f) args)
      in ((\<lparr>te_call_id = tc_id tc, te_tool_name = tc_name tc, te_arguments = args, te_output = output,
            te_success = is_ok result,
            te_failure = (if is_ok result \<or> recs = [] then None else Some (last recs)),
            te_retry_failures = (if is_ok result then recs else butlast recs)\<rparr>,
           halt_reason tc result),
          s1\<lparr>tk_last_failed := (if is_ok result then None else Some (tc_id tc)),
             tk_messages := tk_messages s1 @ [tool_message tc output]\<rparr>))"

text \<open>The loop over the calls of a turn, left at the first one that halts the task.\<close>

fun run_tool_calls :: "'w agent \<Rightarrow> run_id \<Rightarrow> nat \<Rightarrow> tool_call list \<Rightarrow> 'w task_run \<Rightarrow>
    (tool_exec list \<times> string option) \<times> 'w task_run" where
  "run_tool_calls A rid turn [] s = (([], None), s)"
| "run_tool_calls A rid turn (tc # tcs) s =
     (case run_tool_call A rid turn tc s of
        ((e, Some reason), s1) \<Rightarrow> (([e], Some reason), s1)
      | ((e, None), s1) \<Rightarrow>
          (case run_tool_calls A rid turn tcs s1 of ((es, h), s2) \<Rightarrow> ((e # es, h), s2)))"

section \<open>The turns\<close>

definition call_message :: "string \<Rightarrow> tool_call list \<Rightarrow> json" where
  "call_message content tcs = json_object [(''role'', JString ''assistant''), (''content'', JString content),
     (''tool_calls'', JArray (map (\<lambda>tc. json_object [(''id'', JString (tc_id tc)), (''type'', JString ''function''),
        (''function'', json_object [(''name'', JString (tc_name tc)), (''arguments'', JString (tc_arguments tc))])]) tcs))]"

definition answer_text :: "chat_turn \<Rightarrow> string" where
  "answer_text t =
     (let content = or_default [] (ct_content t)
      in if trim content \<noteq> [] then content
         else or_default ''Task processed with zero textual output.'' (ct_reasoning t))"

text \<open>How a turn ends: with an error of the model, with the task's final text, or with the next turn.\<close>

datatype turn_end = ModelError string | Halted string | Answered string | GoOn

definition agent_turn :: "'w agent \<Rightarrow> run_id \<Rightarrow> nat \<Rightarrow> 'w task_run \<Rightarrow> turn_end \<times> 'w task_run" where
  "agent_turn A rid turn s =
     (let ms = snd (prune_context_window (ae_libs A) (tk_messages s) DEFAULT_MAX_CONTEXT_TOKENS);
          (r, w') = en_chat_with_tools (ae_engine A) ms (Some (ae_tools A)) (Some ''0.2'') (Some 2048) (tk_world s);
          s1 = s\<lparr>tk_messages := ms, tk_world := w'\<rparr>
      in case r of
           Inl e \<Rightarrow> (ModelError e, s1)
         | Inr t \<Rightarrow>
             (case ct_tool_calls t of
                Some (tc # tcs) \<Rightarrow>
                  (let s2 = s1\<lparr>tk_messages := tk_messages s1 @ [call_message (or_default [] (ct_content t)) (tc # tcs)]\<rparr>;
                       ((es, halted), s3) = run_tool_calls A rid turn (tc # tcs) s2;
                       s4 = s3\<lparr>tk_steps := tk_steps s3 @ [\<lparr>as_index = turn, as_thought = ct_reasoning t, as_tool_calls = es\<rparr>]\<rparr>
                   in (case halted of Some reason \<Rightarrow> Halted reason | None \<Rightarrow> GoOn, s4))
              | _ \<Rightarrow>
                  (Answered (answer_text t),
                   s1\<lparr>tk_steps := tk_steps s1 @ [\<lparr>as_index = turn, as_thought = ct_reasoning t, as_tool_calls = []\<rparr>]\<rparr>)))"

text \<open>\<open>for turn in 1..=max_turns\<close>, with \<open>left\<close> turns to go; the result gives the last turn taken.\<close>

fun agent_turns :: "'w agent \<Rightarrow> run_id \<Rightarrow> nat \<Rightarrow> nat \<Rightarrow> 'w task_run \<Rightarrow> (turn_end \<times> nat) \<times> 'w task_run" where
  "agent_turns A rid 0 taken s = ((GoOn, taken), s)"
| "agent_turns A rid (Suc left) taken s =
     (case agent_turn A rid (Suc taken) s of
        (GoOn, s') \<Rightarrow> agent_turns A rid left (Suc taken) s'
      | (e, s') \<Rightarrow> ((e, Suc taken), s'))"

definition default_system :: "string \<Rightarrow> string \<Rightarrow> string" where
  "default_system user home =
     ''You are AIEN, a sovereign native AI systems agent running on NVIDIA DGX Spark (Grace Blackwell GB10) as user '' @ user @
     ''. Active workspaces reside strictly in '' @ home @ ''/workspace/ (aegis-runtime, aien-harness-publish, etc.) and '' @ home @
     ''/atlas-prime-workspace/. Default working directory is '' @ home @
     ''/workspace. You have native tools available to run a catalogued local command (bash_eval: git status, git diff, git log -1 --oneline, or ls), inspect files (read_file, list_dir, git_status), and modify files (write_file). Memory search is not connected. Do not claim that it is. Never run broad root filesystem scans or find /. Invoke tools directly on specific workspace targets. Adhere strictly to the unslop standard: zero em dashes and zero en dashes, no transitional fluff, and direct technical proof. When finished, provide a concise final summary.''"

definition start_run :: "'w agent \<Rightarrow> string \<Rightarrow> string option \<Rightarrow> 'w \<Rightarrow> 'w task_run" where
  "start_run A goal sys w =
     \<lparr>tk_world = w,
      tk_messages = [role_message ''system'' (or_default (default_system (or_default ''sovereign'' (ae_env A w ''USER''))
         (or_default ''.'' (ae_env A w ''HOME''))) sys), role_message ''user'' goal],
      tk_steps = [], tk_failure_seq = 0, tk_last_failed = None, tk_published = []\<rparr>"

definition turn_limit_text :: "'w agent \<Rightarrow> nat \<Rightarrow> string" where
  "turn_limit_text A n =
     ''Agent reached maximum turn limit ('' @ ae_show_nat A n @ '') before producing terminal output.''"

definition execute_task :: "'w agent \<Rightarrow> string \<Rightarrow> string option \<Rightarrow> nat \<Rightarrow> 'w \<Rightarrow>
    (string + agent_result) \<times> 'w task_run" where
  "execute_task A goal sys max_turns w =
     (let rid = or_default (ae_fresh_run A w) (ae_run_id A);
          ((ended, taken), s) = agent_turns A rid max_turns 0 (start_run A goal sys w);
          finish = (\<lambda>final completed.
            let ms = ae_elapsed A (tk_world s);
                s' = (case ae_turn_db A of
                    Some db \<Rightarrow> s\<lparr>tk_world := db ''agent_autonomous'' goal final (of_nat ms) (tk_world s)\<rparr> | None \<Rightarrow> s)
            in (Inr \<lparr>ar_final_response = final, ar_steps = tk_steps s, ar_turns_taken = taken, ar_duration_ms = ms,
                  ar_completed = completed\<rparr>, s'))
      in case ended of
           ModelError e \<Rightarrow> (Inl e, s)
         | Halted reason \<Rightarrow> finish reason False
         | Answered t \<Rightarrow> finish t True
         | GoOn \<Rightarrow> finish (turn_limit_text A max_turns) False)"

section \<open>As a workflow task\<close>

definition task_calls :: "agent_result \<Rightarrow> tool_exec list" where
  "task_calls r = concat (map as_tool_calls (ar_steps r))"

definition agent_outcome :: "agent_result \<Rightarrow> task_outcome" where
  "agent_outcome r =
     (let failures = List.map_filter te_failure (task_calls r)
      in if failures \<noteq> [] then
           (let f = last failures
            in if fr_class f = FcApprovalPending then OutApprovalPending
               else OutFailed (fault (fr_class f) (fr_certainty f)
                 (case fr_cause f of c # _ \<Rightarrow> ce_message c | [] \<Rightarrow> ''agent tool call failed'')))
         else if \<exists>c\<in>set (task_calls r). \<not> te_success c
           then OutFailed (fault FcFailed EcUncertain ''agent tool call failed without a failure record'')
         else if ar_completed r then OutCompleted (json_object [(''final_response'', JString (ar_final_response r))])
         else OutFailed (fault FcFailed EcUncertain ''agent did not complete within its turn budget''))"

definition run_agent_task :: "'w agent \<Rightarrow> string \<Rightarrow> nat \<Rightarrow> 'w \<Rightarrow> task_outcome \<times> 'w task_run" where
  "run_agent_task A goal max_turns w =
     (case execute_task A goal None max_turns w of
        (Inr r, s) \<Rightarrow> (agent_outcome r, s)
      | (Inl e, s) \<Rightarrow> (OutFailed (fault FcFailed EcUncertain
          (redact_payload_echoes e (json_object [(''goal'', JString goal)]))), s))"

section \<open>Pruning\<close>

text \<open>
  What is kept is the first two messages and the shortest tail reached by dropping the oldest of the others one
  at a time until the estimate fits, or all of them.
\<close>

lemma prune_loop_shape:
  "\<exists>k. prune_loop L budget ms = take 2 ms @ drop (2 + k) ms \<and> 2 + k \<le> max 2 (length ms) \<and>
     (length (prune_loop L budget ms) \<le> 2 \<or> estimate_tokens L (prune_loop L budget ms) \<le> budget) \<and>
     (\<forall>j<k. estimate_tokens L (take 2 ms @ drop (2 + j) ms) > budget)"
proof (induction L budget ms rule: prune_loop.induct)
  case (1 L budget ms)
  note unfold = prune_loop.simps [of L budget ms]
  show ?case
  proof (cases "length ms > 2 \<and> estimate_tokens L ms > budget")
    case False
    then have "prune_loop L budget ms = ms" using unfold by (simp only: if_False simp_thms)
    with False show ?thesis by (intro exI [of _ 0]) auto
  next
    case True
    let ?ms = "remove_at 2 ms"
    have len: "length ?ms = length ms - 1" using True by (simp add: remove_at_def, arith)
    have shape: "take 2 ?ms @ drop (2 + j) ?ms = take 2 ms @ drop (2 + Suc j) ms" for j
      using True by (simp add: remove_at_def numeral_3_eq_3)
    have eq: "prune_loop L budget ms = prune_loop L budget ?ms" using True unfold by (simp only: if_True simp_thms)
    from 1 [OF True] obtain k where k: "prune_loop L budget ?ms = take 2 ?ms @ drop (2 + k) ?ms"
        "2 + k \<le> max 2 (length ?ms)"
        "length (prune_loop L budget ?ms) \<le> 2 \<or> estimate_tokens L (prune_loop L budget ?ms) \<le> budget"
        "\<forall>j<k. estimate_tokens L (take 2 ?ms @ drop (2 + j) ?ms) > budget" by blast
    show ?thesis
    proof (intro exI [of _ "Suc k"] conjI)
      show "prune_loop L budget ms = take 2 ms @ drop (2 + Suc k) ms" unfolding eq k(1) shape ..
      show "2 + Suc k \<le> max 2 (length ms)" using k(2) len True by auto
      show "length (prune_loop L budget ms) \<le> 2 \<or> estimate_tokens L (prune_loop L budget ms) \<le> budget"
        using k(3) eq by simp
      show "\<forall>j<Suc k. estimate_tokens L (take 2 ms @ drop (2 + j) ms) > budget"
      proof (intro allI impI)
        fix j assume "j < Suc k"
        then show "estimate_tokens L (take 2 ms @ drop (2 + j) ms) > budget"
          using True k(4) shape by (cases j) auto
      qed
    qed
  qed
qed

section \<open>The trail of failures\<close>

definition call_records :: "tool_exec \<Rightarrow> failure_record list" where
  "call_records c = te_retry_failures c @ (case te_failure c of Some f \<Rightarrow> [f] | None \<Rightarrow> [])"

text \<open>The call that a failure names as its parent: the previous call, when that one failed.\<close>

fun parent_after :: "string option \<Rightarrow> tool_exec list \<Rightarrow> string option" where
  "parent_after p [] = p"
| "parent_after p (c # cs) = parent_after (if te_success c then None else Some (te_call_id c)) cs"

fun parents_ok :: "string option \<Rightarrow> tool_exec list \<Rightarrow> bool" where
  "parents_ok p [] = True"
| "parents_ok p (c # cs) = ((\<forall>r\<in>set (call_records c). fr_parent_call_id r = p) \<and>
     parents_ok (if te_success c then None else Some (te_call_id c)) cs)"

lemma parents_append [simp]:
  "parent_after p (xs @ ys) = parent_after (parent_after p xs) ys"
  "parents_ok p (xs @ ys) \<longleftrightarrow> parents_ok p xs \<and> parents_ok (parent_after p xs) ys"
  by (induction xs arbitrary: p) auto

definition attempts_numbered :: "failure_policy \<Rightarrow> tool_exec \<Rightarrow> bool" where
  "attempts_numbered P c \<longleftrightarrow> map fr_attempt (call_records c) = [1..<Suc (length (call_records c))] \<and>
     length (call_records c) \<le> max 1 (min (max_attempts (fp_retry P)) MAX_ATTEMPTS_CEILING) \<and>
     (\<not> skill_idempotent (te_tool_name c) \<longrightarrow> te_retry_failures c = []) \<and>
     (\<forall>r\<in>set (te_retry_failures c). fr_class r = FcUnavailable \<and> fr_certainty r = NoEffect)"

definition call_recorded :: "'w agent \<Rightarrow> run_id \<Rightarrow> tool_exec \<Rightarrow> bool" where
  "call_recorded A rid c \<longleftrightarrow> te_success c = (te_failure c = None) \<and> attempts_numbered (ae_policy A) c \<and>
     (\<forall>r\<in>set (call_records c). fr_run_id r = rid \<and> fr_tool_call_id r = te_call_id c \<and>
        fr_tool_name r = te_tool_name c \<and>
        (\<exists>m. fr_cause r = [\<lparr>ce_source = ''tool_dispatch'',
           ce_message = truncate_bytes (redact_payload_echoes m (te_arguments c)) MAX_CAUSE_MESSAGE_BYTES,
           ce_payload_digest = Some (payload_digest (ae_libs A) (te_arguments c))\<rparr>]))"

definition published_for :: "'w agent \<Rightarrow> run_id \<Rightarrow> failure_record list \<Rightarrow> event_envelope list \<Rightarrow> bool" where
  "published_for A rid recs sent \<longleftrightarrow>
     map (\<lambda>v. (ev_event v, ev_sequence v, ev_run v, Some (ev_session v))) sent =
     (if ae_bus A = None then [] else map (\<lambda>r. (StepFailed r, fr_sequence r, Some rid, ae_bus A)) recs)"

definition trail :: "'w agent \<Rightarrow> run_id \<Rightarrow> tool_exec list \<Rightarrow> 'w task_run \<Rightarrow> bool" where
  "trail A rid calls s \<longleftrightarrow>
     (let recs = concat (map call_records calls)
      in map fr_sequence recs = [1..<Suc (length recs)] \<and> tk_failure_seq s = length recs \<and>
         published_for A rid recs (tk_published s) \<and> parents_ok None calls \<and>
         tk_last_failed s = parent_after None calls \<and> (\<forall>c\<in>set calls. call_recorded A rid c))"

lemma published_for_append:
  "published_for A rid xs us \<Longrightarrow> published_for A rid ys vs \<Longrightarrow> published_for A rid (xs @ ys) (us @ vs)"
  by (auto simp: published_for_def)

lemma published_for_length:
  assumes "published_for A rid recs sent" "ae_bus A \<noteq> None"
  shows "length sent = length recs"
  using arg_cong [OF assms(1) [unfolded published_for_def], of length] assms(2) by simp

lemma record_attempt_run:
  assumes "record_attempt A rid turn tc args a s = (rec, s1)"
  shows "rec = tool_failure_record A rid turn tc args (tk_last_failed s) (Suc (tk_failure_seq s)) a \<and>
    (\<exists>sent. s1 = s\<lparr>tk_failure_seq := Suc (tk_failure_seq s), tk_published := tk_published s @ sent\<rparr> \<and>
      published_for A rid [rec] sent)"
proof -
  have "fr_sequence (tool_failure_record A rid turn tc args p q a) = q" for p q
    by (simp add: tool_failure_record_def push_cause_def new_failure_record_def)
  with assms show ?thesis
    by (cases "ae_bus A") (auto simp: record_attempt_def Let_def published_for_def new_envelope_def)
qed

lemma record_attempts_run:
  assumes "record_attempts A rid turn tc args as s = (recs, s')"
  shows "recs = map (\<lambda>(i, a). tool_failure_record A rid turn tc args (tk_last_failed s) i a)
      (enumerate (Suc (tk_failure_seq s)) as) \<and>
    (\<exists>sent. s' = s\<lparr>tk_failure_seq := tk_failure_seq s + length as, tk_published := tk_published s @ sent\<rparr> \<and>
      published_for A rid recs sent)"
  using assms
proof (induction as arbitrary: s recs)
  case Nil
  then show ?case by (auto simp: published_for_def intro: exI [of _ "[]"])
next
  case (Cons a as)
  then obtain rec s1 rs where one: "record_attempt A rid turn tc args a s = (rec, s1)"
      and rs: "record_attempts A rid turn tc args as s1 = (rs, s')" "recs = rec # rs"
    by (auto split: prod.splits)
  from record_attempt_run [OF one] obtain u where rec: "rec = tool_failure_record A rid turn tc args (tk_last_failed s) (Suc (tk_failure_seq s)) a"
      and s1: "s1 = s\<lparr>tk_failure_seq := Suc (tk_failure_seq s), tk_published := tk_published s @ u\<rparr>"
      and u: "published_for A rid [rec] u" by blast
  from Cons.IH [OF rs(1)] obtain v where
      v: "rs = map (\<lambda>(i, a). tool_failure_record A rid turn tc args (tk_last_failed s1) i a) (enumerate (Suc (tk_failure_seq s1)) as)"
      "s' = s1\<lparr>tk_failure_seq := tk_failure_seq s1 + length as, tk_published := tk_published s1 @ v\<rparr>"
      "published_for A rid rs v" by blast
  have "recs = map (\<lambda>(i, a). tool_failure_record A rid turn tc args (tk_last_failed s) i a)
      (enumerate (Suc (tk_failure_seq s)) (a # as))"
    using rec v(1) s1 by (simp add: rs(2))
  moreover have "published_for A rid recs (u @ v)"
    using published_for_append [OF u v(3)] by (simp add: rs(2))
  moreover have "s' = s\<lparr>tk_failure_seq := tk_failure_seq s + length (a # as), tk_published := tk_published s @ (u @ v)\<rparr>"
    using v(2) s1 by simp
  ultimately show ?case by blast
qed

lemma map_enumerate_index: "map (\<lambda>(i, a). i) (enumerate n xs) = [n..<n + length xs]"
  by (induction xs arbitrary: n) (simp_all add: upt_rec)

lemma call_records_of_call:
  assumes "run_tool_call A rid turn tc s = ((e, h), s')" "tk_failure_seq s = n"
  obtains result failed w' where
    "retry_loop (ae_now A) (fp_retry (ae_policy A)) (skill_idempotent (tc_name tc))
       (\<lambda>_. attempt_tool A (tc_name tc) (call_args (ae_libs A) tc) (skill_idempotent (tc_name tc))) (tk_world s) =
     ((result, failed), w')"
    "call_records e = map (\<lambda>(i, a). tool_failure_record A rid turn tc (call_args (ae_libs A) tc) (tk_last_failed s) i a)
      (enumerate (Suc n) failed)"
    "te_call_id e = tc_id tc" "te_tool_name e = tc_name tc" "te_arguments e = call_args (ae_libs A) tc"
    "te_success e = is_ok result" "te_failure e = (if is_ok result \<or> failed = [] then None else Some (last (call_records e)))"
    "te_retry_failures e = (if is_ok result then call_records e else butlast (call_records e))"
    "h = halt_reason tc result"
    "\<exists>sent. published_for A rid (call_records e) sent \<and> tk_published s' = tk_published s @ sent"
    "tk_failure_seq s' = n + length failed" "tk_steps s' = tk_steps s"
    "tk_last_failed s' = (if is_ok result then None else Some (tc_id tc))"
proof -
  obtain result failed w' where r: "retry_loop (ae_now A) (fp_retry (ae_policy A)) (skill_idempotent (tc_name tc))
       (\<lambda>_. attempt_tool A (tc_name tc) (call_args (ae_libs A) tc) (skill_idempotent (tc_name tc))) (tk_world s) =
     ((result, failed), w')" by (metis prod.exhaust)
  obtain recs s1 where rec: "record_attempts A rid turn tc (call_args (ae_libs A) tc) failed (s\<lparr>tk_world := w'\<rparr>) = (recs, s1)"
    by force
  note run = record_attempts_run [OF rec]
  then obtain sent where sent: "s1 = s\<lparr>tk_world := w', tk_failure_seq := n + length failed, tk_published := tk_published s @ sent\<rparr>"
      "published_for A rid recs sent"
    using assms(2) by auto
  have recs: "recs = map (\<lambda>(i, a). tool_failure_record A rid turn tc (call_args (ae_libs A) tc) (tk_last_failed s) i a)
      (enumerate (Suc n) failed)"
    using run assms(2) by simp
  have empty: "recs = [] \<longleftrightarrow> failed = []" by (cases failed) (simp_all add: recs)
  have err: "recs \<noteq> []" if "\<not> is_ok result"
    using retry_loop_shape [OF r] that empty by (cases result) auto
  from assms(1) r rec have e: "te_call_id e = tc_id tc" "te_tool_name e = tc_name tc"
      "te_arguments e = call_args (ae_libs A) tc" "te_success e = is_ok result"
      "te_failure e = (if is_ok result \<or> recs = [] then None else Some (last recs))"
      "te_retry_failures e = (if is_ok result then recs else butlast recs)" and h: "h = halt_reason tc result"
    and s': "tk_published s' = tk_published s1" "tk_failure_seq s' = tk_failure_seq s1" "tk_steps s' = tk_steps s1"
      "tk_last_failed s' = (if is_ok result then None else Some (tc_id tc))"
    by (auto simp: run_tool_call_def Let_def)
  have all: "call_records e = recs" using err by (auto simp: call_records_def e)
  show thesis
    by (rule that [OF r]) (use e h s' sent recs empty in \<open>auto simp: all\<close>)
qed

lemma enumerate_snd: "(i, a) \<in> set (enumerate n xs) \<Longrightarrow> a \<in> set xs"
  by (simp add: enumerate_eq_zip set_zip_rightD)

lemma tool_failure_record_fields:
  "fr_sequence (tool_failure_record A rid turn tc args p i a) = i"
  "fr_run_id (tool_failure_record A rid turn tc args p i a) = rid"
  "fr_tool_call_id (tool_failure_record A rid turn tc args p i a) = tc_id tc"
  "fr_parent_call_id (tool_failure_record A rid turn tc args p i a) = p"
  "fr_tool_name (tool_failure_record A rid turn tc args p i a) = tc_name tc"
  "fr_attempt (tool_failure_record A rid turn tc args p i a) = af_attempt a"
  "fr_class (tool_failure_record A rid turn tc args p i a) = tf_class (af_fault a)"
  "fr_certainty (tool_failure_record A rid turn tc args p i a) = tf_certainty (af_fault a)"
  "fr_cause (tool_failure_record A rid turn tc args p i a) = [\<lparr>ce_source = ''tool_dispatch'',
     ce_message = truncate_bytes (redact_payload_echoes (tf_message (af_fault a)) args) MAX_CAUSE_MESSAGE_BYTES,
     ce_payload_digest = Some (payload_digest (ae_libs A) args)\<rparr>]"
  by (simp_all add: tool_failure_record_def push_cause_def new_failure_record_def MAX_CAUSE_ENTRIES_def)

lemma run_tool_call_trail:
  assumes "trail A rid calls s" "run_tool_call A rid turn tc s = ((e, h), s')"
  shows "trail A rid (calls @ [e]) s'" "tk_steps s' = tk_steps s"
proof -
  define recs where "recs = concat (map call_records calls)"
  from assms(1) have t: "map fr_sequence recs = [1..<Suc (length recs)]" "tk_failure_seq s = length recs"
      "published_for A rid recs (tk_published s)" "parents_ok None calls" "tk_last_failed s = parent_after None calls"
      "\<forall>c\<in>set calls. call_recorded A rid c"
    by (simp_all add: trail_def Let_def recs_def)
  from assms(2) t(2) show "tk_steps s' = tk_steps s" by (rule call_records_of_call)
  from assms(2) t(2) show "trail A rid (calls @ [e]) s'"
  proof (rule call_records_of_call)
    fix result :: "tool_fault + string" and failed w'
    let ?tool = "\<lambda>(i, a). tool_failure_record A rid turn tc (call_args (ae_libs A) tc) (tk_last_failed s) i a"
    assume retry: "retry_loop (ae_now A) (fp_retry (ae_policy A)) (skill_idempotent (tc_name tc))
        (\<lambda>_. attempt_tool A (tc_name tc) (call_args (ae_libs A) tc) (skill_idempotent (tc_name tc))) (tk_world s) =
        ((result, failed), w')"
      and new: "call_records e = map ?tool (enumerate (Suc (length recs)) failed)"
      and e: "te_call_id e = tc_id tc" "te_tool_name e = tc_name tc" "te_arguments e = call_args (ae_libs A) tc"
        "te_success e = is_ok result" "te_failure e = (if is_ok result \<or> failed = [] then None else Some (last (call_records e)))"
        "te_retry_failures e = (if is_ok result then call_records e else butlast (call_records e))"
      and pub: "\<exists>sent. published_for A rid (call_records e) sent \<and> tk_published s' = tk_published s @ sent"
      and s': "tk_failure_seq s' = length recs + length failed"
        "tk_last_failed s' = (if is_ok result then None else Some (tc_id tc))"
    note shape = retry_loop_shape [OF retry]
    have len: "length (call_records e) = length failed" by (simp add: new)
    have "map fr_sequence (call_records e) = map (\<lambda>(i, a). i) (enumerate (Suc (length recs)) failed)"
      unfolding new by (simp add: tool_failure_record_fields case_prod_unfold comp_def)
    then have seq: "map fr_sequence (recs @ call_records e) = [1..<Suc (length (recs @ call_records e))]"
      using t(1) len upt_add_eq_append [of 1 "Suc (length recs)" "length failed"]
      by (simp add: map_enumerate_index del: upt_Suc)
    have attempts: "map fr_attempt (call_records e) = map af_attempt failed"
      unfolding new map_map by (rule nth_equalityI) (simp_all add: nth_enumerate_eq tool_failure_record_fields)
    have fld: "\<exists>i a. r = ?tool (i, a) \<and> a \<in> set failed" if "r \<in> set (call_records e)" for r
      using that enumerate_snd unfolding new by fastforce
    have before: "fr_class r = FcUnavailable \<and> fr_certainty r = NoEffect" if "r \<in> set (te_retry_failures e)" for r
    proof -
      have "te_retry_failures e = map ?tool (enumerate (Suc (length recs)) (if is_ok result then failed else butlast failed))"
        unfolding e(6) new by (cases failed rule: rev_cases) (simp_all add: enumerate_append_eq)
      with that obtain i a where "r = ?tool (i, a)" "a \<in> set (if is_ok result then failed else butlast failed)"
        using enumerate_snd by fastforce
      with shape show ?thesis by (auto simp: tool_failure_record_fields)
    qed
    have once: "te_retry_failures e = []" if "\<not> skill_idempotent (tc_name tc)"
      using that shape len by (cases failed) (auto simp: e(6) new split: if_splits)
    have ok: "te_success e = (te_failure e = None)"
      using shape by (cases result) (auto simp: e(4,5))
    have "call_recorded A rid e"
      unfolding call_recorded_def attempts_numbered_def
      using ok before once attempts shape len fld by (fastforce simp: e(1-3) tool_failure_record_fields)
    moreover have "published_for A rid (recs @ call_records e) (tk_published s')"
      using pub published_for_append [OF t(3)] by auto
    moreover have "\<forall>r\<in>set (call_records e). fr_parent_call_id r = parent_after None calls"
      using fld by (fastforce simp: tool_failure_record_fields t(5))
    ultimately show "trail A rid (calls @ [e]) s'"
      using t(4,6) seq len s' e(1,4) by (simp add: trail_def Let_def recs_def [symmetric])
  qed
qed

lemma run_tool_calls_trail:
  assumes "trail A rid calls s" "run_tool_calls A rid turn tcs s = ((es, h), s')"
  shows "trail A rid (calls @ es) s' \<and> tk_steps s' = tk_steps s"
  using assms
proof (induction tcs arbitrary: calls s es)
  case Nil
  then show ?case by simp
next
  case (Cons tc tcs)
  obtain e h1 s1 where one: "run_tool_call A rid turn tc s = ((e, h1), s1)" by (metis prod.exhaust)
  note t1 = run_tool_call_trail [OF Cons.prems(1) one]
  show ?case
  proof (cases h1)
    case None
    with Cons.prems(2) one obtain rest where rest: "run_tool_calls A rid turn tcs s1 = ((rest, h), s')" "es = e # rest"
      by (auto split: prod.splits)
    from Cons.IH [OF t1(1) rest(1)] t1(2) show ?thesis by (simp add: rest(2))
  next
    case (Some r)
    with Cons.prems(2) one t1 show ?thesis by simp
  qed
qed

abbreviation steps_calls :: "agent_step list \<Rightarrow> tool_exec list" where
  "steps_calls ss \<equiv> concat (map as_tool_calls ss)"

lemma trail_cong:
  assumes "tk_failure_seq t = tk_failure_seq s" "tk_published t = tk_published s" "tk_last_failed t = tk_last_failed s"
  shows "trail A rid calls t = trail A rid calls s"
  by (simp add: trail_def assms)

text \<open>The four ways a turn goes.\<close>

lemma agent_turn_cases:
  fixes A :: "'a agent"
  assumes "agent_turn A rid turn s = (r, s')"
  obtains e where "r = ModelError e" "tk_steps s' = tk_steps s" "\<And>cs. trail A rid cs s' = trail A rid cs s"
  | t :: chat_turn where "r = Answered (answer_text t)" "ct_tool_calls t = None \<or> ct_tool_calls t = Some []"
      "tk_steps s' = tk_steps s @ [\<lparr>as_index = turn, as_thought = ct_reasoning t, as_tool_calls = []\<rparr>]"
      "\<And>cs. trail A rid cs s' = trail A rid cs s"
  | t :: chat_turn and tcs es h and s2 s3 :: "'a task_run" where "ct_tool_calls t = Some tcs" "tcs \<noteq> []" "run_tool_calls A rid turn tcs s2 = ((es, h), s3)"
      "r = (case h of Some reason \<Rightarrow> Halted reason | None \<Rightarrow> GoOn)"
      "tk_steps s' = tk_steps s3 @ [\<lparr>as_index = turn, as_thought = ct_reasoning t, as_tool_calls = es\<rparr>]"
      "tk_steps s2 = tk_steps s"
      "\<And>cs. trail A rid cs s2 = trail A rid cs s" "\<And>cs. trail A rid cs s' = trail A rid cs s3"
proof -
  define ms where "ms = snd (prune_context_window (ae_libs A) (tk_messages s) DEFAULT_MAX_CONTEXT_TOKENS)"
  obtain a w' where a: "en_chat_with_tools (ae_engine A) ms (Some (ae_tools A)) (Some ''0.2'') (Some 2048) (tk_world s) = (a, w')"
    by force
  define s1 where "s1 = s\<lparr>tk_messages := ms, tk_world := w'\<rparr>"
  have s1: "tk_steps s1 = tk_steps s" "trail A rid cs s1 = trail A rid cs s" for cs
    by (simp_all add: s1_def trail_def)
  show thesis
  proof (cases a)
    case (Inl e)
    with assms a have "r = ModelError e" "s' = s1" by (auto simp: agent_turn_def Let_def ms_def s1_def)
    with s1 show thesis by (intro that(1)) simp_all
  next
    case (Inr t)
    show thesis
    proof (cases "ct_tool_calls t = None \<or> ct_tool_calls t = Some []")
      case True
      with Inr assms a have "r = Answered (answer_text t)"
          "s' = s1\<lparr>tk_steps := tk_steps s1 @ [\<lparr>as_index = turn, as_thought = ct_reasoning t, as_tool_calls = []\<rparr>]\<rparr>"
        by (auto simp: agent_turn_def Let_def ms_def s1_def)
      with s1 True show thesis by (intro that(2)) (simp_all add: trail_def)
    next
      case False
      then obtain tc rest where tcs: "ct_tool_calls t = Some (tc # rest)"
        by (metis list.exhaust option.exhaust)
      define s2 where "s2 = s1\<lparr>tk_messages := tk_messages s1 @ [call_message (or_default [] (ct_content t)) (tc # rest)]\<rparr>"
      obtain es h s3 where run: "run_tool_calls A rid turn (tc # rest) s2 = ((es, h), s3)" by (metis prod.exhaust)
      have "(r, s') = (case h of Some reason \<Rightarrow> Halted reason | None \<Rightarrow> GoOn,
          s3\<lparr>tk_steps := tk_steps s3 @ [\<lparr>as_index = turn, as_thought = ct_reasoning t, as_tool_calls = es\<rparr>]\<rparr>)"
        using assms a Inr tcs run
        by (simp only: agent_turn_def Let_def ms_def [symmetric] s1_def [symmetric] s2_def [symmetric]
            prod.case sum.case option.case list.case)
      with s1 tcs run show thesis
        by (intro that(3) [of t "tc # rest" s2 es h s3]) (simp_all add: s2_def trail_def)
    qed
  qed
qed

lemma agent_turn_trail:
  assumes "trail A rid (steps_calls (tk_steps s)) s" "agent_turn A rid turn s = (r, s')"
  shows "trail A rid (steps_calls (tk_steps s')) s'"
  using assms(2)
proof (cases rule: agent_turn_cases)
  case (3 t tcs es h s2 s3)
  with assms(1) have "trail A rid (steps_calls (tk_steps s)) s2" by simp
  from run_tool_calls_trail [OF this 3(3)] 3 show ?thesis by simp
qed (use assms(1) in simp_all)

lemma agent_turns_trail:
  "trail A rid (steps_calls (tk_steps s)) s \<Longrightarrow> agent_turns A rid left taken s = (r, s') \<Longrightarrow>
   trail A rid (steps_calls (tk_steps s')) s'"
proof (induction left arbitrary: taken s)
  case 0
  then show ?case by simp
next
  case (Suc left)
  obtain e s1 where one: "agent_turn A rid (Suc taken) s = (e, s1)" by force
  from agent_turn_trail [OF Suc.prems(1) one] Suc.IH [of s1] Suc.prems(2) one
  show ?case by (auto split: turn_end.splits)
qed

lemma start_run_trail: "trail A rid (steps_calls (tk_steps (start_run A goal sys w))) (start_run A goal sys w)"
  by (simp add: trail_def start_run_def published_for_def)

lemma execute_task_turns:
  assumes "execute_task A goal sys max_turns w = (Inr r, s)"
  obtains ended taken t where
    "agent_turns A (or_default (ae_fresh_run A w) (ae_run_id A)) max_turns 0 (start_run A goal sys w) = ((ended, taken), t)"
    "ar_steps r = tk_steps t" "tk_published s = tk_published t" "ar_turns_taken r = taken"
    "ar_completed r = (\<exists>x. ended = Answered x)" "\<And>e. ended \<noteq> ModelError e"
    "ar_final_response r = (case ended of Halted x \<Rightarrow> x | Answered x \<Rightarrow> x | _ \<Rightarrow> turn_limit_text A max_turns)"
proof -
  obtain ended taken t where run: "agent_turns A (or_default (ae_fresh_run A w) (ae_run_id A)) max_turns 0
      (start_run A goal sys w) = ((ended, taken), t)" by (metis prod.exhaust)
  show thesis
    by (rule that [OF run]) (use assms run in \<open>auto simp: execute_task_def Let_def split: turn_end.splits option.splits\<close>)
qed

section \<open>Halting\<close>

text \<open>A failure that ends the task: it waits for an approval, or the task was cancelled.\<close>

definition halting :: "tool_exec \<Rightarrow> bool" where
  "halting c = (case te_failure c of Some f \<Rightarrow> fr_class f = FcApprovalPending \<or> fr_class f = FcCancelled | None \<Rightarrow> False)"

definition halts :: "tool_exec list \<Rightarrow> bool" where
  "halts cs \<longleftrightarrow> cs \<noteq> [] \<and> halting (last cs) \<and> (\<forall>c\<in>set (butlast cs). \<not> halting c)"

lemma halts_append: "\<forall>c\<in>set xs. \<not> halting c \<Longrightarrow> halts ys \<Longrightarrow> halts (xs @ ys)"
  by (auto simp: halts_def butlast_append)

lemma last_halts:
  assumes "\<forall>c\<in>set (butlast cs). \<not> halting c" "\<exists>c\<in>set cs. halting c"
  shows "halts cs"
proof (cases cs rule: rev_cases)
  case (snoc ys y)
  with assms show ?thesis by (auto simp: halts_def)
qed (use assms in simp)

lemma run_tool_call_halting:
  assumes "run_tool_call A rid turn tc s = ((e, h), s')"
  shows "(h = None) = (\<not> halting e)"
  using assms refl
proof (rule call_records_of_call)
  fix result :: "tool_fault + string" and failed w'
  assume retry: "retry_loop (ae_now A) (fp_retry (ae_policy A)) (skill_idempotent (tc_name tc))
      (\<lambda>_. attempt_tool A (tc_name tc) (call_args (ae_libs A) tc) (skill_idempotent (tc_name tc))) (tk_world s) =
      ((result, failed), w')"
    and new: "call_records e = map (\<lambda>(i, a). tool_failure_record A rid turn tc (call_args (ae_libs A) tc) (tk_last_failed s) i a)
      (enumerate (Suc (tk_failure_seq s)) failed)"
    and e: "te_failure e = (if is_ok result \<or> failed = [] then None else Some (last (call_records e)))"
      "h = halt_reason tc result"
  from retry_loop_shape [OF retry] show ?thesis
    by (cases result; cases failed rule: rev_cases)
      (auto simp: e new halting_def halt_reason_def enumerate_append_eq tool_failure_record_fields)
qed

lemma run_tool_calls_halting:
  "run_tool_calls A rid turn tcs s = ((es, h), s') \<Longrightarrow>
   (\<forall>c\<in>set (butlast es). \<not> halting c) \<and> (tcs \<noteq> [] \<longrightarrow> es \<noteq> []) \<and> (h = None \<longleftrightarrow> (\<forall>c\<in>set es. \<not> halting c))"
proof (induction tcs arbitrary: s es)
  case Nil
  then show ?case by simp
next
  case (Cons tc tcs)
  obtain e h1 s1 where one: "run_tool_call A rid turn tc s = ((e, h1), s1)" by (metis prod.exhaust)
  note h1 = run_tool_call_halting [OF one]
  show ?case
  proof (cases h1)
    case None
    with Cons.prems one obtain rest where rest: "run_tool_calls A rid turn tcs s1 = ((rest, h), s')" "es = e # rest"
      by (auto split: prod.splits)
    from Cons.IH [OF rest(1)] h1 None show ?thesis by (auto simp: rest(2))
  next
    case (Some r)
    with Cons.prems one h1 show ?thesis by auto
  qed
qed

text \<open>What the turns add to the steps, by how they end.\<close>

definition quiet :: "agent_step list \<Rightarrow> bool" where
  "quiet ss \<longleftrightarrow> (\<forall>c\<in>set (steps_calls ss). \<not> halting c)"

definition new_steps :: "turn_end \<Rightarrow> nat \<Rightarrow> nat \<Rightarrow> nat \<Rightarrow> agent_step list \<Rightarrow> bool" where
  "new_steps ended left taken taken' new \<longleftrightarrow> (\<forall>e. ended \<noteq> ModelError e) \<longrightarrow>
     map as_index new = [Suc taken..<Suc taken'] \<and> taken \<le> taken' \<and> taken' \<le> taken + left \<and>
     (case ended of
        Halted _ \<Rightarrow> halts (steps_calls new)
      | GoOn \<Rightarrow> quiet new \<and> taken' = taken + left
      | _ \<Rightarrow> quiet new)"

lemma agent_turn_new_steps:
  assumes "agent_turn A rid turn s = (ended, s')" "\<And>e. ended \<noteq> ModelError e"
  shows "\<exists>st. tk_steps s' = tk_steps s @ [st] \<and> as_index st = turn \<and>
    (case ended of
       Halted _ \<Rightarrow> halts (as_tool_calls st)
     | _ \<Rightarrow> quiet [st])"
  using assms(1)
proof (cases rule: agent_turn_cases)
  case (1 e)
  with assms(2) [of e] show ?thesis by simp
next
  case (2 t)
  then show ?thesis by (simp add: quiet_def)
next
  case (3 t tcs es h s2 s3)
  note run = run_tool_calls_halting [OF 3(3)]
  have "tk_steps s3 = tk_steps s2"
  proof -
    have "tk_steps s'' = tk_steps s'" if "run_tool_calls A rid turn tcs s' = ((es, h), s'')" for tcs es h and s' s'' :: "'a task_run"
      using that
    proof (induction tcs arbitrary: s' es)
      case (Cons tc tcs)
      obtain e h1 s1 where one: "run_tool_call A rid turn tc s' = ((e, h1), s1)" by (metis prod.exhaust)
      from one refl have "tk_steps s1 = tk_steps s'" by (rule call_records_of_call)
      with Cons one show ?case by (cases h1) (auto split: prod.splits)
    qed simp
    from this [OF 3(3)] show ?thesis .
  qed
  with 3 have st: "tk_steps s' = tk_steps s @ [\<lparr>as_index = turn, as_thought = ct_reasoning t, as_tool_calls = es\<rparr>]"
    by simp
  show ?thesis
  proof (cases h)
    case None
    with run 3(4) st show ?thesis by (auto simp: quiet_def)
  next
    case (Some reason)
    with run have "halts es" by (intro last_halts) auto
    with st Some 3(4) show ?thesis by simp
  qed
qed

lemma agent_turns_new_steps:
  "agent_turns A rid left taken s = ((ended, taken'), s') \<Longrightarrow>
   \<exists>new. tk_steps s' = tk_steps s @ new \<and> new_steps ended left taken taken' new \<or> (\<exists>e. ended = ModelError e)"
proof (induction left arbitrary: taken s)
  case 0
  then show ?case by (auto simp: new_steps_def quiet_def)
next
  case (Suc left)
  obtain e s1 where one: "agent_turn A rid (Suc taken) s = (e, s1)" by force
  show ?case
  proof (cases e)
    case (ModelError x)
    with Suc.prems one show ?thesis by auto
  next
    case (Halted x)
    with agent_turn_new_steps [OF one] obtain st where "tk_steps s1 = tk_steps s @ [st]" "as_index st = Suc taken"
        "halts (as_tool_calls st)" by auto
    with Suc.prems one Halted show ?thesis
      by (intro exI [of _ "[st]"]) (auto simp: new_steps_def)
  next
    case (Answered x)
    with agent_turn_new_steps [OF one] obtain st where "tk_steps s1 = tk_steps s @ [st]" "as_index st = Suc taken" "quiet [st]"
      by auto
    with Suc.prems one Answered show ?thesis by (intro exI [of _ "[st]"]) (auto simp: new_steps_def)
  next
    case GoOn
    with agent_turn_new_steps [OF one] obtain st where st: "tk_steps s1 = tk_steps s @ [st]" "as_index st = Suc taken" "quiet [st]"
      by auto
    from GoOn Suc.prems one have "agent_turns A rid left (Suc taken) s1 = ((ended, taken'), s')" by simp
    from Suc.IH [OF this] show ?thesis
    proof (elim exE disjE conjE)
      fix new assume new: "tk_steps s' = tk_steps s1 @ new" "new_steps ended left (Suc taken) taken' new"
      have "[Suc taken..<Suc taken'] = Suc taken # [Suc (Suc taken)..<Suc taken']" if "Suc taken \<le> taken'"
        using that by (simp add: upt_conv_Cons del: upt_Suc)
      with new st have "new_steps ended (Suc left) taken taken' (st # new)"
        by (auto simp: new_steps_def quiet_def halts_append split: turn_end.splits simp del: upt_Suc)
      with new(1) st(1) show ?thesis by (intro exI [of _ "st # new"]) simp
    qed blast
  qed
qed

section \<open>Properties\<close>

lemma execute_task_trail:
  assumes "execute_task A goal sys n w = (Inr r, s)"
  shows "let recs = concat (map call_records (task_calls r)); rid = or_default (ae_fresh_run A w) (ae_run_id A)
    in map fr_sequence recs = [1..<Suc (length recs)] \<and> published_for A rid recs (tk_published s) \<and>
       parents_ok None (task_calls r) \<and> (\<forall>c\<in>set (task_calls r). call_recorded A rid c)"
  using assms
proof (rule execute_task_turns)
  fix ended taken t
  assume run: "agent_turns A (or_default (ae_fresh_run A w) (ae_run_id A)) n 0 (start_run A goal sys w) = ((ended, taken), t)"
    and r: "ar_steps r = tk_steps t" "tk_published s = tk_published t"
  from agent_turns_trail [OF start_run_trail run] show ?thesis
    by (simp add: trail_def Let_def r task_calls_def)
qed

lemma last_failure_of_halts:
  assumes "halts (task_calls r)"
  shows "agent_outcome r = OutApprovalPending \<or> (\<exists>e m. agent_outcome r = OutFailed (fault FcCancelled e m))"
proof -
  from assms obtain cs c where c: "task_calls r = cs @ [c]" "halting c"
    by (auto simp: halts_def) (metis append_butlast_last_id)
  then obtain f where f: "te_failure c = Some f" "fr_class f = FcApprovalPending \<or> fr_class f = FcCancelled"
    by (auto simp: halting_def split: option.splits)
  then have "List.map_filter te_failure (task_calls r) = List.map_filter te_failure cs @ [f]"
    by (simp add: c(1) List.map_filter_def)
  with f(2) show ?thesis by (auto simp: agent_outcome_def Let_def intro!: exI)
qed

section \<open>Two small tasks\<close>

text \<open>A model that asks for one call until the world is at 2, and then answers.\<close>

definition demo_engine :: "string \<Rightarrow> nat engine" where
  "demo_engine tool = \<lparr>en_model_id = [], en_endpoint = [], en_generate_with_tokens = (\<lambda>_ _ _ _ w. (Inr [], w)),
     en_generate_chat = (\<lambda>_ _ _ w. (Inr [], w)),
     en_chat_with_tools = (\<lambda>_ _ _ _ w. (Inr (if w < 2
        then \<lparr>ct_content = None, ct_reasoning = None,
               ct_tool_calls = Some [\<lparr>tc_id = ''c1'', tc_type = ''function'', tc_name = tool, tc_arguments = ''{}''\<rparr>],
               ct_finish_reason = None\<rparr>
        else \<lparr>ct_content = Some ''fine'', ct_reasoning = None, ct_tool_calls = None, ct_finish_reason = None\<rparr>), w)),
     en_stream_chat = (\<lambda>_ _ _ w. (Inr [], w)), en_check_health = (\<lambda>w. (True, w))\<rparr>"

definition demo_agent :: "string \<Rightarrow> (nat \<Rightarrow> tool_fault + string) \<Rightarrow> nat agent" where
  "demo_agent tool answer = \<lparr>ae_libs = one_text_libs, ae_engine = demo_engine tool, ae_tools = [],
     ae_dispatch = (\<lambda>_ _ w. (answer w, w + 1)), ae_race = (\<lambda>_ _ _. AnswerFirst), ae_dropped = (\<lambda>_ _ w. w),
     ae_cancelled = (\<lambda>_. False), ae_now = int, ae_elapsed = id, ae_fresh_run = (\<lambda>_. ''run_1''),
     ae_fresh_event = (\<lambda>_ _. ''evt_1''), ae_env = (\<lambda>_ _. None), ae_show_nat = (\<lambda>_. ''3''), ae_turn_db = None,
     ae_policy = \<lparr>fp_retry = \<lparr>max_attempts = 3\<rparr>, fp_timeout_ms = None\<rparr>, ae_bus = Some None, ae_run_id = None\<rparr>"

definition flaky_read :: "nat agent" where
  "flaky_read = demo_agent ''read_file'' (\<lambda>w. if w = 0 then Inl (fault_unavailable ''down'') else Inr ''text'')"

definition asking_write :: "nat agent" where
  "asking_write = demo_agent ''write_file'' (\<lambda>w. Inl (fault FcApprovalPending NoEffect ''ask''))"

lemma flaky_read_run:
  "case execute_task flaky_read ''go'' (Some ''sys'') 3 0 of
     (Inr r, s) \<Rightarrow> length (concat (map call_records (task_calls r))) = 1 \<and> ar_completed r | _ \<Rightarrow> False"
  by code_simp

lemma asking_write_run:
  "case execute_task asking_write ''go'' (Some ''sys'') 3 0 of
     (Inr r, s) \<Rightarrow> map halting (task_calls r) = [True] | _ \<Rightarrow> False"
  by code_simp

text \<open>
  C11: The record of a finished task's failures is complete and in order: over all its calls, each with its retries
  first, the records are numbered 1, 2, 3 without a gap; every record carries the task's run, its call's
  identifier and tool, the cause redacted of the call's arguments and cut to the limit, and as its parent the
  previous call exactly when that one failed; only idempotent tools were tried again, after failures without an
  effect and within the policy's limit; and when a bus is attached, the events handed to it are those records
  with those numbers, one for one.
\<close>

theorem agent_failure_trail:
  assumes "execute_task A goal sys n w = (Inr r, s)"
  shows "let recs = concat (map call_records (task_calls r)); rid = or_default (ae_fresh_run A w) (ae_run_id A)
    in map fr_sequence recs = [1..<Suc (length recs)] \<and> published_for A rid recs (tk_published s) \<and>
       parents_ok None (task_calls r) \<and> (\<forall>c\<in>set (task_calls r). call_recorded A rid c)"
  using assms by (rule execute_task_trail)

theorem agent_failure_trail_witness:
  "\<exists>r s. execute_task flaky_read ''go'' (Some ''sys'') 3 0 = (Inr r, s) \<and>
     map fr_sequence (concat (map call_records (task_calls r))) = [1] \<and> length (tk_published s) = 1"
proof -
  from flaky_read_run obtain r s where run: "execute_task flaky_read ''go'' (Some ''sys'') 3 0 = (Inr r, s)"
      "length (concat (map call_records (task_calls r))) = 1"
    by (auto split: prod.splits sum.splits)
  have bus: "ae_bus flaky_read = Some None" by (simp add: flaky_read_def demo_agent_def)
  note t = agent_failure_trail [OF run(1), unfolded Let_def]
  have one: "[1..<Suc 1] = [1 :: nat]" by simp
  from conjunct1 [OF t] have "map fr_sequence (concat (map call_records (task_calls r))) = [1]"
    unfolding run(2) one .
  moreover have "ae_bus flaky_read \<noteq> None" using bus by (rule option.discI)
  from published_for_length [OF conjunct1 [OF conjunct2 [OF t]] this] have "length (tk_published s) = 1"
    unfolding run(2) .
  ultimately show ?thesis using run(1) by (intro exI [of _ r] exI [of _ s]) simp
qed

text \<open>
  C21: A call that waits for an approval, or that was cancelled, is the last thing a task does: no later call is made,
  it is never completed, and the workflow sees it as waiting for approval or cancelled. The steps are the turns
  taken, in order and within the limit, and a task that neither halts nor completes has used every turn.
\<close>

theorem agent_stops_at_halting_call:
  assumes "execute_task A goal sys n w = (Inr r, s)"
  shows "map as_index (ar_steps r) = [1..<Suc (ar_turns_taken r)] \<and> ar_turns_taken r \<le> n \<and>
    (\<forall>c\<in>set (butlast (task_calls r)). \<not> halting c) \<and>
    ((\<exists>c\<in>set (task_calls r). halting c) \<longrightarrow> \<not> ar_completed r \<and>
       (agent_outcome r = OutApprovalPending \<or> (\<exists>e m. agent_outcome r = OutFailed (fault FcCancelled e m)))) \<and>
    (\<not> ar_completed r \<and> (\<forall>c\<in>set (task_calls r). \<not> halting c) \<longrightarrow> ar_turns_taken r = n)"
  using assms
proof (rule execute_task_turns)
  fix ended taken t
  assume run: "agent_turns A (or_default (ae_fresh_run A w) (ae_run_id A)) n 0 (start_run A goal sys w) = ((ended, taken), t)"
    and r: "ar_steps r = tk_steps t" "ar_turns_taken r = taken" "ar_completed r = (\<exists>x. ended = Answered x)"
      "\<And>e. ended \<noteq> ModelError e"
  from agent_turns_new_steps [OF run] r(4) obtain new where new: "tk_steps t = new" "new_steps ended n 0 taken new"
    by (auto simp: start_run_def)
  have calls: "task_calls r = steps_calls new" by (simp add: task_calls_def r(1) new(1))
  show ?thesis
  proof (cases ended)
    case (Halted x)
    with new r have "halts (task_calls r)" "\<not> ar_completed r" by (auto simp: new_steps_def calls)
    with last_failure_of_halts [of r] new r Halted show ?thesis
      by (auto simp: new_steps_def halts_def)
  next
    case (ModelError e)
    with r(4) [of e] show ?thesis by simp
  next
    case (Answered x)
    with new r have none: "\<forall>c\<in>set (task_calls r). \<not> halting c" by (simp add: new_steps_def quiet_def calls)
    then have "\<forall>c\<in>set (butlast (task_calls r)). \<not> halting c" by (blast dest: in_set_butlastD)
    with none new r Answered show ?thesis by (auto simp: new_steps_def)
  next
    case GoOn
    with new r have none: "\<forall>c\<in>set (task_calls r). \<not> halting c" by (simp add: new_steps_def quiet_def calls)
    then have "\<forall>c\<in>set (butlast (task_calls r)). \<not> halting c" by (blast dest: in_set_butlastD)
    with none new r GoOn show ?thesis by (auto simp: new_steps_def)
  qed
qed

theorem agent_stops_at_halting_call_witness:
  "\<exists>r s. execute_task asking_write ''go'' (Some ''sys'') 3 0 = (Inr r, s) \<and> \<not> ar_completed r \<and>
     (agent_outcome r = OutApprovalPending \<or> (\<exists>e m. agent_outcome r = OutFailed (fault FcCancelled e m)))"
proof -
  from asking_write_run obtain r s where run: "execute_task asking_write ''go'' (Some ''sys'') 3 0 = (Inr r, s)"
      "map halting (task_calls r) = [True]"
    by (auto split: prod.splits sum.splits)
  then have "\<exists>c\<in>set (task_calls r). halting c" by auto
  with agent_stops_at_halting_call [OF run(1)] run(1) show ?thesis by blast
qed

text \<open>
  C39: A workflow task run by the agent completes exactly when the agent gave a final answer within its turns and
  every tool call it made succeeded; the task's result is that answer. A failed call that the agent recovered
  from still fails the task.
\<close>

theorem agent_task_completed_exactly:
  "fst (run_agent_task A goal n w) = OutCompleted v \<longleftrightarrow>
   (\<exists>r s. execute_task A goal None n w = (Inr r, s) \<and> ar_completed r \<and> list_all te_success (task_calls r) \<and>
     v = json_object [(''final_response'', JString (ar_final_response r))])"
proof -
  obtain a s where run: "execute_task A goal None n w = (a, s)" by force
  show ?thesis
  proof (cases a)
    case (Inl e)
    with run show ?thesis by (simp add: run_agent_task_def)
  next
    case (Inr r)
    with execute_task_trail [of A goal None n w r s] run
    have "\<forall>c\<in>set (task_calls r). te_success c = (te_failure c = None)"
      by (auto simp: Let_def call_recorded_def)
    then have "List.map_filter te_failure (task_calls r) = [] \<longleftrightarrow> (\<forall>c\<in>set (task_calls r). te_success c)"
      by (auto simp: List.map_filter_def filter_empty_conv)
    with run Inr show ?thesis
      by (auto simp: run_agent_task_def agent_outcome_def Let_def list_all_iff)
  qed
qed

text \<open>
  Pruning keeps the first two messages and drops the oldest of the others, one message at a time: the answer of a
  tool can stay when the assistant's message that asked for the call is gone.
\<close>

definition long_text :: string where "long_text = concat (replicate 12 ''word '')"

lemma prune_orphans_tool_result:
  "prune_context_window one_text_libs [role_message ''system'' [], role_message ''user'' [],
     role_message ''assistant'' long_text, role_message ''tool'' ''x''] 20 =
   (True, [role_message ''system'' [], role_message ''user'' [], role_message ''tool'' ''x''])"
  by code_simp

section \<open>What a task keeps of the world\<close>

text \<open>
  A property of the world that the model's call, the dispatch, a dropped dispatch and the recording of the turn
  keep is kept by a whole task.
\<close>

locale task_keeps =
  fixes A :: "'w agent" and P :: "'w \<Rightarrow> bool"
  assumes chat: "P w \<Longrightarrow> P (snd (en_chat_with_tools (ae_engine A) ms ts t k w))"
    and dispatch: "P w \<Longrightarrow> P (snd (ae_dispatch A name args w))"
    and dropped: "P w \<Longrightarrow> P (ae_dropped A name args w)"
    and turn_db: "ae_turn_db A = Some db \<Longrightarrow> P w \<Longrightarrow> P (db rl goal final ms' w)"
begin

lemma attempt_keeps: "P w \<Longrightarrow> P (snd (attempt_tool A name args idem w))"
  using dispatch [of w name args] dropped [of w name args]
  by (simp add: attempt_tool_def Let_def split: race.splits option.splits)

lemma retry_keeps: "P w \<Longrightarrow> P (snd (retry_from now policy idem (\<lambda>_. attempt_tool A name args idem) n fs w))"
proof (induction now policy idem "\<lambda>_ :: nat. attempt_tool A name args idem" n fs w rule: retry_from.induct)
  case (1 now policy idem n fs w)
  obtain r w' where r: "attempt_tool A name args idem w = (r, w')" by force
  with attempt_keeps [OF 1(2), of name args idem] have "P w'" by simp
  then show ?case using 1(1) r
    by (subst retry_from.simps) (auto simp: Let_def split: sum.splits retry_elig.splits)
qed

lemma record_attempts_world: "record_attempts A rid turn tc args fs s = (recs, s') \<Longrightarrow> tk_world s' = tk_world s"
  by (induction fs arbitrary: s recs s') (fastforce simp: record_attempt_def Let_def split: prod.splits)+

lemma call_keeps: "run_tool_call A rid turn tc s = (e, s') \<Longrightarrow> P (tk_world s) \<Longrightarrow> P (tk_world s')"
proof -
  assume run: "run_tool_call A rid turn tc s = (e, s')" and P: "P (tk_world s)"
  let ?args = "call_args (ae_libs A) tc" and ?i = "skill_idempotent (tc_name tc)"
  obtain res failed w' where l: "retry_loop (ae_now A) (fp_retry (ae_policy A)) ?i
      (\<lambda>_. attempt_tool A (tc_name tc) ?args ?i) (tk_world s) = ((res, failed), w')" by (metis prod.exhaust)
  obtain recs s1 where a: "record_attempts A rid turn tc ?args failed (s\<lparr>tk_world := w'\<rparr>) = (recs, s1)" by force
  have "P w'" using retry_keeps [OF P] l by (metis retry_loop_def snd_conv)
  moreover have "tk_world s1 = w'" using record_attempts_world [OF a] by simp
  moreover have "tk_world s' = tk_world s1" using run l a by (auto simp: run_tool_call_def Let_def)
  ultimately show "P (tk_world s')" by simp
qed

lemma calls_keep: "run_tool_calls A rid turn tcs s = (r, s') \<Longrightarrow> P (tk_world s) \<Longrightarrow> P (tk_world s')"
proof (induction tcs arbitrary: s r)
  case (Cons tc tcs)
  obtain e h s1 where one: "run_tool_call A rid turn tc s = ((e, h), s1)" by (metis prod.exhaust)
  from call_keeps [OF one Cons.prems(2)] Cons.IH [of s1] Cons.prems(1) one
  show ?case by (cases h) (auto split: prod.splits)
qed simp

lemma turn_keeps: "agent_turn A rid turn s = (r, s') \<Longrightarrow> P (tk_world s) \<Longrightarrow> P (tk_world s')"
proof -
  assume run: "agent_turn A rid turn s = (r, s')" and P: "P (tk_world s)"
  define ms where "ms = snd (prune_context_window (ae_libs A) (tk_messages s) DEFAULT_MAX_CONTEXT_TOKENS)"
  obtain a w' where a: "en_chat_with_tools (ae_engine A) ms (Some (ae_tools A)) (Some ''0.2'') (Some 2048) (tk_world s) = (a, w')"
    by force
  with chat [OF P, of ms "Some (ae_tools A)" "Some ''0.2''" "Some 2048"] have w': "P w'" by simp
  show "P (tk_world s')"
    using run a w' unfolding agent_turn_def ms_def [symmetric]
    by (auto simp: Let_def simp del: run_tool_calls.simps dest!: calls_keep
        split: sum.splits option.splits list.splits prod.splits)
qed

lemma turns_keep: "agent_turns A rid left taken s = (r, s') \<Longrightarrow> P (tk_world s) \<Longrightarrow> P (tk_world s')"
proof (induction left arbitrary: taken s)
  case (Suc left)
  obtain e s1 where one: "agent_turn A rid (Suc taken) s = (e, s1)" by force
  from turn_keeps [OF one Suc.prems(2)] Suc.IH [of "Suc taken" s1] Suc.prems(1) one
  show ?case by (auto split: turn_end.splits)
qed simp

lemma task_keeps_world: "P w \<Longrightarrow> P (tk_world (snd (execute_task A goal sys n w)))"
proof -
  assume P: "P w"
  obtain ended taken t where run: "agent_turns A (or_default (ae_fresh_run A w) (ae_run_id A)) n 0
      (start_run A goal sys w) = ((ended, taken), t)" by (metis prod.exhaust)
  have "P (tk_world t)" using turns_keep [OF run] P by (simp add: start_run_def)
  then show ?thesis using run turn_db
    by (auto simp: execute_task_def Let_def split: turn_end.splits option.splits)
qed

end

end
