(* ===== verification/Auth.thy ===== *)
theory Auth
  imports RustStr
begin

text \<open>
  \<open>src/auth.rs\<close>: the operator token, the comparison in time independent of the contents, the
  public routes, the middleware's decision and the listen address. The parsing of an IP address and
  its text, the file system's answer for the token file and the header value's conversion to text
  are parameters.
\<close>

unbundle bit_operations_syntax

section \<open>The token\<close>

definition OPERATOR_TOKEN_HEADER :: string where "OPERATOR_TOKEN_HEADER = ''x-aegis-operator-token''"
definition MIN_TOKEN_LEN :: nat where "MIN_TOKEN_LEN = 32"

definition PUBLIC_READ_PATHS :: "string list" where
  "PUBLIC_READ_PATHS = [''/health'', ''/api/v1/health'', ''/v1/models'', ''/api/v1/skills'',
     ''/api/v1/events'', ''/events'']"

record operator_auth =
  oa_token :: "string option"

definition auth_disabled :: operator_auth where
  "auth_disabled = \<lparr>oa_token = None\<rparr>"

definition ascii_graphic :: "char \<Rightarrow> bool" where
  "ascii_graphic c \<longleftrightarrow> 33 \<le> (of_char c :: nat) \<and> (of_char c :: nat) \<le> 126"

definition with_token :: "string \<Rightarrow> string + operator_auth" where
  "with_token token =
     (let t = trim token in
      if length t < MIN_TOKEN_LEN then Inl ''operator token must be at least 32 characters''
      else if \<not> list_all ascii_graphic t
      then Inl ''operator token must be printable ASCII without spaces''
      else Inr \<lparr>oa_token = Some t\<rparr>)"

text \<open>
  \<open>load\<close>: the token file's path with what reading it gives, if one is named; the value of the
  environment variable otherwise.
\<close>

definition load_auth :: "(string \<times> (string + string)) option \<Rightarrow> string option \<Rightarrow> string + operator_auth" where
  "load_auth token_file env =
     (case token_file of
        Some (path, read) \<Rightarrow>
          try_bind (map_err (\<lambda>e. ''cannot read operator token file '' @ path @ '': '' @ e) read) with_token
      | None \<Rightarrow>
          (case env of
             Some v \<Rightarrow> if trim v \<noteq> [] then with_token v else Inr auth_disabled
           | None \<Rightarrow> Inr auth_disabled))"

definition is_configured :: "operator_auth \<Rightarrow> bool" where
  "is_configured auth \<longleftrightarrow> oa_token auth \<noteq> None"

definition byte_of :: "char \<Rightarrow> u8" where
  "byte_of c = word_of_nat (of_char c)"

definition as_bytes :: "string \<Rightarrow> u8 list" where
  "as_bytes s = map byte_of s"

definition constant_time_eq :: "u8 list \<Rightarrow> u8 list \<Rightarrow> bool" where
  "constant_time_eq a b =
     (if length a \<noteq> length b then False
      else fold (\<lambda>(x, y) acc. acc OR (x XOR y)) (zip a b) 0 = 0)"

definition verify_token :: "operator_auth \<Rightarrow> string option \<Rightarrow> bool" where
  "verify_token auth presented =
     (case (oa_token auth, presented) of
        (Some expected, Some got) \<Rightarrow> constant_time_eq (as_bytes expected) (as_bytes got)
      | _ \<Rightarrow> False)"

section \<open>Requests\<close>

datatype http_method = Get | Head | Post | OtherMethod string

text \<open>
  \<open>rq_header\<close> gives the first value under a (lower-case) header name, after the conversion to text,
  if there is a value and it converts.
\<close>

record request =
  rq_method :: http_method
  rq_path :: string
  rq_header :: "string \<Rightarrow> string option"

definition presented_token :: "request \<Rightarrow> string option" where
  "presented_token req =
     (case Option.bind (rq_header req ''authorization'') (strip_prefix ''Bearer '') of
        Some rest \<Rightarrow> Some (trim rest)
      | None \<Rightarrow> map_option trim (rq_header req OPERATOR_TOKEN_HEADER))"

definition is_public :: "http_method \<Rightarrow> string \<Rightarrow> bool" where
  "is_public m path \<longleftrightarrow> (m = Get \<or> m = Head) \<and> path \<in> set PUBLIC_READ_PATHS"

datatype auth_decision = Forward | ServiceUnavailable | Unauthorized

definition require_operator :: "operator_auth \<Rightarrow> request \<Rightarrow> auth_decision" where
  "require_operator auth req =
     (if is_public (rq_method req) (rq_path req) then Forward
      else if \<not> is_configured auth then ServiceUnavailable
      else if verify_token auth (presented_token req) then Forward
      else Unauthorized)"

section \<open>The listen address\<close>

datatype ip_addr = V4 u8 u8 u8 u8 | V6 "128 word"

fun is_loopback :: "ip_addr \<Rightarrow> bool" where
  "is_loopback (V4 a b c d) = (a = 127)"
| "is_loopback (V6 w) = (w = 1)"

definition resolve_bind_addr ::
  "(string \<Rightarrow> ip_addr option) \<Rightarrow> (ip_addr \<Rightarrow> string) \<Rightarrow> (string \<Rightarrow> string) \<Rightarrow> string \<Rightarrow> u16 \<Rightarrow> bool \<Rightarrow>
   string + ip_addr \<times> u16" where
  "resolve_bind_addr parse show_ip debug host port allow_non_loopback =
     (case parse (trim host) of
        None \<Rightarrow> Inl (''bind address '' @ debug host @ '' is not an IP address'')
      | Some ip \<Rightarrow>
          if \<not> is_loopback ip \<and> \<not> allow_non_loopback
          then Inl (''refusing to listen on non-loopback address '' @ show_ip ip @
            ''; pass --allow-non-loopback-bind to opt in'')
          else Inr (ip, port))"

section \<open>Properties\<close>

lemma xor_zero_iff: "(x :: u8) XOR y = 0 \<longleftrightarrow> x = y"
  by (metis bit.xor_cancel_right bit.xor_self bit.xor_left_self xor.right_neutral)

lemma or_zero_iff: "(x :: u8) OR y = 0 \<longleftrightarrow> x = 0 \<and> y = 0"
  by (metis or.left_neutral or.right_neutral or.left_idem)

lemma fold_or_zero:
  "fold (\<lambda>(x, y) acc. acc OR (x XOR y)) ps (acc :: u8) = 0 \<longleftrightarrow> acc = 0 \<and> (\<forall>(x, y)\<in>set ps. x = y)"
  by (induction ps arbitrary: acc) (auto simp: or_zero_iff xor_zero_iff)

lemma zip_all_eq: "length a = length b \<Longrightarrow> (\<forall>(x, y)\<in>set (zip a b). x = y) \<longleftrightarrow> a = b"
  by (induction a b rule: list_induct2) auto

text \<open>
  The comparison that accumulates differences over all positions, without stopping at the first,
  is equality of the two byte sequences.
\<close>

lemma constant_time_eq_iff: "constant_time_eq a b \<longleftrightarrow> a = b"
  by (auto simp: constant_time_eq_def fold_or_zero zip_all_eq)

lemma byte_of_inj: "inj byte_of"
proof (rule injI)
  fix c d :: char
  assume "byte_of c = byte_of d"
  then have "take_bit 8 (of_char c :: nat) = take_bit 8 (of_char d)"
    by (simp add: byte_of_def word_of_nat_eq_iff)
  then have "char_of (take_bit 8 (of_char c :: nat)) = char_of (take_bit 8 (of_char d :: nat))"
    by simp
  then show "c = d" by (simp add: char_of_take_bit_eq)
qed

lemma verify_iff:
  "verify_token auth p \<longleftrightarrow> (\<exists>t. oa_token auth = Some t \<and> p = Some t)"
  using inj_map_eq_map [OF byte_of_inj]
  by (auto simp: verify_token_def constant_time_eq_iff as_bytes_def split: option.split)

text \<open>
  A request is let through exactly when it is a read of a listed public path or presents the
  configured token itself; without a configured token every other request is refused as
  unavailable, and with one it is refused as unauthorized.
\<close>

lemma require_operator_decides:
  "require_operator auth req =
     (if (rq_method req = Get \<or> rq_method req = Head) \<and> rq_path req \<in> set PUBLIC_READ_PATHS then Forward
      else (case oa_token auth of
          None \<Rightarrow> ServiceUnavailable
        | Some t \<Rightarrow> if presented_token req = Some t then Forward else Unauthorized))"
  by (auto simp: require_operator_def is_public_def is_configured_def verify_iff split: option.split)

text \<open>
  C33: Whatever way the token is configured, it has at least 32 bytes, all printable ASCII and none
  of them white space, and it is the trimmed text of the file if one is named, of the environment
  variable otherwise; a file that cannot be read or holds a bad token is an error, never a disabled
  or an empty token.
\<close>

theorem configured_tokens_are_strong:
  assumes "load_auth token_file env = Inr auth"
  shows "(case oa_token auth of
      Some t \<Rightarrow> 32 \<le> length t \<and> list_all ascii_graphic t \<and>
        (case token_file of Some (path, read) \<Rightarrow> \<exists>raw. read = Inr raw \<and> t = trim raw
         | None \<Rightarrow> \<exists>v. env = Some v \<and> t = trim v)
    | None \<Rightarrow> token_file = None \<and> (case env of Some v \<Rightarrow> trim v = [] | None \<Rightarrow> True))"
  using assms
  by (auto simp: load_auth_def with_token_def auth_disabled_def try_bind_Inr_iff MIN_TOKEN_LEN_def Let_def
      split: option.splits if_splits)

definition sample_token :: string where
  "sample_token = ''0123456789abcdef0123456789abcdef''"

theorem configured_tokens_are_strong_witness:
  "load_auth (Some (''/run/token'', Inr (sample_token @ [CHR 0x0A]))) None = Inr \<lparr>oa_token = Some sample_token\<rparr> \<and>
   32 \<le> length sample_token"
proof -
  have l: "load_auth (Some (''/run/token'', Inr (sample_token @ [CHR 0x0A]))) None = Inr \<lparr>oa_token = Some sample_token\<rparr>"
    by code_simp
  with configured_tokens_are_strong [OF l] show ?thesis by simp
qed

text \<open>
  The gateway listens on a loopback address unless the operator opted in, on the port asked for,
  and never on a text that is not an address.
\<close>

lemma bind_addr_loopback_unless_opted_in:
  "resolve_bind_addr parse show_ip debug host port allow = Inr (ip, p) \<longleftrightarrow>
   p = port \<and> parse (trim host) = Some ip \<and> (allow \<or> is_loopback ip)"
  by (auto simp: resolve_bind_addr_def split: option.split)

end
