(* ===== verification/Vault.thy ===== *)
theory Vault
  imports RustStr
begin

text \<open>
  \<open>src/vault.rs\<close>: resolving secrets through the vault client, the in-memory cache and the redaction
  of cached secrets from text. The vault client process and the environment are parameters. The
  cache is a hash map: the order in which its values come is arbitrary, so redaction takes that order
  and the theorem is about every order. A lock poisoned by a panic makes every call take its error
  branch.
\<close>

section \<open>The resolver\<close>

definition REDACTED_MARKER :: string where "REDACTED_MARKER = ''[REDACTED_BY_ATLAS_VAULT]''"

record vault =
  va_cache :: "string \<rightharpoonup> string"
  va_poisoned :: bool

definition new_vault :: vault where
  "new_vault = \<lparr>va_cache = Map.empty, va_poisoned = False\<rparr>"

text \<open>
  The answer of \<open>atlas-vault get key\<close>: none if the client cannot be started, otherwise whether it
  succeeded and what it printed.
\<close>

record vault_world =
  vw_atlas_vault :: "string \<Rightarrow> (bool \<times> string) option"
  vw_env :: "string \<Rightarrow> string option"

definition dev_secret_fallback_enabled :: "vault_world \<Rightarrow> bool" where
  "dev_secret_fallback_enabled W \<longleftrightarrow>
     vw_env W ''AIEN_DEV_SECRET_FALLBACK'' \<in> {Some ''1'', Some ''true'', Some ''on''}"

definition cache_secret :: "string \<Rightarrow> string \<Rightarrow> vault \<Rightarrow> vault" where
  "cache_secret key v s = s\<lparr>va_cache := (va_cache s)(key \<mapsto> v)\<rparr>"

definition resolve_secret :: "vault_world \<Rightarrow> string \<Rightarrow> vault \<Rightarrow> (string + string) \<times> vault" where
  "resolve_secret W key s =
     (if trim key = [] then (Inl ''Secret key cannot be empty'', s)
      else if va_poisoned s then (Inl ''poisoned lock: another task failed inside'', s)
      else case va_cache s key of
          Some v \<Rightarrow> (Inr v, s)
        | None \<Rightarrow>
            (let from_vault = (case vw_atlas_vault W key of
                   Some (True, out) \<Rightarrow> (if trim out \<noteq> [] then Some (trim out) else None)
                 | _ \<Rightarrow> None)
             in case from_vault of
                  Some v \<Rightarrow> (Inr v, cache_secret key v s)
                | None \<Rightarrow>
                    (case (if dev_secret_fallback_enabled W then vw_env W key else None) of
                       Some v \<Rightarrow> (Inr v, cache_secret key v s)
                     | None \<Rightarrow> (Inl (''Secret '' @ [CHR 0x27] @ key @ [CHR 0x27] @
                         '' was not returned by atlas-vault. VaultResolver is a client of atlas-vault, not a TPM. Process-environment fallback is off unless AIEN_DEV_SECRET_FALLBACK=1.''), s))))"

definition insert_cached :: "string \<Rightarrow> string \<Rightarrow> vault \<Rightarrow> vault" where
  "insert_cached key secret s = (if va_poisoned s then s else cache_secret key secret s)"

definition has_cached :: "string \<Rightarrow> vault \<Rightarrow> bool" where
  "has_cached key s = (if va_poisoned s then False else va_cache s key \<noteq> None)"

section \<open>Redaction\<close>

definition redact_value :: "string \<Rightarrow> string \<Rightarrow> string" where
  "redact_value v text = (if length v \<ge> 4 then str_replace v REDACTED_MARKER text else text)"

text \<open>\<open>vals\<close> are the values of the cache in the order the map yields them.\<close>

definition redact_sensitive_text :: "string list \<Rightarrow> vault \<Rightarrow> string \<Rightarrow> string" where
  "redact_sensitive_text vals s text =
     (if va_poisoned s then text else fold redact_value vals text)"

section \<open>Properties\<close>

lemma redact_keeps_out:
  "marker_for REDACTED_MARKER u \<Longrightarrow> \<not> str_contains b u \<Longrightarrow> \<not> str_contains (fold redact_value vals b) u"
  by (induction vals arbitrary: b) (auto simp: redact_value_def str_replace_keeps_out)

text \<open>
  C34: No cached secret of at least four bytes survives redaction, in whatever order the cache yields
  its values and however secrets overlap or contain each other: provided the lock is not poisoned (then the text comes
  back as it was) and the secret cannot be confused with the marker (it holds no square bracket and is no part of the
  marker), it does not occur in the redacted text.
\<close>

theorem vault_redaction_removes_secrets:
  assumes "set vals = ran (va_cache s)" "\<not> va_poisoned s" "va_cache s key = Some v"
    and "4 \<le> length v" "marker_for REDACTED_MARKER v"
  shows "\<not> str_contains (redact_sensitive_text vals s text) v"
proof -
  have "v \<in> set vals" using assms(1,3) by (auto simp: ran_def)
  then obtain before after where vals: "vals = before @ v # after" by (meson split_list)
  have ne: "v \<noteq> []" using assms(4) by auto
  have "\<not> str_contains (redact_value v (fold redact_value before text)) v"
    using assms(4) str_replace_removes [OF assms(5) ne] by (simp add: redact_value_def)
  then have "\<not> str_contains (fold redact_value after (redact_value v (fold redact_value before text))) v"
    by (rule redact_keeps_out [OF assms(5)])
  then show ?thesis using assms(2) by (simp add: redact_sensitive_text_def vals)
qed

definition two_secrets :: vault where
  "two_secrets = insert_cached ''A'' ''hunter22'' (insert_cached ''B'' ''hunter22-prod'' new_vault)"

theorem vault_redaction_removes_secrets_witness:
  "\<not> str_contains (redact_sensitive_text [''hunter22'', ''hunter22-prod''] two_secrets
      ''key hunter22-prod and hunter22'') ''hunter22-prod''"
proof (rule vault_redaction_removes_secrets [where key = "''B''"])
  have "va_cache two_secrets = (Map.empty(''B'' \<mapsto> ''hunter22-prod''))(''A'' \<mapsto> ''hunter22'')"
    by (simp add: two_secrets_def insert_cached_def cache_secret_def new_vault_def)
  then show "set [''hunter22'', ''hunter22-prod''] = ran (va_cache two_secrets)" by simp
qed (code_simp+)

text \<open>
  Two limits of the redaction. With a poisoned lock it fails open: the text comes back as it was, secrets included.
  And when a cached secret begins with another, the map's order decides how much of it stays: if the shorter
  one comes first, only that part is masked and the rest of the longer secret remains readable.
\<close>

lemma redact_open_on_poison: "redact_sensitive_text vals (s\<lparr>va_poisoned := True\<rparr>) text = text"
  by (simp add: redact_sensitive_text_def)

lemma redact_order_leaves_rest:
  "redact_sensitive_text [''hunter22'', ''hunter22-prod''] two_secrets ''hunter22-prod'' = REDACTED_MARKER @ ''-prod''"
  "redact_sensitive_text [''hunter22-prod'', ''hunter22''] two_secrets ''hunter22-prod'' = REDACTED_MARKER"
  by code_simp+

text \<open>
  A secret comes from a place the policy allows: from the cache, from a successful and nonempty
  answer of the vault client, or, only when the development fallback is switched on and the client
  gave nothing, from the environment. What is resolved is cached under its key, and no other entry
  of the cache changes; a failed resolution changes nothing.
\<close>

lemma resolve_secret_provenance:
  assumes "resolve_secret W key s = (res, s')"
  shows "(case res of
      Inr v \<Rightarrow> va_cache s' = (va_cache s)(key \<mapsto> v) \<and> trim key \<noteq> [] \<and>
        (va_cache s key = Some v \<or>
         va_cache s key = None \<and> (\<exists>out. vw_atlas_vault W key = Some (True, out) \<and> v = trim out \<and> v \<noteq> []) \<or>
         va_cache s key = None \<and> dev_secret_fallback_enabled W \<and> vw_env W key = Some v)
    | Inl e \<Rightarrow> s' = s)"
  using assms
  by (auto simp: resolve_secret_def cache_secret_def Let_def map_upd_triv
      split: if_splits option.splits prod.splits bool.splits)

definition silent_world :: vault_world where
  "silent_world = \<lparr>vw_atlas_vault = (\<lambda>_. Some (False, [])), vw_env = (\<lambda>k. if k = ''TOKEN'' then Some ''abc'' else None)\<rparr>"

lemma resolve_secret_provenance_witness:
  "snd (resolve_secret silent_world ''TOKEN'' new_vault) = new_vault \<and>
   \<not> is_ok (fst (resolve_secret silent_world ''TOKEN'' new_vault))"
proof -
  obtain res s' where r: "resolve_secret silent_world ''TOKEN'' new_vault = (res, s')" by force
  have t: "trim ''TOKEN'' \<noteq> []" by code_simp
  have "\<not> is_ok res" using r t
    by (auto simp: resolve_secret_def silent_world_def new_vault_def dev_secret_fallback_enabled_def)
  with resolve_secret_provenance [OF r] r show ?thesis by (cases res) auto
qed

end
