(* ===== verification/VectorMath.thy ===== *)
theory VectorMath
  imports Enforcement "HOL-Library.Log_Nat"
begin

text \<open>
  \<open>src/vector_math.rs\<close> over 32-bit floating point. A value is not-a-number, an infinity or a rational, as in
  \<open>Enforcement\<close>; every operation is computed exactly and then rounded to the nearest value with 24 significant
  bits and an exponent of at least -149, ties to even. The two zeros are one value: the source divides only by
  numbers above zero, so their difference shows in nothing but the sign of a zero that is returned. The natural
  logarithm of the platform is a parameter.
\<close>

type_synonym f32 = f64

section \<open>Rounding\<close>

definition round_half_even :: "rat \<Rightarrow> int" where
  "round_half_even x =
     (let n = \<lfloor>x\<rfloor>; r = x - of_int n
      in if r < 1 / 2 then n else if 1 / 2 < r then n + 1 else if even n then n else n + 1)"

text \<open>The exponent of the leading bit of a positive number.\<close>

definition log2_floor :: "rat \<Rightarrow> int" where
  "log2_floor x = (case quotient_of x of (n, d) \<Rightarrow>
     (let e = bitlen n - bitlen d in if 2 powi e \<le> x then e else e - 1))"

text \<open>The exponent of the last bit that is kept.\<close>

definition ulp_exponent :: "rat \<Rightarrow> int" where
  "ulp_exponent x = max (- 149) (log2_floor \<bar>x\<bar> - 23)"

definition round_f32 :: "rat \<Rightarrow> f32" where
  "round_f32 x =
     (if x = 0 then Fin 0
      else (let q = 2 powi (ulp_exponent x); r = of_int (round_half_even (x / q)) * q
            in if 2 ^ 128 \<le> \<bar>r\<bar> then (if 0 < x then PosInf else NegInf) else Fin r))"

section \<open>Operations\<close>

fun f32_add :: "f32 \<Rightarrow> f32 \<Rightarrow> f32" where
  "f32_add (Fin a) (Fin b) = round_f32 (a + b)"
| "f32_add NaN y = NaN"
| "f32_add x NaN = NaN"
| "f32_add PosInf NegInf = NaN"
| "f32_add NegInf PosInf = NaN"
| "f32_add PosInf y = PosInf"
| "f32_add x PosInf = PosInf"
| "f32_add NegInf y = NegInf"
| "f32_add x NegInf = NegInf"

fun f32_sign :: "f32 \<Rightarrow> rat" where
  "f32_sign (Fin a) = sgn a"
| "f32_sign PosInf = 1"
| "f32_sign NegInf = - 1"
| "f32_sign NaN = 0"

definition signed_inf :: "rat \<Rightarrow> f32" where
  "signed_inf s = (if 0 < s then PosInf else if s < 0 then NegInf else NaN)"

fun f32_mul :: "f32 \<Rightarrow> f32 \<Rightarrow> f32" where
  "f32_mul (Fin a) (Fin b) = round_f32 (a * b)"
| "f32_mul x y = signed_inf (f32_sign x * f32_sign y)"

text \<open>The divisor is never a zero in the source; the model has no sign to give the quotient then.\<close>

fun f32_div :: "f32 \<Rightarrow> f32 \<Rightarrow> f32" where
  "f32_div (Fin a) (Fin b) = (if b = 0 then NaN else round_f32 (a / b))"
| "f32_div (Fin a) PosInf = Fin 0"
| "f32_div (Fin a) NegInf = Fin 0"
| "f32_div PosInf (Fin b) = signed_inf (sgn b)"
| "f32_div NegInf (Fin b) = signed_inf (- sgn b)"
| "f32_div x y = NaN"

fun f32_neg :: "f32 \<Rightarrow> f32" where
  "f32_neg (Fin a) = Fin (- a)"
| "f32_neg PosInf = NegInf"
| "f32_neg NegInf = PosInf"
| "f32_neg NaN = NaN"

text \<open>
  The square root. The largest \<open>k\<close> with \<open>k\<^sup>2 \<le> x / q\<^sup>2\<close> is found on integers, for \<open>q\<close> the last bit kept of the
  root, and the nearer of \<open>k\<close> and \<open>k + 1\<close> is taken.
\<close>

definition isqrt_next :: "int \<Rightarrow> int \<Rightarrow> int" where
  "isqrt_next n r = (if (r + 1) ^ 2 \<le> n then r + 1 else r)"

function isqrt :: "int \<Rightarrow> int" where
  "isqrt n = (if n \<le> 0 then 0 else isqrt_next n (2 * isqrt (n div 4)))"
  by pat_completeness auto
termination by (relation "measure nat") auto

declare isqrt.simps [simp del]

definition sqrt_pos :: "rat \<Rightarrow> f32" where
  "sqrt_pos x =
     (let q = 2 powi (log2_floor x div 2 - 23);
          y = x / q ^ 2;
          k = isqrt \<lfloor>y\<rfloor>
      in Fin (of_int (if (of_int k + 1 / 2) ^ 2 < y then k + 1 else k) * q))"

fun f32_sqrt :: "f32 \<Rightarrow> f32" where
  "f32_sqrt (Fin a) = (if a < 0 then NaN else if a = 0 then Fin 0 else sqrt_pos a)"
| "f32_sqrt PosInf = PosInf"
| "f32_sqrt x = NaN"

fun is_nan :: "f32 \<Rightarrow> bool" where
  "is_nan NaN = True"
| "is_nan _ = False"

fun is_infinite :: "f32 \<Rightarrow> bool" where
  "is_infinite PosInf = True"
| "is_infinite NegInf = True"
| "is_infinite _ = False"

text \<open>A literal of the source, in decimal.\<close>

definition lit :: "rat \<Rightarrow> f32" where
  "lit x = round_f32 x"

section \<open>Cosine similarity\<close>

type_synonym lanes = "f32 \<times> f32 \<times> f32 \<times> f32"

fun lane_list :: "lanes \<Rightarrow> f32 list" where
  "lane_list (x0, x1, x2, x3) = [x0, x1, x2, x3]"

definition not_finite :: "f32 \<Rightarrow> bool" where
  "not_finite x \<longleftrightarrow> is_nan x \<or> is_infinite x"

text \<open>The sum of the four products, from the left.\<close>

fun dot_4d :: "lanes \<Rightarrow> lanes \<Rightarrow> f32" where
  "dot_4d (a0, a1, a2, a3) (b0, b1, b2, b3) =
     f32_add (f32_add (f32_add (f32_mul a0 b0) (f32_mul a1 b1)) (f32_mul a2 b2)) (f32_mul a3 b3)"

text \<open>The end of both routines: the quotient, or zero where it would not be a number.\<close>

definition cosine_of :: "f32 \<Rightarrow> f32 \<Rightarrow> f32 \<Rightarrow> f32" where
  "cosine_of dot norm_a norm_b =
     (if f64_le norm_a (Fin 0) \<or> f64_le norm_b (Fin 0) \<or> is_nan norm_a \<or> is_nan norm_b then Fin 0
      else (let denom = f32_mul (f32_sqrt norm_a) (f32_sqrt norm_b)
            in if f64_le denom (Fin 0) \<or> is_nan denom then Fin 0
               else (let res = f32_div dot denom in if is_nan res \<or> is_infinite res then Fin 0 else res)))"

definition cosine_similarity_4d :: "lanes \<Rightarrow> lanes \<Rightarrow> f32" where
  "cosine_similarity_4d a b =
     (if list_ex not_finite (lane_list a) \<or> list_ex not_finite (lane_list b) then Fin 0
      else cosine_of (dot_4d a b) (dot_4d a a) (dot_4d b b))"

text \<open>The loop over the entries: \<open>None\<close> for the return from within it.\<close>

fun cosine_loop :: "(f32 \<times> f32) list \<Rightarrow> f32 \<Rightarrow> f32 \<Rightarrow> f32 \<Rightarrow> (f32 \<times> f32 \<times> f32) option" where
  "cosine_loop [] dot na nb = Some (dot, na, nb)"
| "cosine_loop ((x, y) # ps) dot na nb =
     (if not_finite x \<or> not_finite y then None
      else cosine_loop ps (f32_add dot (f32_mul x y)) (f32_add na (f32_mul x x)) (f32_add nb (f32_mul y y)))"

definition cosine_by_loop :: "f32 list \<Rightarrow> f32 list \<Rightarrow> f32" where
  "cosine_by_loop a b = (case cosine_loop (zip a b) (Fin 0) (Fin 0) (Fin 0) of
     None \<Rightarrow> Fin 0 | Some (dot, na, nb) \<Rightarrow> cosine_of dot na nb)"

definition cosine_similarity :: "f32 list \<Rightarrow> f32 list \<Rightarrow> f32" where
  "cosine_similarity a b =
     (if length a \<noteq> length b \<or> a = [] then Fin 0
      else if length a = 4
      then cosine_similarity_4d (a ! 0, a ! 1, a ! 2, a ! 3) (b ! 0, b ! 1, b ! 2, b ! 3)
      else cosine_by_loop a b)"

section \<open>The other routines\<close>

definition accumulate_step :: "f32 list \<Rightarrow> f32 list \<Rightarrow> f32 list" where
  "accumulate_step step_vec acc =
     map (\<lambda>(x, s, c). f32_add (f32_mul x s) c) (zip acc (zip step_vec [lit 0.01, lit 0.02, lit 0.03, lit 0.04]))"

definition accumulate :: "f32 \<Rightarrow> f32 \<Rightarrow> int \<Rightarrow> f32" where
  "accumulate base_val scale steps =
     (if is_nan base_val \<or> is_nan scale \<or> steps \<le> 0 then Fin 0
      else (let acc = [base_val, f32_mul base_val (lit 1.5), f32_mul base_val (lit 2.0), f32_mul base_val (lit 2.5)];
                step_vec = [scale, f32_mul scale (lit 1.1), f32_mul scale (lit 1.2), f32_mul scale (lit 1.3)]
            in foldl f32_add (Fin 0) ((accumulate_step step_vec ^^ nat steps) acc)))"

definition token_entropy :: "(f32 \<Rightarrow> f32) \<Rightarrow> lanes \<Rightarrow> f32" where
  "token_entropy natural_log probs =
     foldl (\<lambda>sum p. if is_nan p \<or> is_infinite p then sum
                    else if f64_less (lit 0.00001) p then f32_add sum (f32_mul (f32_neg p) (natural_log p)) else sum)
       (Fin 0) (lane_list probs)"

definition token_projection :: "lanes \<Rightarrow> lanes \<Rightarrow> f32 \<Rightarrow> f32" where
  "token_projection tokens weights bias =
     (if list_ex not_finite (lane_list tokens) \<or> list_ex not_finite (lane_list weights) then Fin 0
      else if is_nan bias \<or> is_infinite bias then Fin 0
      else f32_add (dot_4d tokens weights) bias)"

definition temperature_scale :: "f32 \<Rightarrow> f32 \<Rightarrow> f32" where
  "temperature_scale logit temperature =
     (if is_nan logit \<or> is_nan temperature \<or> is_infinite logit \<or> is_infinite temperature then Fin 0
      else if f64_le temperature (lit 0.0001) then logit
      else (let res = f32_div logit temperature in if is_nan res \<or> is_infinite res then logit else res))"

definition l2_norm :: "f32 list \<Rightarrow> f32" where
  "l2_norm vec = f32_sqrt (foldl f32_add (Fin 0) (map (\<lambda>v. f32_mul v v) vec))"

section \<open>Rounding gives a value of the format\<close>

lemma quotient_of_bounds:
  assumes "quotient_of x = (n, d)" "0 < x"
  shows "0 < n" "0 < d" "x = of_int n / of_int d"
proof -
  show d: "0 < d" using quotient_of_denom_pos [OF assms(1)] .
  show x: "x = of_int n / of_int d" using quotient_of_div [OF assms(1)] .
  show "0 < n" using assms(2) d unfolding x by (simp add: zero_less_divide_iff)
qed

lemma powi2_less_iff [simp]: "2 powi a < (2 powi b :: rat) \<longleftrightarrow> a < b"
  by (meson linorder_not_less one_less_numeral_iff order_less_imp_le power_int_increasing power_int_strict_increasing
      semiring_norm(76))

lemma bitlen_powi:
  assumes "0 < n"
  shows "2 powi (bitlen n - 1) \<le> (of_int n :: rat)" "(of_int n :: rat) < 2 powi bitlen n"
proof -
  have b: "2 ^ nat (bitlen n - 1) \<le> n" "n < 2 ^ nat (bitlen n)" using bitlen_bounds [OF assms] by auto
  have "0 < bitlen n" using assms bitlen_eq_zero_iff [of n] bitlen_nonneg [of n] by linarith
  then have "2 powi (bitlen n - 1) = (of_int (2 ^ nat (bitlen n - 1)) :: rat)" "2 powi bitlen n = (of_int (2 ^ nat (bitlen n)) :: rat)"
    by (simp_all add: power_int_def)
  with b show "2 powi (bitlen n - 1) \<le> (of_int n :: rat)" "(of_int n :: rat) < 2 powi bitlen n"
    by (simp_all only: of_int_le_iff of_int_less_iff)
qed

lemma log2_floor_bounds:
  assumes "0 < x"
  shows "2 powi (log2_floor x) \<le> x" "x < 2 powi (log2_floor x + 1)"
proof -
  obtain n d where q: "quotient_of x = (n, d)" by force
  note nd = quotient_of_bounds [OF q assms]
  let ?e = "bitlen n - bitlen d"
  have e: "log2_floor x = (if 2 powi ?e \<le> x then ?e else ?e - 1)" by (simp add: log2_floor_def q)
  note bn = bitlen_powi [OF nd(1)] and bd = bitlen_powi [OF nd(2)]
  have d: "0 < (of_int d :: rat)" using nd(2) by simp
  have "2 powi (?e - 1) * (of_int d :: rat) \<le> 2 powi (?e - 1) * 2 powi bitlen d"
    using bd(2) by (intro mult_left_mono) auto
  also have "\<dots> = 2 powi (bitlen n - 1)" by (simp flip: power_int_add)
  also note bn(1)
  finally have lo: "2 powi (?e - 1) \<le> x" using d by (simp add: nd(3) le_divide_eq)
  have "2 powi bitlen n = 2 powi (?e + 1) * (2 powi (bitlen d - 1) :: rat)" by (simp flip: power_int_add)
  also have "\<dots> \<le> 2 powi (?e + 1) * of_int d" using bd(1) by (intro mult_left_mono) auto
  finally have "of_int n < 2 powi (?e + 1) * (of_int d :: rat)" using bn(2) by linarith
  then have hi: "x < 2 powi (?e + 1)" using d by (simp add: nd(3) divide_less_eq)
  show "2 powi (log2_floor x) \<le> x" using lo by (simp add: e)
  show "x < 2 powi (log2_floor x + 1)" using hi by (simp add: e)
qed

lemma log2_floor_eqI:
  assumes "2 powi e \<le> x" "x < 2 powi (e + 1)"
  shows "log2_floor x = e"
proof -
  have "0 < x" using assms(1) by (rule less_le_trans [rotated]) simp
  note b = log2_floor_bounds [OF this]
  have "2 powi e < (2 powi (log2_floor x + 1) :: rat)" "2 powi log2_floor x < (2 powi (e + 1) :: rat)"
    using assms b by linarith+
  then have "e < log2_floor x + 1" "log2_floor x < e + 1" by simp_all
  then show ?thesis by simp
qed

lemma round_half_even_int [simp]: "round_half_even (of_int k) = k"
  by (simp add: round_half_even_def)

lemma round_half_even_near: "\<bar>of_int (round_half_even y) - y\<bar> \<le> 1 / 2"
proof -
  have "of_int \<lfloor>y\<rfloor> \<le> y" "y < of_int \<lfloor>y\<rfloor> + 1" by linarith+
  then show ?thesis unfolding round_half_even_def Let_def by (auto simp: abs_le_iff)
qed

lemma round_half_even_le:
  assumes "\<bar>y\<bar> \<le> of_int k"
  shows "\<bar>round_half_even y\<bar> \<le> k"
proof -
  have "of_int (round_half_even y) < (of_int (k + 1) :: rat)" "(of_int (- k - 1) :: rat) < of_int (round_half_even y)"
    using round_half_even_near [of y] assms by (simp_all add: abs_if split: if_splits)
  then show ?thesis by (simp only: of_int_less_iff)
qed

lemma ulp_exponent_less:
  assumes "x \<noteq> 0"
  shows "\<bar>x\<bar> < 2 powi (ulp_exponent x + 24)"
proof -
  have "\<bar>x\<bar> < 2 powi (log2_floor \<bar>x\<bar> + 1)" using assms by (intro log2_floor_bounds) simp
  also have "\<dots> \<le> 2 powi (ulp_exponent x + 24)" by (rule power_int_increasing) (auto simp: ulp_exponent_def)
  finally show ?thesis .
qed

text \<open>The finite values: at most 24 bits, the last of weight at least 2 to the -149, and below 2 to the 128.\<close>

definition f32_value :: "rat \<Rightarrow> bool" where
  "f32_value r \<longleftrightarrow> (\<exists>k q. r = of_int k * 2 powi q \<and> \<bar>k\<bar> \<le> 2 ^ 24 \<and> - 149 \<le> q \<and> \<bar>r\<bar> < 2 ^ 128)"

lemma round_f32_value:
  assumes "round_f32 x = Fin r"
  shows "f32_value r"
proof (cases "x = 0")
  case True
  with assms have "r = of_int 0 * 2 powi 0" by (simp add: round_f32_def)
  then show ?thesis unfolding f32_value_def by (intro exI conjI) (assumption | simp)+
next
  case False
  let ?q = "ulp_exponent x" and ?k = "round_half_even (x / 2 powi ulp_exponent x)"
  have r: "r = of_int ?k * 2 powi ?q" "\<bar>r\<bar> < 2 ^ 128"
    using assms False by (auto simp: round_f32_def Let_def split: if_splits)
  have "\<bar>x / 2 powi ?q\<bar> \<le> of_int (2 ^ 24)"
    using ulp_exponent_less [OF False] by (simp add: power_int_add divide_le_eq mult.commute)
  then have "\<bar>?k\<bar> \<le> 2 ^ 24" by (rule round_half_even_le)
  with r show ?thesis unfolding f32_value_def by (intro exI conjI) (assumption | simp add: ulp_exponent_def)+
qed

lemma f32_value_multiple:
  assumes "f32_value r" "r \<noteq> 0"
  shows "\<exists>k. r = of_int k * 2 powi ulp_exponent r"
proof -
  obtain k q where r: "r = of_int k * 2 powi q" and k: "\<bar>k\<bar> \<le> 2 ^ 24" and q: "- 149 \<le> q"
    using assms(1) by (auto simp: f32_value_def)
  let ?u = "ulp_exponent r"
  have abs: "\<bar>r\<bar> = of_int \<bar>k\<bar> * 2 powi q" by (simp add: r abs_mult)
  have le: "\<bar>r\<bar> \<le> 2 powi (q + 24)"
    using k unfolding abs by (simp add: power_int_add)
  show ?thesis
  proof (cases "?u \<le> q")
    case True
    then have "2 powi q = (2 ^ nat (q - ?u) * 2 powi ?u :: rat)"
      by (simp flip: power_int_of_nat power_int_add)
    then have "r = of_int (k * 2 ^ nat (q - ?u)) * 2 powi ?u" by (simp add: r)
    then show ?thesis ..
  next
    case False
    with q have u: "?u = log2_floor \<bar>r\<bar> - 23" by (auto simp: ulp_exponent_def max_def split: if_splits)
    have lo: "2 powi (?u + 23) \<le> \<bar>r\<bar>" using log2_floor_bounds(1) [of "\<bar>r\<bar>"] assms(2) by (simp add: u)
    have "2 powi (?u + 23) < (2 powi (q + 25) :: rat)"
      by (rule le_less_trans [OF order_trans [OF lo le]]) simp
    with False have uq: "?u = q + 1" by simp
    then have "2 powi (q + 24) \<le> \<bar>r\<bar>" using lo by (simp add: add.commute)
    with le have "\<bar>r\<bar> = 2 powi (q + 24)" by (rule antisym)
    then have "r = 2 powi (q + 24) \<or> r = - (2 powi (q + 24))" by (auto simp: abs_if split: if_splits)
    moreover have "2 powi (q + 24) = (of_int (2 ^ 23) * 2 powi ?u :: rat)" by (simp add: uq power_int_add)
    ultimately have "r = of_int (2 ^ 23) * 2 powi ?u \<or> r = of_int (- (2 ^ 23)) * 2 powi ?u" by auto
    then show ?thesis by blast
  qed
qed

lemma round_f32_id:
  assumes "f32_value r"
  shows "round_f32 r = Fin r"
proof (cases "r = 0")
  case False
  with f32_value_multiple [OF assms] obtain k where k: "r = of_int k * 2 powi ulp_exponent r" by blast
  have "r / 2 powi ulp_exponent r = of_int k" using k by (metis nonzero_mult_div_cancel_right power_int_eq_0_iff zero_neq_numeral)
  moreover have "\<bar>r\<bar> < 2 ^ 128" using assms by (auto simp: f32_value_def)
  ultimately show ?thesis using False k [symmetric] by (simp add: round_f32_def Let_def)
qed (simp add: round_f32_def)


fun f32_ok :: "f32 \<Rightarrow> bool" where
  "f32_ok (Fin r) = f32_value r"
| "f32_ok _ = True"

lemma f32_ok_results [simp]: "f32_ok (f32_mul x y)" "f32_ok (f32_add x y)" "f32_ok (f32_div x y)"
proof -
  have r: "f32_ok (round_f32 x)" for x using round_f32_value [of x] by (cases "round_f32 x") auto
  have i: "f32_ok (signed_inf s)" for s by (simp add: signed_inf_def)
  have z: "f32_value 0" unfolding f32_value_def by (intro exI [of _ 0] conjI) auto
  show "f32_ok (f32_mul x y)" by (cases "(x, y)" rule: f32_mul.cases) (simp_all add: r i)
  show "f32_ok (f32_add x y)" by (cases "(x, y)" rule: f32_add.cases) (simp_all add: r i)
  show "f32_ok (f32_div x y)" by (cases "(x, y)" rule: f32_div.cases) (simp_all add: r i z)
qed

lemma add_zero [simp]: "f32_ok y \<Longrightarrow> f32_add (Fin 0) y = y"
  by (cases y) (simp_all add: round_f32_id)

lemma mul_commute: "f32_mul x y = f32_mul y x"
  by (cases x; cases y) (simp_all add: mult.commute)

section \<open>The square root is the nearest value\<close>

lemma isqrt_bounds:
  "0 \<le> n \<Longrightarrow> 0 \<le> isqrt n \<and> (isqrt n) ^ 2 \<le> n \<and> n < (isqrt n + 1) ^ 2"
proof (induction n rule: isqrt.induct)
  case (1 n)
  show ?case
  proof (cases "n = 0")
    case False
    with 1 have ih: "0 \<le> isqrt (n div 4)" "(isqrt (n div 4)) ^ 2 \<le> n div 4" "n div 4 < (isqrt (n div 4) + 1) ^ 2"
      by auto
    let ?k = "isqrt (n div 4)"
    have "(2 * ?k) ^ 2 \<le> n" using ih(2) by (simp add: power_mult_distrib)
    moreover have "n < (2 * ?k + 2) ^ 2"
    proof -
      have "n < 4 * (n div 4 + 1)" by presburger
      also have "\<dots> \<le> 4 * (?k + 1) ^ 2" using ih(3) by simp
      also have "\<dots> = (2 * ?k + 2) ^ 2" by (simp add: power2_eq_square algebra_simps)
      finally show ?thesis .
    qed
    ultimately show ?thesis using ih(1) False 1(2) by (simp add: isqrt.simps [of n] isqrt_next_def add.assoc)
  qed (simp add: isqrt.simps)
qed

lemma sqrt_pos_nearest:
  assumes "0 < x"
  obtains k q where "sqrt_pos x = Fin (of_int k * 2 powi q)" "0 \<le> k"
    "k = 0 \<or> ((of_int k - 1 / 2) * 2 powi q) ^ 2 \<le> x" "x \<le> ((of_int k + 1 / 2) * 2 powi q) ^ 2"
proof -
  let ?q = "log2_floor x div 2 - 23" and ?y = "x / (2 powi (log2_floor x div 2 - 23)) ^ 2"
  let ?n = "\<lfloor>?y\<rfloor>" and ?k = "isqrt \<lfloor>?y\<rfloor>"
  let ?r = "if (of_int ?k + 1 / 2) ^ 2 < ?y then ?k + 1 else ?k"
  have y: "0 < ?y" using assms by simp
  then have b: "0 \<le> ?k" "?k ^ 2 \<le> ?n" "?n < (?k + 1) ^ 2" using isqrt_bounds [of ?n] by auto
  have lo: "(of_int ?k) ^ 2 \<le> ?y" using b(2) by (metis of_int_power le_floor_iff)
  have hi: "?y < (of_int ?k + 1) ^ 2" using b(3) by (metis floor_less_iff of_int_1 of_int_add of_int_power)
  have scale: "(a * 2 powi ?q) ^ 2 = a ^ 2 * (2 powi ?q) ^ 2" for a :: rat by (simp add: power_mult_distrib)
  have cmp: "c \<le> x \<longleftrightarrow> c / (2 powi ?q) ^ 2 \<le> ?y" for c by (simp add: divide_le_cancel)
  have sq: "(of_int ?k + 1) ^ 2 \<le> (of_int ?k + 1 + 1 / 2 :: rat) ^ 2" using b(1) by (intro power_mono) auto
  have "?r = 0 \<or> (of_int ?r - 1 / 2) ^ 2 \<le> ?y"
  proof (cases "(of_int ?k + 1 / 2) ^ 2 < ?y")
    case False
    have "(of_int ?k - 1 / 2) ^ 2 \<le> (of_int ?k :: rat) ^ 2" if "?k \<noteq> 0"
      using that b(1) by (intro power_mono) auto
    with False lo show ?thesis by force
  qed (simp add: add.commute)
  moreover have "?y \<le> (of_int ?r + 1 / 2) ^ 2" using hi sq by auto
  ultimately have "?r = 0 \<or> ((of_int ?r - 1 / 2) * 2 powi ?q) ^ 2 \<le> x" "x \<le> ((of_int ?r + 1 / 2) * 2 powi ?q) ^ 2"
    unfolding scale by (auto simp: pos_le_divide_eq pos_divide_le_eq)
  moreover have "sqrt_pos x = Fin (of_int ?r * 2 powi ?q)" "0 \<le> ?r"
    using b(1) by (simp_all add: sqrt_pos_def Let_def)
  ultimately show ?thesis using that by blast
qed


section \<open>What the routines return\<close>

definition dot_product :: "f32 list \<Rightarrow> f32 list \<Rightarrow> f32" where
  "dot_product a b = foldl f32_add (Fin 0) (map (\<lambda>(x, y). f32_mul x y) (zip a b))"

lemma cosine_loop_eq:
  "cosine_loop ps d na nb =
     (if list_ex (\<lambda>(x, y). not_finite x \<or> not_finite y) ps then None
      else Some (foldl f32_add d (map (\<lambda>(x, y). f32_mul x y) ps), foldl f32_add na (map (\<lambda>(x, y). f32_mul x x) ps),
        foldl f32_add nb (map (\<lambda>(x, y). f32_mul y y) ps)))"
  by (induction ps d na nb rule: cosine_loop.induct) auto

lemma zip_parts:
  assumes "length a = length b"
  shows "list_ex (\<lambda>(x, y). not_finite x \<or> not_finite y) (zip a b) \<longleftrightarrow> list_ex not_finite a \<or> list_ex not_finite b"
    "map (\<lambda>(x, y). f32_mul x x) (zip a b) = map (\<lambda>(x, y). f32_mul x y) (zip a a)"
    "map (\<lambda>(x, y). f32_mul y y) (zip a b) = map (\<lambda>(x, y). f32_mul x y) (zip b b)"
  using assms by (induction a b rule: list_induct2) auto

lemma cosine_by_loop_eq:
  assumes "length a = length b"
  shows "cosine_by_loop a b = (if list_ex not_finite a \<or> list_ex not_finite b then Fin 0
    else cosine_of (dot_product a b) (dot_product a a) (dot_product b b))"
  by (simp add: cosine_by_loop_def cosine_loop_eq dot_product_def zip_parts [OF assms])

lemma cosine_4d_eq:
  assumes "length a = 4" "length b = 4"
  shows "cosine_similarity_4d (a ! 0, a ! 1, a ! 2, a ! 3) (b ! 0, b ! 1, b ! 2, b ! 3) =
    (if list_ex not_finite a \<or> list_ex not_finite b then Fin 0
     else cosine_of (dot_product a b) (dot_product a a) (dot_product b b))"
proof -
  obtain a0 a1 a2 a3 b0 b1 b2 b3 where "a = [a0, a1, a2, a3]" "b = [b0, b1, b2, b3]"
    using assms by (auto simp: numeral_eq_Suc length_Suc_conv)
  then show ?thesis by (simp add: cosine_similarity_4d_def dot_product_def)
qed

lemma cosine_of_sym: "cosine_of d na nb = cosine_of d nb na"
  by (auto simp: cosine_of_def Let_def mul_commute [of "f32_sqrt na"])

lemma cosine_of_finite: "\<exists>r. cosine_of d na nb = Fin r \<and> f32_value r"
proof -
  have z: "f32_value 0" unfolding f32_value_def by (intro exI [of _ 0] conjI) auto
  have f: "\<exists>r. y = Fin r \<and> f32_value r" if "f32_ok y" "\<not> is_nan y" "\<not> is_infinite y" for y
    using that by (cases y) auto
  show ?thesis unfolding cosine_of_def Let_def using z by (auto intro: f)
qed

lemma dot_product_sym: "length a = length b \<Longrightarrow> dot_product a b = dot_product b a"
proof -
  assume "length a = length b"
  then have "map (\<lambda>(x, y). f32_mul x y) (zip a b) = map (\<lambda>(x, y). f32_mul x y) (zip b a)"
    by (induction a b rule: list_induct2) (auto simp: mul_commute)
  then show ?thesis by (simp add: dot_product_def)
qed

lemma cosine_similarity_eq:
  "cosine_similarity a b =
     (if length a \<noteq> length b \<or> a = [] \<or> list_ex not_finite a \<or> list_ex not_finite b then Fin 0
      else cosine_of (dot_product a b) (dot_product a a) (dot_product b b))"
proof (cases "length a = length b \<and> length a = 4")
  case True
  then have "length a = 4" "length b = 4" by auto
  from cosine_4d_eq [OF this] True show ?thesis by (auto simp: cosine_similarity_def)
next
  case False
  then show ?thesis by (auto simp: cosine_similarity_def cosine_by_loop_eq)
qed

text \<open>
  C40: The four-lane routine and the loop of the cosine similarity compute the same value, the quotient of the
  rounded sums from the left, or zero when the lengths differ, there is no entry or an entry is not finite. The
  result is always a finite 32-bit value, and exchanging the vectors does not change it.
\<close>

theorem cosine_similarity_meaning:
  "cosine_similarity a b = (if length a \<noteq> length b \<or> a = [] then Fin 0 else cosine_by_loop a b) \<and>
   cosine_similarity a b =
     (if length a \<noteq> length b \<or> a = [] \<or> list_ex not_finite a \<or> list_ex not_finite b then Fin 0
      else cosine_of (dot_product a b) (dot_product a a) (dot_product b b)) \<and>
   (\<exists>r. cosine_similarity a b = Fin r \<and> f32_value r) \<and>
   cosine_similarity b a = cosine_similarity a b"
proof (intro conjI)
  have z: "f32_value 0" unfolding f32_value_def by (intro exI [of _ 0] conjI) auto
  show "cosine_similarity a b = (if length a \<noteq> length b \<or> a = [] then Fin 0 else cosine_by_loop a b)"
    by (simp add: cosine_similarity_eq cosine_by_loop_eq)
  show "\<exists>r. cosine_similarity a b = Fin r \<and> f32_value r"
    using cosine_of_finite z by (simp add: cosine_similarity_eq)
  show "cosine_similarity b a = cosine_similarity a b"
    by (cases "length a = length b")
      (auto simp: cosine_similarity_eq dot_product_sym [of a b] cosine_of_sym [of _ "dot_product b b"])
qed (rule cosine_similarity_eq)

lemma cosine_similarity_parallel:
  "cosine_similarity [Fin 1, Fin 0, Fin 0, Fin 0] [Fin 2, Fin 0, Fin 0, Fin 0] = Fin 1"
  by code_simp

theorem cosine_similarity_meaning_witness:
  "cosine_by_loop [Fin 1, Fin 0, Fin 0, Fin 0] [Fin 2, Fin 0, Fin 0, Fin 0] = Fin 1 \<and>
   cosine_similarity [Fin 2, Fin 0, Fin 0, Fin 0] [Fin 1, Fin 0, Fin 0, Fin 0] = Fin 1"
  using cosine_similarity_meaning [of "[Fin 1, Fin 0, Fin 0, Fin 0]" "[Fin 2, Fin 0, Fin 0, Fin 0]"]
  by (simp add: cosine_similarity_parallel)

text \<open>The other two routines of the module's promise: zero on an input that is not finite, and temperature scaling
  never leaves the finite values.\<close>

lemma projection_zero_unless_finite:
  "list_ex not_finite (bias # lane_list tokens @ lane_list weights) \<Longrightarrow> token_projection tokens weights bias = Fin 0"
  by (auto simp: token_projection_def not_finite_def)

lemma temperature_scale_finite:
  "not_finite logit \<or> not_finite temperature \<Longrightarrow> temperature_scale logit temperature = Fin 0"
  "\<exists>r. temperature_scale logit temperature = Fin r"
proof -
  have f: "\<exists>r. y = Fin r" if "\<not> is_nan y" "\<not> is_infinite y" for y using that by (cases y) auto
  show "not_finite logit \<or> not_finite temperature \<Longrightarrow> temperature_scale logit temperature = Fin 0"
    "\<exists>r. temperature_scale logit temperature = Fin r"
    unfolding temperature_scale_def Let_def not_finite_def by (auto intro: f)
qed

text \<open>A finite vector whose squares exceed the range has similarity zero even with itself.\<close>

lemma cosine_overflow:
  "cosine_similarity [Fin (10 ^ 30), Fin 0, Fin 0, Fin 0] [Fin (10 ^ 30), Fin 0, Fin 0, Fin 0] = Fin 0"
  by code_simp

end
