(* ===== verification/Tables.thy ===== *)
theory Tables
  imports Domain "HOL-Library.Multiset"
begin

text \<open>
  \<open>src/persistence\<close>, common part: errors, the connection behind its lock, the tables of
  \<open>sqlite/schema.rs\<close> and the statements the stores use on them. A table is the list of its rows in
  insertion order; SQLite checks the primary key and, once the schema is initialized, the foreign
  keys. Texts of SQLite's errors and the serializations to JSON text are parameters.
\<close>

section \<open>Errors\<close>

datatype persistence_error =
    PeSqlite string
  | PeNotFound string
  | PeConcurrencyConflict string u64
  | PeActiveRunConflict string string
  | PeSerialization string
  | PeLockPoisoned
  | PeTaskJoin string
  | PeOther string

definition show_persistence_error :: "(u64 \<Rightarrow> string) \<Rightarrow> persistence_error \<Rightarrow> string" where
  "show_persistence_error show_u64 e = (case e of
       PeSqlite m \<Rightarrow> ''SQLite error: '' @ m
     | PeNotFound m \<Rightarrow> ''Record not found: '' @ m
     | PeConcurrencyConflict i v \<Rightarrow> ''Concurrency conflict on '' @ i @ '': expected version '' @ show_u64 v
     | PeActiveRunConflict s r \<Rightarrow> ''Session '' @ s @ '' already has active run: '' @ r
     | PeSerialization m \<Rightarrow> ''Serialization error: '' @ m
     | PeLockPoisoned \<Rightarrow> ''Database lock poisoned''
     | PeTaskJoin m \<Rightarrow> ''Task join error: '' @ m
     | PeOther m \<Rightarrow> ''Persistence error: '' @ m)"

section \<open>The tables\<close>

text \<open>
  An \<open>INTEGER\<close> cell that the database itself increments: past the largest 64-bit integer SQLite goes
  over to the floating-point number \<open>2 ^ 63\<close>, where adding one changes nothing.
\<close>

datatype sql_int = SqlInt i64 | SqlReal63

fun sql_succ :: "sql_int \<Rightarrow> sql_int" where
  "sql_succ (SqlInt v) = (if v = 2 ^ 63 - 1 then SqlReal63 else SqlInt (v + 1))"
| "sql_succ SqlReal63 = SqlReal63"

record session_row =
  sr_id :: string
  sr_parent :: "string option"
  sr_status :: string
  sr_objective :: "string option"
  sr_agent_profile :: string
  sr_model_profile :: string
  sr_policy_profile :: string
  sr_budget_json :: string
  sr_created_at :: i64
  sr_updated_at :: i64
  sr_version :: sql_int

record message_row =
  mr_id :: string
  mr_session :: string
  mr_role :: string
  mr_data :: string
  mr_created_at :: i64

record run_row =
  rr_id :: string
  rr_session :: string
  rr_state :: string
  rr_trigger_json :: string
  rr_steps_used :: i64
  rr_inference_calls_used :: i64
  rr_actions_used :: i64
  rr_budget_json :: string
  rr_started_at :: i64
  rr_completed_at :: "i64 option"
  rr_termination_json :: "string option"

record action_row =
  ar_id :: string
  ar_run :: string
  ar_session :: string
  ar_capability :: string
  ar_intent :: string
  ar_params_json :: string
  ar_status :: string
  ar_receipt_json :: "string option"
  ar_created_at :: i64
  ar_completed_at :: "i64 option"

record approval_row =
  pr_id :: string
  pr_action :: string
  pr_run :: string
  pr_session :: string
  pr_prompt :: string
  pr_status :: string
  pr_requested_at :: i64
  pr_decided_at :: "i64 option"
  pr_decided_by :: "string option"

record db =
  db_foreign_keys :: bool
  db_sessions :: "session_row list"
  db_messages :: "message_row list"
  db_runs :: "run_row list"
  db_actions :: "action_row list"
  db_approvals :: "approval_row list"

text \<open>A fresh database with the schema: no rows, foreign keys enforced.\<close>

definition initialize_schema :: db where
  "initialize_schema = \<lparr>db_foreign_keys = True, db_sessions = [], db_messages = [], db_runs = [],
     db_actions = [], db_approvals = []\<rparr>"

section \<open>Serialization\<close>

record 'a codec =
  to_text :: "'a \<Rightarrow> string + string"
  of_text :: "string \<Rightarrow> string + 'a"

text \<open>
  What the source relies on: what was written reads back. Of \<open>serde_json\<close>, as \<open>Cargo.toml\<close> configures it, this holds for values nested
  less deeply than its parser's recursion limit of 128, whose floating-point numbers read back; a codec
  with \<open>codec_ok\<close> stands for it on these values and refuses the rest. \<open>StoreRefine.unreadable_params\<close> shows what happens to
  parameters outside of it.
\<close>

definition codec_ok :: "'a codec \<Rightarrow> bool" where
  "codec_ok c \<longleftrightarrow> (\<forall>x t. to_text c x = Inr t \<longrightarrow> of_text c t = Inr x)"

datatype run_query = QActiveId | QActive | QBySession

text \<open>
  The scans give the order in which SQLite visits the rows a query selects, where the query leaves it open:
  before a stable sort by the query's key.
\<close>

record store_libs =
  sl_session_budget :: "session_budget codec"
  sl_message :: "message codec"
  sl_trigger :: "trigger codec"
  sl_run_budget :: "run_budget codec"
  sl_termination :: "termination_reason codec"
  sl_json :: "json codec"
  sl_receipt :: "action_receipt codec"
  sl_unique_failed :: string
  sl_foreign_key_failed :: string
  sl_bad_column_type :: string
  sl_no_rows :: string
  sl_scan_sessions :: "session_row list \<Rightarrow> session_row list"
  sl_scan_runs :: "run_query \<Rightarrow> run_row list \<Rightarrow> run_row list"
  sl_scan_actions :: "action_row list \<Rightarrow> action_row list"
  sl_scan_approvals :: "approval_row list \<Rightarrow> approval_row list"

definition codecs_ok :: "store_libs \<Rightarrow> bool" where
  "codecs_ok L \<longleftrightarrow> codec_ok (sl_session_budget L) \<and> codec_ok (sl_message L) \<and> codec_ok (sl_trigger L) \<and>
     codec_ok (sl_run_budget L) \<and> codec_ok (sl_termination L) \<and> codec_ok (sl_json L) \<and> codec_ok (sl_receipt L)"

text \<open>Visiting the selected rows in some order visits each of them once.\<close>

definition scans_ok :: "store_libs \<Rightarrow> bool" where
  "scans_ok L \<longleftrightarrow> (\<forall>rs. mset (sl_scan_sessions L rs) = mset rs) \<and> (\<forall>q rs. mset (sl_scan_runs L q rs) = mset rs) \<and>
     (\<forall>rs. mset (sl_scan_actions L rs) = mset rs) \<and> (\<forall>rs. mset (sl_scan_approvals L rs) = mset rs)"

definition write_json :: "'a codec \<Rightarrow> 'a \<Rightarrow> persistence_error + string" where
  "write_json c x = map_err PeSerialization (to_text c x)"

definition read_json :: "'a codec \<Rightarrow> string \<Rightarrow> persistence_error + 'a" where
  "read_json c t = map_err PeSerialization (of_text c t)"

text \<open>\<open>.map(..).transpose()\<close>\<close>

fun transpose_opt :: "('a \<Rightarrow> 'e + 'b) \<Rightarrow> 'a option \<Rightarrow> 'e + 'b option" where
  "transpose_opt f None = Inr None"
| "transpose_opt f (Some x) = try_bind (f x) (\<lambda>y. Inr (Some y))"

definition read_status :: "(string \<Rightarrow> 'a option) \<Rightarrow> string \<Rightarrow> string \<Rightarrow> persistence_error + 'a" where
  "read_status from_str what s =
     (case from_str s of Some x \<Rightarrow> Inr x
      | None \<Rightarrow> Inl (PeSerialization (''Invalid '' @ what @ '': '' @ s)))"

text \<open>The loop that decodes rows one by one and stops at the first error.\<close>

fun decode_all :: "('r \<Rightarrow> 'e + 'a) \<Rightarrow> 'r list \<Rightarrow> 'e + 'a list" where
  "decode_all f [] = Inr []"
| "decode_all f (r # rs) = try_bind (f r) (\<lambda>x. try_bind (decode_all f rs) (\<lambda>xs. Inr (x # xs)))"

section \<open>Statements\<close>

text \<open>
  \<open>INSERT\<close>: the key must be new; \<open>refs\<close> says that the referenced rows exist. \<open>UPDATE .. WHERE\<close>: the
  new table and the number of rows changed.
\<close>

definition sql_insert ::
  "store_libs \<Rightarrow> bool \<Rightarrow> ('r \<Rightarrow> string) \<Rightarrow> bool \<Rightarrow> 'r \<Rightarrow> 'r list \<Rightarrow> persistence_error + 'r list" where
  "sql_insert L fk key refs row rows =
     (if key row \<in> key ` set rows then Inl (PeSqlite (sl_unique_failed L))
      else if fk \<and> \<not> refs then Inl (PeSqlite (sl_foreign_key_failed L))
      else Inr (rows @ [row]))"

definition sql_update :: "('r \<Rightarrow> bool) \<Rightarrow> ('r \<Rightarrow> 'r) \<Rightarrow> 'r list \<Rightarrow> 'r list \<times> nat" where
  "sql_update cond change rows =
     (map (\<lambda>r. if cond r then change r else r) rows, length (filter cond rows))"

text \<open>\<open>LIMIT ?1 OFFSET ?2\<close> with \<open>usize as i64\<close>: a negative limit is no limit, a negative offset is none.\<close>

definition sql_page :: "u64 \<Rightarrow> u64 \<Rightarrow> 'r list \<Rightarrow> 'r list" where
  "sql_page limit offset rows =
     (let rest = drop (nat (sint offset)) rows in if sint limit < 0 then rest else take (nat (sint limit)) rest)"

section \<open>The connection\<close>

text \<open>
  \<open>AsyncDatabase::interact\<close>: the closure runs on the connection under its lock unless the lock is
  poisoned or the blocking task fails; those two leave the database as it is. In \<open>ConnSqlFails n e\<close> the closure runs,
  but its \<open>n\<close>-th use of the connection fails with the text \<open>e\<close>, for whatever reason SQLite has other than a constraint
  (busy, locked, full, an I/O error, a damaged file): executing a statement, or taking the next row of a query.
\<close>

datatype conn_state = ConnOk | ConnPoisoned | ConnJoinFails string | ConnSqlFails nat string

definition interact ::
  "conn_state \<Rightarrow> (db \<Rightarrow> (persistence_error + 'a) \<times> db) \<Rightarrow> db \<Rightarrow> (persistence_error + 'a) \<times> db" where
  "interact c f d = (case c of
       ConnPoisoned \<Rightarrow> (Inl PeLockPoisoned, d)
     | ConnJoinFails e \<Rightarrow> (Inl (PeTaskJoin e), d)
     | _ \<Rightarrow> f d)"

text \<open>The \<open>n\<close>-th use of the connection, which gives \<open>r\<close> unless it fails: \<open>conn.execute(..)?\<close>, \<open>rows.next()?\<close>\<close>

definition statement :: "conn_state \<Rightarrow> nat \<Rightarrow> persistence_error + 'a \<Rightarrow> persistence_error + 'a" where
  "statement c n r = (case c of ConnSqlFails k e \<Rightarrow> if k = n then Inl (PeSqlite e) else r | _ \<Rightarrow> r)"

text \<open>The loop over a query's rows, whose first use of the connection is the \<open>n\<close>-th; each row is decoded as it comes.\<close>

fun decode_rows :: "conn_state \<Rightarrow> nat \<Rightarrow> ('r \<Rightarrow> persistence_error + 'a) \<Rightarrow> 'r list \<Rightarrow> persistence_error + 'a list" where
  "decode_rows c n f [] = statement c n (Inr [])"
| "decode_rows c n f (r # rs) =
     statement c n (try_bind (f r) (\<lambda>x. try_bind (decode_rows c (Suc n) f rs) (\<lambda>xs. Inr (x # xs))))"

text \<open>The error of a connection that does not carry out \<open>n\<close> uses.\<close>

fun conn_error :: "conn_state \<Rightarrow> nat \<Rightarrow> persistence_error option" where
  "conn_error ConnOk n = None"
| "conn_error ConnPoisoned n = Some PeLockPoisoned"
| "conn_error (ConnJoinFails e) n = Some (PeTaskJoin e)"
| "conn_error (ConnSqlFails k e) n = (if k < n then Some (PeSqlite e) else None)"

lemma statement_Ok [simp]: "statement ConnOk n r = r"
  by (simp add: statement_def)

lemma statement_Inr: "statement c n r = Inr x \<longleftrightarrow> r = Inr x \<and> (\<forall>e. c \<noteq> ConnSqlFails n e)"
  by (cases c) (auto simp: statement_def)

lemma decode_rows_Ok [simp]: "decode_rows ConnOk n f rs = decode_all f rs"
  by (induction rs arbitrary: n) simp_all

text \<open>A row that the connection does not give ends the loop with its error, unless a row before it does not decode.\<close>

lemma decode_rows_fails:
  assumes "k \<le> length rs" "\<forall>r\<in>set (take k rs). is_ok (f r)"
  shows "decode_rows (ConnSqlFails (n + k) e) n f rs = Inl (PeSqlite e)"
  using assms
proof (induction rs arbitrary: n k)
  case (Cons r rs)
  show ?case
  proof (cases k)
    case (Suc m)
    with Cons.prems have "decode_rows (ConnSqlFails (Suc n + m) e) (Suc n) f rs = Inl (PeSqlite e)" "is_ok (f r)"
      using Cons.IH [of m "Suc n"] by simp_all
    with Suc show ?thesis by (auto simp: statement_def is_ok_iff)
  qed (simp add: statement_def)
qed (simp add: statement_def)

section \<open>Facts about statements\<close>

lemma write_read:
  "codec_ok c \<Longrightarrow> write_json c x = Inr t \<Longrightarrow> read_json c t = Inr x"
  by (simp add: codec_ok_def write_json_def read_json_def)

lemma write_read_opt:
  "codec_ok c \<Longrightarrow> transpose_opt (write_json c) x = Inr t \<Longrightarrow> transpose_opt (read_json c) t = Inr x"
  by (cases x) (auto simp: try_bind_Inr_iff write_read)

lemma sql_insert_Inr:
  "sql_insert L fk key refs row rows = Inr rows' \<longleftrightarrow>
   rows' = rows @ [row] \<and> key row \<notin> key ` set rows \<and> (fk \<longrightarrow> refs)"
  by (auto simp: sql_insert_def)

lemma find_key_snoc:
  "key row \<notin> key ` set rows \<Longrightarrow>
   find (\<lambda>r. key r = k) (rows @ [row]) = (if key row = k then Some row else find (\<lambda>r. key r = k) rows)"
  by (induction rows) auto

lemma find_key_None: "k \<notin> key ` set rows \<longleftrightarrow> find (\<lambda>r. key r = k) rows = None"
  by (auto simp: find_None_iff)

lemma find_map_key:
  "(\<And>r. key (g r) = key r) \<Longrightarrow> find (\<lambda>r. key r = k) (map g rows) = map_option g (find (\<lambda>r. key r = k) rows)"
  by (induction rows) auto

section \<open>Keyed stores\<close>

text \<open>Creations one after the other, stopping at the first error.\<close>

fun create_each :: "('r \<Rightarrow> 'd \<Rightarrow> ('e + unit) \<times> 'd) \<Rightarrow> 'r list \<Rightarrow> 'd \<Rightarrow> ('e + unit) \<times> 'd" where
  "create_each create [] d = (Inr (), d)"
| "create_each create (r # rs) d =
     (case create r d of (Inr _, d') \<Rightarrow> create_each create rs d' | (Inl e, d') \<Rightarrow> (Inl e, d'))"

lemma create_each_ConsE:
  assumes "create_each create (r # rs) d = (Inr (), d')"
  obtains d1 where "create r d = (Inr (), d1)" "create_each create rs d1 = (Inr (), d')"
  using assms by (auto split: prod.splits sum.splits)

text \<open>
  What the client of a store relies on: a record that was created is fetched as the store keeps it
  (\<open>view\<close>), creating it changes no other record and needs its key to be new, and a failed creation changes
  nothing. \<open>good\<close> is the invariant of the database.
\<close>

locale keyed_store =
  fixes create :: "'r \<Rightarrow> 'd \<Rightarrow> ('e + unit) \<times> 'd"
    and fetch :: "'k \<Rightarrow> 'd \<Rightarrow> 'e + 'v option"
    and key :: "'r \<Rightarrow> 'k"
    and view :: "'r \<Rightarrow> 'v"
    and good :: "'d \<Rightarrow> bool"
  assumes create_good: "good d \<Longrightarrow> create r d = (res, d') \<Longrightarrow> good d'"
    and create_fetch: "good d \<Longrightarrow> create r d = (Inr (), d') \<Longrightarrow> fetch (key r) d' = Inr (Some (view r))"
    and create_frame: "good d \<Longrightarrow> create r d = (Inr (), d') \<Longrightarrow> k \<noteq> key r \<Longrightarrow> fetch k d' = fetch k d"
    and create_fresh: "good d \<Longrightarrow> create r d = (Inr (), d') \<Longrightarrow> fetch (key r) d = Inr None"
    and create_failed: "create r d = (Inl e, d') \<Longrightarrow> d' = d"
begin

lemma fetched_stays:
  "good d \<Longrightarrow> fetch k d = Inr (Some v) \<Longrightarrow> create_each create rs d = (Inr (), d') \<Longrightarrow> fetch k d' = Inr (Some v)"
proof (induction rs arbitrary: d)
  case (Cons s rs)
  from Cons.prems(3) obtain d1 where c: "create s d = (Inr (), d1)" "create_each create rs d1 = (Inr (), d')"
    by (rule create_each_ConsE)
  have "k \<noteq> key s" using create_fresh [OF Cons.prems(1) c(1)] Cons.prems(2) by auto
  then have "fetch k d1 = Inr (Some v)"
    using create_frame [OF Cons.prems(1) c(1)] Cons.prems(2) by simp
  with Cons.IH [OF create_good [OF Cons.prems(1) c(1)] _ c(2)] show ?case by simp
qed simp

lemma all_fetched:
  "good d \<Longrightarrow> create_each create rs d = (Inr (), d') \<Longrightarrow> r \<in> set rs \<Longrightarrow> fetch (key r) d' = Inr (Some (view r))"
proof (induction rs arbitrary: d)
  case (Cons s rs)
  from Cons.prems(2) obtain d1 where c: "create s d = (Inr (), d1)" "create_each create rs d1 = (Inr (), d')"
    by (rule create_each_ConsE)
  note g = create_good [OF Cons.prems(1) c(1)]
  show ?case
  proof (cases "r = s")
    case True
    with fetched_stays [OF g create_fetch [OF Cons.prems(1) c(1)] c(2)] show ?thesis by simp
  next
    case False
    with Cons.IH [OF g c(2)] Cons.prems(3) show ?thesis by simp
  qed
qed simp

lemma all_good: "good d \<Longrightarrow> create_each create rs d = (Inr (), d') \<Longrightarrow> good d'"
proof (induction rs arbitrary: d)
  case (Cons s rs)
  from Cons.prems(2) obtain d1 where c: "create s d = (Inr (), d1)" "create_each create rs d1 = (Inr (), d')"
    by (rule create_each_ConsE)
  with Cons show ?case by (blast intro: create_good)
qed simp

text \<open>A key that is taken is refused, and nothing changes.\<close>

lemma taken_refused:
  assumes "good d" "fetch (key s) d = Inr (Some v)"
  shows "\<exists>e. create s d = (Inl e, d)"
proof -
  obtain res d2 where c: "create s d = (res, d2)" by force
  then have "res \<noteq> Inr ()" using create_fresh [OF assms(1), of s d2] assms(2) by auto
  then obtain e where "res = Inl e" by (cases res) auto
  with c create_failed show ?thesis by auto
qed

lemma never_twice:
  assumes "good d" "create_each create rs d = (Inr (), d')" "r \<in> set rs" "key s = key r"
  shows "\<exists>e. create s d' = (Inl e, d')"
  using taken_refused [OF all_good [OF assms(1,2)], of s "view r"] all_fetched [OF assms(1-3)] assms(4) by simp

end

end
