(* ===== verification/Legacy.thy ===== *)
theory Legacy
  imports Tables
begin

text \<open>
  \<open>src/persistence/legacy.rs\<close>: the synchronous \<open>Database\<close> with the tables of turns, heartbeats, tasks and memory
  crumbs, and the transcript file beside it. Every method takes the connection's lock with \<open>lock().unwrap()\<close>,
  so a poisoned lock is a panic. Time stamps are texts given by the caller's environment.
\<close>

section \<open>Data\<close>

record task_record =
  tk_id :: string
  tk_type :: string
  tk_payload :: string
  tk_status :: string
  tk_result :: "string option"
  tk_created_at :: string
  tk_completed_at :: "string option"

record crumb_record =
  cr_key :: string
  cr_value :: string
  cr_namespace :: string
  cr_created_at :: string

text \<open>A row of \<open>turns\<close>; the record the caller gets has the duration as \<open>u64\<close>.\<close>

record 'd turn_record =
  tn_id :: i64
  tn_session :: string
  tn_role :: string
  tn_prompt :: string
  tn_response :: string
  tn_duration_ms :: 'd
  tn_created_at :: string

record pulse_receipt =
  pc_tick :: u64
  pc_timestamp :: string
  pc_status :: string
  pc_tasks_scanned :: u64
  pc_actions_dispatched :: u64
  pc_notes :: string

record heartbeat_row =
  hr_tick :: i64
  hr_timestamp :: string
  hr_status :: string
  hr_tasks_scanned :: i64
  hr_actions_dispatched :: i64
  hr_notes :: string

text \<open>The tables, the last identifier \<open>AUTOINCREMENT\<close> gave out, and the transcript (none in memory).\<close>

record legacy_db =
  lg_turns :: "i64 turn_record list"
  lg_turn_seq :: i64
  lg_heartbeats :: "heartbeat_row list"
  lg_tasks :: "task_record list"
  lg_crumbs :: "crumb_record list"
  lg_transcript :: "(string \<times> string \<times> json) list option"

definition open_legacy :: "bool \<Rightarrow> legacy_db" where
  "open_legacy in_memory = \<lparr>lg_turns = [], lg_turn_seq = 0, lg_heartbeats = [], lg_tasks = [], lg_crumbs = [],
     lg_transcript = (if in_memory then None else Some [])\<rparr>"

section \<open>Calls\<close>

text \<open>The state of the lock and of SQLite during one call, the clock, and whether the transcript can be written.\<close>

datatype legacy_conn = LcOk | LcPoisoned | LcFails string

record call_env =
  ce_conn :: legacy_conn
  ce_now :: string
  ce_transcript_now :: string
  ce_file_ok :: bool

record legacy_libs =
  ll_unique_failed :: string
  ll_full :: string
  ll_scan_tasks :: "task_record list \<Rightarrow> task_record list"
  ll_scan_crumbs :: "crumb_record list \<Rightarrow> crumb_record list"

datatype 'a called = Returned "string + 'a" | LockPanic

definition locked :: "call_env \<Rightarrow> (legacy_db \<Rightarrow> (string + 'a) \<times> legacy_db) \<Rightarrow> legacy_db \<Rightarrow> 'a called \<times> legacy_db" where
  "locked E f d = (case ce_conn E of
       LcPoisoned \<Rightarrow> (LockPanic, d)
     | LcFails e \<Rightarrow> (Returned (Inl e), d)
     | LcOk \<Rightarrow> (let (r, d') = f d in (Returned r, d')))"

definition record_transcript :: "call_env \<Rightarrow> string \<Rightarrow> json \<Rightarrow> legacy_db \<Rightarrow> legacy_db" where
  "record_transcript E event data d =
     d\<lparr>lg_transcript := map_option
        (\<lambda>ls. if ce_file_ok E then ls @ [(ce_transcript_now E, event, data)] else ls) (lg_transcript d)\<rparr>"

definition json_u64 :: "u64 \<Rightarrow> json" where
  "json_u64 n = JNumber (PosInt n)"

section \<open>Turns\<close>

definition record_turn ::
  "legacy_libs \<Rightarrow> call_env \<Rightarrow> string \<Rightarrow> string \<Rightarrow> string \<Rightarrow> u64 \<Rightarrow> legacy_db \<Rightarrow> unit called \<times> legacy_db" where
  "record_turn L E role prompt response ms = locked E (\<lambda>d.
     if lg_turn_seq d = 2 ^ 63 - 1 then (Inl (ll_full L), d)
     else
       (Inr (), record_transcript E ''chat_turn''
          (json_object [(''role'', JString role), (''prompt'', JString prompt), (''response'', JString response),
             (''duration_ms'', json_u64 ms)])
          (d\<lparr>lg_turn_seq := lg_turn_seq d + 1,
             lg_turns := lg_turns d @ [\<lparr>tn_id = lg_turn_seq d + 1, tn_session = ''default'', tn_role = role,
               tn_prompt = prompt, tn_response = response, tn_duration_ms = sint ms, tn_created_at = ce_now E\<rparr>]\<rparr>)))"

definition turn_of_row :: "i64 turn_record \<Rightarrow> u64 turn_record" where
  "turn_of_row r = \<lparr>tn_id = tn_id r, tn_session = tn_session r, tn_role = tn_role r, tn_prompt = tn_prompt r,
     tn_response = tn_response r, tn_duration_ms = word_of_int (tn_duration_ms r), tn_created_at = tn_created_at r\<rparr>"

definition list_recent_turns ::
  "call_env \<Rightarrow> u64 \<Rightarrow> legacy_db \<Rightarrow> u64 turn_record list called \<times> legacy_db" where
  "list_recent_turns E limit = locked E (\<lambda>d.
     (Inr (map turn_of_row (sql_page limit 0 (sort_key (\<lambda>r. - tn_id r) (lg_turns d)))), d))"

section \<open>Heartbeats\<close>

definition receipt_json :: "pulse_receipt \<Rightarrow> json" where
  "receipt_json r = json_object [(''tick_id'', json_u64 (pc_tick r)), (''timestamp'', JString (pc_timestamp r)),
     (''status'', JString (pc_status r)), (''tasks_scanned'', json_u64 (pc_tasks_scanned r)),
     (''actions_dispatched'', json_u64 (pc_actions_dispatched r)), (''notes'', JString (pc_notes r))]"

text \<open>\<open>INSERT OR REPLACE\<close>\<close>

definition replace_row :: "('r \<Rightarrow> 'k) \<Rightarrow> 'r \<Rightarrow> 'r list \<Rightarrow> 'r list" where
  "replace_row key row rows = filter (\<lambda>r. key r \<noteq> key row) rows @ [row]"

definition record_heartbeat_tick ::
  "call_env \<Rightarrow> pulse_receipt \<Rightarrow> legacy_db \<Rightarrow> unit called \<times> legacy_db" where
  "record_heartbeat_tick E r = locked E (\<lambda>d.
     (Inr (), record_transcript E ''heartbeat_tick'' (receipt_json r)
        (d\<lparr>lg_heartbeats := replace_row hr_tick
           \<lparr>hr_tick = sint (pc_tick r), hr_timestamp = pc_timestamp r, hr_status = pc_status r,
            hr_tasks_scanned = sint (pc_tasks_scanned r), hr_actions_dispatched = sint (pc_actions_dispatched r),
            hr_notes = pc_notes r\<rparr>
           (lg_heartbeats d)\<rparr>)))"

section \<open>Tasks\<close>

definition create_task ::
  "legacy_libs \<Rightarrow> call_env \<Rightarrow> string \<Rightarrow> string \<Rightarrow> string \<Rightarrow> legacy_db \<Rightarrow> unit called \<times> legacy_db" where
  "create_task L E i ty payload = locked E (\<lambda>d.
     if i \<in> tk_id ` set (lg_tasks d) then (Inl (ll_unique_failed L), d)
     else
       (Inr (), record_transcript E ''task_created''
          (json_object [(''id'', JString i), (''task_type'', JString ty), (''payload'', JString payload)])
          (d\<lparr>lg_tasks := lg_tasks d @ [\<lparr>tk_id = i, tk_type = ty, tk_payload = payload, tk_status = ''pending'',
             tk_result = None, tk_created_at = ce_now E, tk_completed_at = None\<rparr>]\<rparr>)))"

definition list_pending_tasks ::
  "legacy_libs \<Rightarrow> call_env \<Rightarrow> legacy_db \<Rightarrow> task_record list called \<times> legacy_db" where
  "list_pending_tasks L E = locked E (\<lambda>d.
     (Inr (sort_key tk_created_at (ll_scan_tasks L (filter (\<lambda>t. tk_status t = ''pending'') (lg_tasks d)))), d))"

definition claim_task :: "call_env \<Rightarrow> string \<Rightarrow> legacy_db \<Rightarrow> bool called \<times> legacy_db" where
  "claim_task E i = locked E (\<lambda>d.
     (let (rows, changed) = sql_update (\<lambda>t. tk_id t = i \<and> tk_status t = ''pending'')
                              (\<lambda>t. t\<lparr>tk_status := ''running''\<rparr>) (lg_tasks d)
      in (Inr (changed = 1), d\<lparr>lg_tasks := rows\<rparr>)))"

definition complete_task :: "call_env \<Rightarrow> string \<Rightarrow> string \<Rightarrow> legacy_db \<Rightarrow> unit called \<times> legacy_db" where
  "complete_task E i result = locked E (\<lambda>d.
     (Inr (), record_transcript E ''task_completed''
        (json_object [(''id'', JString i), (''result'', JString result), (''completed_at'', JString (ce_now E))])
        (d\<lparr>lg_tasks := fst (sql_update (\<lambda>t. tk_id t = i)
             (\<lambda>t. t\<lparr>tk_status := ''completed'', tk_result := Some result, tk_completed_at := Some (ce_now E)\<rparr>)
             (lg_tasks d))\<rparr>)))"

section \<open>Memory crumbs\<close>

definition store_crumb ::
  "call_env \<Rightarrow> string \<Rightarrow> string \<Rightarrow> string \<Rightarrow> legacy_db \<Rightarrow> unit called \<times> legacy_db" where
  "store_crumb E k v ns = locked E (\<lambda>d.
     (Inr (), record_transcript E ''memory_crumb''
        (json_object [(''key'', JString k), (''value'', JString v), (''namespace'', JString ns)])
        (d\<lparr>lg_crumbs := replace_row cr_key
             \<lparr>cr_key = k, cr_value = v, cr_namespace = ns, cr_created_at = ce_now E\<rparr> (lg_crumbs d)\<rparr>)))"

definition get_recent_crumbs ::
  "legacy_libs \<Rightarrow> call_env \<Rightarrow> string \<Rightarrow> u64 \<Rightarrow> legacy_db \<Rightarrow> crumb_record list called \<times> legacy_db" where
  "get_recent_crumbs L E ns limit = locked E (\<lambda>d.
     (Inr (sql_page limit 0 (rev (sort_key cr_created_at
        (rev (ll_scan_crumbs L (filter (\<lambda>c. cr_namespace c = ns) (lg_crumbs d))))))), d))"

section \<open>Facts about calls\<close>

lemma locked_cases:
  assumes "locked E f d = (r, d')"
  obtains "r = LockPanic" "d' = d" | e where "r = Returned (Inl e)" "d' = d" "ce_conn E \<noteq> LcOk"
    | x where "f d = (x, d')" "r = Returned x" "ce_conn E = LcOk"
  using assms by (auto simp: locked_def split: legacy_conn.splits prod.splits)

lemma locked_ok [simp]: "ce_conn E = LcOk \<Longrightarrow> locked E f d = (Returned (fst (f d)), snd (f d))"
  by (simp add: locked_def split: prod.splits)

lemma transcript_frame [simp]:
  "lg_tasks (record_transcript E ev j d) = lg_tasks d" "lg_turns (record_transcript E ev j d) = lg_turns d"
  "lg_turn_seq (record_transcript E ev j d) = lg_turn_seq d" "lg_crumbs (record_transcript E ev j d) = lg_crumbs d"
  "lg_heartbeats (record_transcript E ev j d) = lg_heartbeats d"
  by (simp_all add: record_transcript_def)

end
