(* ===== verification/Heartbeat.thy ===== *)
theory Heartbeat
  imports Legacy Enforcement
begin

text \<open>
  \<open>src/heartbeat.rs\<close>: the heartbeat engine. A pulse lists the pending tasks, claims each, runs it, completes
  it, and records a receipt. Pulses overlap (the loop, the HTTP handlers and the socket all start them), so a
  pulse is a state machine whose steps are the calls that take the database lock, and the engine is the
  interleaving of any number of pulses with the other writers of the database. Waiting on the model's health
  and on the shell happens within the \<open>Working\<close> step; it changes no table. A pulse need not get on: it is dropped with
  the request it belongs to, and the health probe has no timeout where no inference backend is configured. Such a
  pulse takes no more steps, which the relations below leave open at every point.
\<close>

section \<open>The engine's surroundings\<close>

record 'w host =
  ho_guard :: guard_libs
  ho_threshold_env :: "string option"
  ho_fs :: "'w fs"
  ho_world :: 'w
  ho_base :: string
  ho_shell :: "launch \<Rightarrow> string + shell_output"
  ho_show_int :: "int \<Rightarrow> string"
  ho_healthy :: bool

section \<open>Running a task\<close>

definition health_text :: "bool \<Rightarrow> string" where
  "health_text ok = (if ok then ''Local model seat verified ACTIVE on port 18006''
     else ''Local model seat unreachable or offline on port 18006'')"

text \<open>An empty build task stands for a command of its own.\<close>

definition task_command :: "task_record \<Rightarrow> string" where
  "task_command t = (if tk_payload t = [] then ''echo '' @ quoted ''empty build task'' else tk_payload t)"

definition shell_text :: "security_error + string \<Rightarrow> string" where
  "shell_text r = (case r of
       Inr out \<Rightarrow> ''Exit code 0: '' @ trim out
     | Inl e \<Rightarrow> ''Execution failure: '' @ show_security_error e)"

text \<open>
  The \<open>match task.task_type\<close>: the result text, the commands started, and the database after it. \<open>None\<close> is a
  panic (the lock was poisoned when a crumb was stored).
\<close>

definition run_task ::
  "'w host \<Rightarrow> call_env \<Rightarrow> u64 \<Rightarrow> task_record \<Rightarrow> legacy_db \<Rightarrow> (string option \<times> launch list) \<times> legacy_db" where
  "run_task H E tick t d =
     (if tk_type t \<in> {''model_health'', ''max_health''} then ((Some (health_text (ho_healthy H)), []), d)
      else if tk_type t \<in> {''build_monitor'', ''shell_exec''} then
        (let (r, launched) = dispatch_shell_gated (ho_guard H) (ho_threshold_env H) (ho_fs H) (ho_shell H)
               (ho_show_int H) (ho_world H) (ho_base H) (task_command t) None ''15''
         in ((Some (shell_text r), launched), d))
      else if tk_type t = ''consolidate_memory'' then
        (case store_crumb E (''consolidation_tick_'' @ ho_show_int H (uint tick)) ''Episodic memory consolidated into WAL''
                ''heartbeat'' d of
           (LockPanic, d') \<Rightarrow> ((None, []), d')
         | (Returned _, d') \<Rightarrow> ((Some ''Memory crumbs recorded'', []), d'))
      else if tk_type t = ''system_telemetry'' then ((Some ''System telemetry nominal: GB10 aarch64'', []), d)
      else ((Some ''Autonomous task processed by heartbeat loop'', []), d))"

section \<open>One pulse\<close>

datatype pulse_phase =
    Listing
  | Claiming "task_record list"
  | Working task_record "task_record list"
  | Completing task_record string "task_record list"
  | Finished pulse_receipt
  | Crashed

record pulse =
  pu_tick :: u64
  pu_now :: string
  pu_scanned :: nat
  pu_actions :: nat
  pu_phase :: pulse_phase

definition pulse_start :: "u64 \<Rightarrow> string \<Rightarrow> pulse" where
  "pulse_start tick now = \<lparr>pu_tick = tick, pu_now = now, pu_scanned = 0, pu_actions = 0, pu_phase = Listing\<rparr>"

definition pulse_receipt_of :: "(int \<Rightarrow> string) \<Rightarrow> pulse \<Rightarrow> pulse_receipt" where
  "pulse_receipt_of show_int p =
     \<lparr>pc_tick = pu_tick p, pc_timestamp = pu_now p, pc_status = ''nominal'',
      pc_tasks_scanned = of_nat (pu_scanned p), pc_actions_dispatched = of_nat (pu_actions p),
      pc_notes = ''Autonomous tick #'' @ show_int (uint (pu_tick p)) @ '' processed '' @
        show_int (int (pu_scanned p)) @ '' pending tasks''\<rparr>"

definition pulse_step ::
  "'w host \<Rightarrow> legacy_libs \<Rightarrow> call_env \<Rightarrow> pulse \<Rightarrow> legacy_db \<Rightarrow> (pulse \<times> launch list) \<times> legacy_db" where
  "pulse_step H L E p d = (case pu_phase p of
       Listing \<Rightarrow>
         (case list_pending_tasks L E d of
            (LockPanic, d') \<Rightarrow> ((p\<lparr>pu_phase := Crashed\<rparr>, []), d')
          | (Returned (Inl _), d') \<Rightarrow> ((p\<lparr>pu_phase := Claiming []\<rparr>, []), d')
          | (Returned (Inr ts), d') \<Rightarrow> ((p\<lparr>pu_scanned := length ts, pu_phase := Claiming ts\<rparr>, []), d'))
     | Claiming [] \<Rightarrow>
         (case record_heartbeat_tick E (pulse_receipt_of (ho_show_int H) p) d of
            (LockPanic, d') \<Rightarrow> ((p\<lparr>pu_phase := Crashed\<rparr>, []), d')
          | (Returned _, d') \<Rightarrow> ((p\<lparr>pu_phase := Finished (pulse_receipt_of (ho_show_int H) p)\<rparr>, []), d'))
     | Claiming (t # ts) \<Rightarrow>
         (case claim_task E (tk_id t) d of
            (LockPanic, d') \<Rightarrow> ((p\<lparr>pu_phase := Crashed\<rparr>, []), d')
          | (Returned (Inr True), d') \<Rightarrow> ((p\<lparr>pu_phase := Working t ts\<rparr>, []), d')
          | (Returned _, d') \<Rightarrow> ((p\<lparr>pu_phase := Claiming ts\<rparr>, []), d'))
     | Working t ts \<Rightarrow>
         (case run_task H E (pu_tick p) t d of
            ((None, launched), d') \<Rightarrow> ((p\<lparr>pu_phase := Crashed\<rparr>, launched), d')
          | ((Some res, launched), d') \<Rightarrow> ((p\<lparr>pu_phase := Completing t res ts\<rparr>, launched), d'))
     | Completing t res ts \<Rightarrow>
         (case complete_task E (tk_id t) res d of
            (LockPanic, d') \<Rightarrow> ((p\<lparr>pu_phase := Crashed\<rparr>, []), d')
          | (Returned _, d') \<Rightarrow> ((p\<lparr>pu_actions := Suc (pu_actions p), pu_phase := Claiming ts\<rparr>, []), d'))
     | Finished r \<Rightarrow> ((p, []), d)
     | Crashed \<Rightarrow> ((p, []), d))"

text \<open>
  \<open>pulse_once\<close> without interruption: the steps one after the other until the pulse is over. The fuel counts
  steps; \<open>3 * n + 2\<close> of them are enough for \<open>n\<close> pending tasks.
\<close>

fun pulse_over :: "pulse_phase \<Rightarrow> bool" where
  "pulse_over (Finished _) = True"
| "pulse_over Crashed = True"
| "pulse_over _ = False"

fun pulse_run ::
  "'w host \<Rightarrow> legacy_libs \<Rightarrow> call_env \<Rightarrow> nat \<Rightarrow> pulse \<Rightarrow> legacy_db \<Rightarrow> pulse \<times> legacy_db" where
  "pulse_run H L E 0 p d = (p, d)"
| "pulse_run H L E (Suc n) p d =
     (if pulse_over (pu_phase p) then (p, d)
      else (case pulse_step H L E p d of ((p', _), d') \<Rightarrow> pulse_run H L E n p' d'))"

text \<open>How many steps a pulse has left once its list is read, and that every step takes at least one of them.\<close>

fun phase_left :: "pulse_phase \<Rightarrow> nat" where
  "phase_left (Claiming ts) = 3 * length ts + 1"
| "phase_left (Working t ts) = 3 * length ts + 3"
| "phase_left (Completing t res ts) = 3 * length ts + 2"
| "phase_left _ = 0"

lemma pulse_step_left:
  assumes "pulse_step H L E p d = ((p', launched), d')" "\<not> pulse_over (pu_phase p)" "pu_phase p \<noteq> Listing"
  shows "phase_left (pu_phase p') < phase_left (pu_phase p) \<and> pu_phase p' \<noteq> Listing"
  using assms unfolding pulse_step_def
  by (auto split: pulse_phase.splits list.splits prod.splits called.splits sum.splits bool.splits option.splits)

lemma pulse_step_over: "pulse_over (pu_phase p) \<Longrightarrow> pulse_step H L E p d = ((p, []), d)"
  by (cases "pu_phase p") (simp_all add: pulse_step_def)

section \<open>The engine\<close>

text \<open>
  The tick counter, the database, all pulses started so far, and two ghost fields: the identifiers of the
  tasks that were run, in order, and the commands started.
\<close>

record heart =
  ht_ticks :: u64
  ht_db :: legacy_db
  ht_pulses :: "pulse list"
  ht_ran :: "string list"
  ht_launched :: "launch list"

definition ran_now :: "pulse \<Rightarrow> string list" where
  "ran_now p = (case pu_phase p of Working t _ \<Rightarrow> [tk_id t] | _ \<Rightarrow> [])"

inductive heart_step :: "'w host \<Rightarrow> legacy_libs \<Rightarrow> heart \<Rightarrow> heart \<Rightarrow> bool"
  for H :: "'w host" and L :: legacy_libs where
  hs_start: "heart_step H L s (s\<lparr>ht_ticks := ht_ticks s + 1,
     ht_pulses := ht_pulses s @ [pulse_start (ht_ticks s + 1) now]\<rparr>)"
| hs_pulse: "i < length (ht_pulses s) \<Longrightarrow>
     pulse_step (H\<lparr>ho_threshold_env := env, ho_world := world, ho_shell := shell, ho_healthy := healthy\<rparr>) L E
       (ht_pulses s ! i) (ht_db s) = ((p, launched), d) \<Longrightarrow>
     heart_step H L s (s\<lparr>ht_db := d, ht_pulses := (ht_pulses s)[i := p],
       ht_ran := ht_ran s @ ran_now (ht_pulses s ! i), ht_launched := ht_launched s @ launched\<rparr>)"
| hs_create: "create_task L E k ty payload (ht_db s) = (r, d) \<Longrightarrow> heart_step H L s (s\<lparr>ht_db := d\<rparr>)"
| hs_turn: "record_turn L E role prompt response ms (ht_db s) = (r, d) \<Longrightarrow> heart_step H L s (s\<lparr>ht_db := d\<rparr>)"
| hs_crumb: "store_crumb E k v ns (ht_db s) = (r, d) \<Longrightarrow> heart_step H L s (s\<lparr>ht_db := d\<rparr>)"

text \<open>A step of a pulse in the surroundings as they are.\<close>

lemma pulse_heart_step:
  assumes "i < length (ht_pulses s)" "pulse_step H L E (ht_pulses s ! i) (ht_db s) = ((p, launched), d)"
  shows "heart_step H L s (s\<lparr>ht_db := d, ht_pulses := (ht_pulses s)[i := p],
    ht_ran := ht_ran s @ ran_now (ht_pulses s ! i), ht_launched := ht_launched s @ launched\<rparr>)"
proof -
  have "H\<lparr>ho_threshold_env := ho_threshold_env H, ho_world := ho_world H, ho_shell := ho_shell H,
      ho_healthy := ho_healthy H\<rparr> = H" by simp
  with assms show ?thesis by (metis hs_pulse)
qed

definition new_heart :: "legacy_db \<Rightarrow> heart" where
  "new_heart d = \<lparr>ht_ticks = 0, ht_db = d, ht_pulses = [], ht_ran = [], ht_launched = []\<rparr>"

section \<open>At most one run\<close>

definition tasks_ok :: "legacy_db \<Rightarrow> bool" where
  "tasks_ok d \<longleftrightarrow> distinct (map tk_id (lg_tasks d))"

lemma tasks_ok_key: "tasks_ok d \<Longrightarrow> x \<in> set (lg_tasks d) \<Longrightarrow> y \<in> set (lg_tasks d) \<Longrightarrow> tk_id x = tk_id y \<Longrightarrow> x = y"
  unfolding tasks_ok_def distinct_map by (auto dest: inj_onD)

text \<open>A task that was claimed: its row is there and no longer pending.\<close>

definition taken :: "legacy_db \<Rightarrow> string \<Rightarrow> bool" where
  "taken d i \<longleftrightarrow> i \<in> tk_id ` set (lg_tasks d) \<and> (\<forall>t\<in>set (lg_tasks d). tk_id t = i \<longrightarrow> tk_status t \<noteq> ''pending'')"

fun held :: "pulse_phase \<Rightarrow> string option" where
  "held (Working t _) = Some (tk_id t)"
| "held _ = None"

definition heart_inv :: "heart \<Rightarrow> bool" where
  "heart_inv s \<longleftrightarrow> tasks_ok (ht_db s) \<and> distinct (ht_ran s) \<and> (\<forall>i\<in>set (ht_ran s). taken (ht_db s) i) \<and>
     (\<forall>n<length (ht_pulses s). \<forall>i. held (pu_phase (ht_pulses s ! n)) = Some i \<longrightarrow>
        taken (ht_db s) i \<and> i \<notin> set (ht_ran s) \<and>
        (\<forall>m<length (ht_pulses s). held (pu_phase (ht_pulses s ! m)) = Some i \<longrightarrow> m = n))"

text \<open>What a call of another component, or a step that claims nothing, does to the tasks.\<close>

definition tasks_grow :: "legacy_db \<Rightarrow> legacy_db \<Rightarrow> bool" where
  "tasks_grow d d' \<longleftrightarrow> (tasks_ok d \<longrightarrow> tasks_ok d') \<and> (\<forall>i. tasks_ok d \<longrightarrow> taken d i \<longrightarrow> taken d' i)"

lemma tasks_grow_same: "lg_tasks d' = lg_tasks d \<Longrightarrow> tasks_grow d d'"
  by (simp add: tasks_grow_def tasks_ok_def taken_def)

lemma tasks_grow_keys:
  assumes "map tk_id (lg_tasks d') = map tk_id (lg_tasks d)"
    "\<And>t. t \<in> set (lg_tasks d') \<Longrightarrow> tk_status t = ''pending'' \<Longrightarrow> t \<in> set (lg_tasks d)"
  shows "tasks_grow d d'"
proof -
  have "tk_id ` set (lg_tasks d') = tk_id ` set (lg_tasks d)" using assms(1) by (metis set_map)
  with assms show ?thesis by (auto simp: tasks_grow_def tasks_ok_def taken_def)
qed

text \<open>The calls that leave the tasks alone.\<close>

lemma record_turn_tasks: "record_turn L E rl p a ms d = (r, d') \<Longrightarrow> lg_tasks d' = lg_tasks d"
  unfolding record_turn_def by (erule locked_cases) (auto split: if_splits)

lemma crumb_tasks: "store_crumb E k v ns d = (r, d') \<Longrightarrow> lg_tasks d' = lg_tasks d"
  unfolding store_crumb_def by (erule locked_cases) auto

lemma tick_tasks: "record_heartbeat_tick E rc d = (r, d') \<Longrightarrow> lg_tasks d' = lg_tasks d"
  unfolding record_heartbeat_tick_def by (erule locked_cases) auto

lemma list_pending_same: "list_pending_tasks L E d = (r, d') \<Longrightarrow> d' = d"
  unfolding list_pending_tasks_def by (erule locked_cases) auto

lemma run_task_tasks: "run_task H E tick t d = (r, d') \<Longrightarrow> lg_tasks d' = lg_tasks d"
  unfolding run_task_def by (auto simp: Let_def dest: crumb_tasks split: if_splits prod.splits called.splits)

lemma turn_grow: "record_turn L E role prompt response ms d = (r, d') \<Longrightarrow> tasks_grow d d'"
  by (blast intro: tasks_grow_same record_turn_tasks)

lemma crumb_grow: "store_crumb E k v ns d = (r, d') \<Longrightarrow> tasks_grow d d'"
  by (blast intro: tasks_grow_same crumb_tasks)

lemma tick_grow: "record_heartbeat_tick E rc d = (r, d') \<Longrightarrow> tasks_grow d d'"
  by (blast intro: tasks_grow_same tick_tasks)

lemma run_grow: "run_task H E tick t d = (r, d') \<Longrightarrow> tasks_grow d d'"
  by (blast intro: tasks_grow_same run_task_tasks)

lemma list_grow: "list_pending_tasks L E d = (r, d') \<Longrightarrow> tasks_grow d d'"
  by (auto intro: tasks_grow_same dest: list_pending_same)

lemma create_adds: "create_task L E k ty payload d = (r, d') \<Longrightarrow> set (lg_tasks d) \<subseteq> set (lg_tasks d')"
  unfolding create_task_def by (erule locked_cases) (auto split: if_splits)

lemma create_grow: "create_task L E k ty payload d = (r, d') \<Longrightarrow> tasks_grow d d'"
  unfolding create_task_def
proof (erule locked_cases)
  fix x
  assume "(if k \<in> tk_id ` set (lg_tasks d) then (Inl (ll_unique_failed L), d) else
      (Inr (), record_transcript E ''task_created''
        (json_object [(''id'', JString k), (''task_type'', JString ty), (''payload'', JString payload)])
        (d\<lparr>lg_tasks := lg_tasks d @ [\<lparr>tk_id = k, tk_type = ty, tk_payload = payload, tk_status = ''pending'',
             tk_result = None, tk_created_at = ce_now E, tk_completed_at = None\<rparr>]\<rparr>))) = (x, d')"
  then show "tasks_grow d d'" by (auto simp: tasks_grow_def tasks_ok_def taken_def split: if_splits)
qed (auto intro: tasks_grow_same)

lemma complete_grow: "complete_task E i res d = (r, d') \<Longrightarrow> tasks_grow d d'"
  unfolding complete_task_def
proof (erule locked_cases)
  fix x
  let ?g = "\<lambda>t. t\<lparr>tk_status := ''completed'', tk_result := Some res, tk_completed_at := Some (ce_now E)\<rparr>"
  assume "(Inr (), record_transcript E ''task_completed''
        (json_object [(''id'', JString i), (''result'', JString res), (''completed_at'', JString (ce_now E))])
        (d\<lparr>lg_tasks := fst (sql_update (\<lambda>t. tk_id t = i) ?g (lg_tasks d))\<rparr>)) = (x, d')"
  then have d': "lg_tasks d' = map (\<lambda>t. if tk_id t = i then ?g t else t) (lg_tasks d)"
    by (auto simp: sql_update_def)
  show "tasks_grow d d'" by (rule tasks_grow_keys) (auto simp: d')
qed (auto intro: tasks_grow_same)

text \<open>A claim: it takes the task and succeeds only if nobody had taken it.\<close>

lemma claim_outcome:
  assumes "claim_task E i d = (r, d')"
  shows "tasks_grow d d'"
    and "tasks_ok d \<Longrightarrow> r = Returned (Inr True) \<Longrightarrow> taken d' i \<and> \<not> taken d i"
proof -
  let ?P = "\<lambda>t. tk_id t = i \<and> tk_status t = ''pending''"
  let ?g = "\<lambda>t. t\<lparr>tk_status := ''running''\<rparr>"
  have c: "(r = LockPanic \<or> (\<exists>e. r = Returned (Inl e))) \<and> d' = d \<or>
      lg_tasks d' = map (\<lambda>t. if ?P t then ?g t else t) (lg_tasks d) \<and>
      r = Returned (Inr (length (filter ?P (lg_tasks d)) = 1))"
    using assms unfolding claim_task_def by (elim locked_cases) (auto simp: sql_update_def)
  have k: "map tk_id (lg_tasks d') = map tk_id (lg_tasks d)" using c by auto
  then have ks: "tk_id ` set (lg_tasks d') = tk_id ` set (lg_tasks d)" by (metis set_map)
  show "tasks_grow d d'" using k by (rule tasks_grow_keys) (use c in auto)
  assume ok: "tasks_ok d" and r: "r = Returned (Inr True)"
  with c have u: "lg_tasks d' = map (\<lambda>t. if ?P t then ?g t else t) (lg_tasks d)"
    and "length (filter ?P (lg_tasks d)) = 1" by auto
  then have "filter ?P (lg_tasks d) \<noteq> []" by auto
  then obtain t where t: "t \<in> set (lg_tasks d)" "?P t" by (auto simp: filter_empty_conv)
  then have here: "i \<in> tk_id ` set (lg_tasks d')" unfolding ks by blast
  have "tk_status x \<noteq> ''pending''" if "x \<in> set (lg_tasks d')" "tk_id x = i" for x
  proof -
    from that(1) obtain y where "x = (if ?P y then ?g y else y)" unfolding u set_map by (rule imageE)
    with that(2) show ?thesis by (cases "?P y") auto
  qed
  with here have "taken d' i" unfolding taken_def by blast
  moreover have "\<not> taken d i" using t unfolding taken_def by blast
  ultimately show "taken d' i \<and> \<not> taken d i" ..
qed

lemma pulse_grow:
  assumes "pulse_step H L E p d = ((p', launched), d')"
  shows "tasks_grow d d'"
  using assms unfolding pulse_step_def
  by (auto intro: tasks_grow_same list_grow tick_grow claim_outcome(1) run_grow complete_grow
      split: pulse_phase.splits list.splits prod.splits called.splits sum.splits bool.splits option.splits)

text \<open>What a pulse holds after a step it held before, or has just claimed.\<close>

lemma pulse_held:
  assumes "pulse_step H L E p d = ((p', launched), d')" "held (pu_phase p') = Some i" "tasks_ok d"
  shows "taken d' i \<and> \<not> taken d i \<and> ran_now p = []"
proof -
  have "held (pu_phase p) = None \<and> (\<exists>ts t. pu_phase p = Claiming (t # ts) \<and> tk_id t = i \<and>
      claim_task E i d = (Returned (Inr True), d'))"
    using assms(1,2) unfolding pulse_step_def
    by (auto split: pulse_phase.splits list.splits prod.splits called.splits sum.splits bool.splits option.splits)
  with claim_outcome(2) [OF _ assms(3)] show ?thesis by (auto simp: ran_now_def)
qed

lemma ran_now_held: "ran_now p = (case held (pu_phase p) of Some i \<Rightarrow> [i] | None \<Rightarrow> [])"
  by (cases "pu_phase p") (simp_all add: ran_now_def)

lemma heart_inv_frame:
  assumes "heart_inv s" "tasks_grow (ht_db s) d"
  shows "heart_inv (s\<lparr>ht_db := d\<rparr>)"
  using assms unfolding heart_inv_def tasks_grow_def by auto

lemma heart_inv_start:
  assumes "heart_inv s"
  shows "heart_inv (s\<lparr>ht_ticks := k, ht_pulses := ht_pulses s @ [pulse_start k now]\<rparr>)"
proof -
  have h: "held (pu_phase ((ht_pulses s @ [pulse_start k now]) ! n)) = Some i \<longleftrightarrow>
      n < length (ht_pulses s) \<and> held (pu_phase (ht_pulses s ! n)) = Some i"
    if "n < Suc (length (ht_pulses s))" for n i
    using that by (auto simp: nth_append pulse_start_def less_Suc_eq)
  from assms show ?thesis unfolding heart_inv_def by (simp add: h) blast
qed

lemma heart_inv_pulse:
  assumes inv: "heart_inv s" and i: "i < length (ht_pulses s)"
    and st: "pulse_step H L E (ht_pulses s ! i) (ht_db s) = ((p, launched), d)"
  shows "heart_inv (s\<lparr>ht_db := d, ht_pulses := (ht_pulses s)[i := p],
    ht_ran := ht_ran s @ ran_now (ht_pulses s ! i), ht_launched := x\<rparr>)"
proof -
  let ?p0 = "ht_pulses s ! i" and ?ps = "(ht_pulses s)[i := p]"
  from inv have ok: "tasks_ok (ht_db s)" and dist: "distinct (ht_ran s)"
    and ran: "\<And>k. k \<in> set (ht_ran s) \<Longrightarrow> taken (ht_db s) k"
    and hold: "\<And>n k. n < length (ht_pulses s) \<Longrightarrow> held (pu_phase (ht_pulses s ! n)) = Some k \<Longrightarrow>
        taken (ht_db s) k \<and> k \<notin> set (ht_ran s)"
    and uniq: "\<And>n m k. n < length (ht_pulses s) \<Longrightarrow> m < length (ht_pulses s) \<Longrightarrow>
        held (pu_phase (ht_pulses s ! n)) = Some k \<Longrightarrow> held (pu_phase (ht_pulses s ! m)) = Some k \<Longrightarrow> m = n"
    unfolding heart_inv_def by blast+
  have grow: "tasks_ok d" "\<And>k. taken (ht_db s) k \<Longrightarrow> taken d k"
    using pulse_grow [OF st] ok unfolding tasks_grow_def by blast+
  have now: "set (ran_now ?p0) = {k. held (pu_phase ?p0) = Some k}" "distinct (ran_now ?p0)"
    by (auto simp: ran_now_held split: option.splits)
  have new: "taken d k \<and> \<not> taken (ht_db s) k \<and> ran_now ?p0 = []" if "held (pu_phase p) = Some k" for k
    using pulse_held [OF st that ok] .
  have old: "held (pu_phase (?ps ! n)) = (if n = i then held (pu_phase p) else held (pu_phase (ht_pulses s ! n)))"
    if "n < length (ht_pulses s)" for n
    using that i by (simp add: nth_list_update)
  have "distinct (ht_ran s @ ran_now ?p0)" using dist now hold [OF i] by auto
  moreover have "taken d k" if "k \<in> set (ht_ran s @ ran_now ?p0)" for k
    using that ran hold [OF i] grow(2) now(1) by auto
  moreover have "taken d k \<and> k \<notin> set (ht_ran s @ ran_now ?p0) \<and>
      (\<forall>m<length ?ps. held (pu_phase (?ps ! m)) = Some k \<longrightarrow> m = n)"
    if n: "n < length ?ps" and h: "held (pu_phase (?ps ! n)) = Some k" for n k
  proof (cases "n = i")
    case True
    with h old n have "held (pu_phase p) = Some k" by simp
    then have "taken d k" "\<not> taken (ht_db s) k" "ran_now ?p0 = []" using new by blast+
    then show ?thesis using ran hold old True by (auto split: if_splits)
  next
    case False
    with h old n have hn: "held (pu_phase (ht_pulses s ! n)) = Some k" and n': "n < length (ht_pulses s)" by simp_all
    have "k \<notin> set (ran_now ?p0)" using uniq [OF n' i hn] now(1) False by auto
    moreover have "held (pu_phase p) \<noteq> Some k" using new hold [OF n' hn] by blast
    then have "\<forall>m<length ?ps. held (pu_phase (?ps ! m)) = Some k \<longrightarrow> m = n"
      using uniq [OF n' _ hn] old by (auto split: if_splits)
    ultimately show ?thesis using hold [OF n' hn] grow(2) by auto
  qed
  ultimately show ?thesis using grow(1) unfolding heart_inv_def by simp
qed

interpretation heart: invariant_system "\<lambda>s. \<exists>d. tasks_ok d \<and> s = new_heart d" "heart_step H L" heart_inv
  for H :: "'w host" and L :: legacy_libs
proof unfold_locales
  fix s
  assume "\<exists>d. tasks_ok d \<and> s = new_heart d"
  then show "heart_inv s" by (auto simp: heart_inv_def new_heart_def)
next
  fix s t
  assume "heart_step H L s t" "heart_inv s"
  then show "heart_inv t"
    by (cases rule: heart_step.cases)
      (auto intro: heart_inv_start heart_inv_pulse heart_inv_frame turn_grow create_grow crumb_grow)
qed

text \<open>
  However the pulses of the engine overlap with each other and with the other writers of the database, and
  whatever calls fail, no task is run twice; a task that was run is no longer pending, so no later pulse can
  claim it.
\<close>

lemma task_runs_at_most_once:
  assumes "tasks_ok d" "(heart_step H L)\<^sup>*\<^sup>* (new_heart d) s"
  shows "distinct (ht_ran s) \<and>
    (\<forall>i\<in>set (ht_ran s). taken (ht_db s) i \<and>
       (\<forall>E. ce_conn E = LcOk \<longrightarrow> fst (claim_task E i (ht_db s)) = Returned (Inr False)))"
proof -
  have inv: "heart_inv s" using heart.reached_inv [of "new_heart d" H L s] assms by blast
  have "fst (claim_task E i (ht_db s)) = Returned (Inr False)" if "taken (ht_db s) i" "ce_conn E = LcOk" for E i
  proof -
    have "filter (\<lambda>t. tk_id t = i \<and> tk_status t = ''pending'') (lg_tasks (ht_db s)) = []"
      using that(1) by (auto simp: taken_def filter_empty_conv)
    then show ?thesis using that(2) by (simp add: claim_task_def sql_update_def)
  qed
  with inv show ?thesis unfolding heart_inv_def by blast
qed

text \<open>A pulse at work on a task: it claimed it and has not completed it yet.\<close>

fun works_on :: "string \<Rightarrow> pulse_phase \<Rightarrow> bool" where
  "works_on i (Working t _) \<longleftrightarrow> tk_id t = i"
| "works_on i (Completing t _ _) \<longleftrightarrow> tk_id t = i"
| "works_on i _ \<longleftrightarrow> False"

section \<open>What a pulse may start\<close>

definition catalogued :: "'w host \<Rightarrow> launch \<Rightarrow> bool" where
  "catalogued H l \<longleftrightarrow> (\<exists>cmd. la_line l = ''timeout '' @ ''15'' @ ''s bash -c '' @ quoted (trim cmd) \<and>
     real_inside (ho_fs H) (ho_world H) (ho_base H) (la_dir l) \<and> fs_is_dir (ho_fs H) (ho_world H) (la_dir l) \<and>
     split_whitespace cmd \<in> {[''git'', ''status''], [''git'', ''diff''], [''git'', ''log'', ''-1'', ''--oneline''], [''ls'']} \<and>
     (\<forall>x\<in>set cmd. x \<notin> set shell_metacharacters))"

lemma run_task_catalogued:
  assumes "run_task H E tick t d = ((r, launched), d')" "l \<in> set launched"
  shows "catalogued H l"
proof -
  obtain res where "dispatch_shell_gated (ho_guard H) (ho_threshold_env H) (ho_fs H) (ho_shell H)
      (ho_show_int H) (ho_world H) (ho_base H) (task_command t) None ''15'' = (res, launched)"
    using assms unfolding run_task_def by (auto split: if_splits prod.splits called.splits)
  then have "dispatch_shell (ho_guard H) (ho_fs H) (ho_shell H) (ho_show_int H) (ho_world H) (ho_base H)
      (task_command t) None ''15'' = (res, launched)"
    using assms(2) by (auto simp: dispatch_shell_gated_def split: sum.splits)
  from dispatch_shell_launches [OF this] assms(2) show ?thesis unfolding catalogued_def by auto
qed

lemma pulse_catalogued:
  assumes "pulse_step H L E p d = ((p', launched), d')" "l \<in> set launched"
  shows "catalogued H l"
  using assms unfolding pulse_step_def
  by (auto intro: run_task_catalogued
      split: pulse_phase.splits list.splits prod.splits called.splits sum.splits bool.splits option.splits)

text \<open>
  Whatever tasks are queued, through whatever interleaving of pulses, the heartbeat starts nothing but the
  four catalogued commands, quoted, with a time limit of 15 seconds and in a directory really inside the workspace
  of the moment.
\<close>

lemma heartbeat_launches_catalogued:
  assumes "(heart_step H L)\<^sup>*\<^sup>* (new_heart d) s" "l \<in> set (ht_launched s)"
  shows "\<exists>v. catalogued (H\<lparr>ho_world := v\<rparr>) l"
  using assms
proof (induction rule: rtranclp_induct)
  case base
  then show ?case by (simp add: new_heart_def)
next
  case (step s t)
  from step.hyps(2) show ?case
  proof (cases rule: heart_step.cases)
    case (hs_pulse i healthy shell world env E p launched d)
    show ?thesis
    proof (cases "l \<in> set launched")
      case True
      from pulse_catalogued [OF hs_pulse(3) True] show ?thesis by (intro exI [of _ world]) (simp add: catalogued_def)
    next
      case False
      with hs_pulse(1) step show ?thesis by simp
    qed
  qed (use step in simp_all)
qed

text \<open>
  The command that stands for an empty build task holds quotes, which the catalog refuses: the task always
  ends as an execution failure and starts nothing, whatever the guard, the shell and the workspace answer.
\<close>

lemma empty_build_task_refused:
  "\<exists>e. run_task H E tick (t\<lparr>tk_type := ''build_monitor'', tk_payload := []\<rparr>) d =
     ((Some (''Execution failure: '' @ show_security_error e), []), d)"
proof -
  let ?c = "''echo '' @ quoted ''empty build task''"
  have "\<not> is_ok (admit_local_command ?c)"
    using quote_is_meta by (simp add: admit_local_command_def quoted_def)
  then have "\<not> is_ok (pre_dispatch_check esc ''bash_eval'' (json_object [(''command'', JString ?c)]))" for esc
    by (auto simp: is_ok_iff dest!: pre_dispatch_Inr)
  then have "\<not> is_ok (probe_gate (ho_guard H) (ho_threshold_env H) ''bash_eval'' (json_object [(''command'', JString ?c)]))"
    by (auto simp: probe_gate_def gate_skill_def is_ok_iff try_bind_Inr_iff split: sum.splits)
  then obtain m where "probe_gate (ho_guard H) (ho_threshold_env H) ''bash_eval'' (json_object [(''command'', JString ?c)]) = Inl m"
    by (cases "probe_gate (ho_guard H) (ho_threshold_env H) ''bash_eval'' (json_object [(''command'', JString ?c)])") auto
  then show ?thesis
    by (intro exI [of _ "AccessDenied m"])
      (simp add: run_task_def dispatch_shell_gated_def task_command_def shell_text_def)
qed

section \<open>Calls that nothing disturbs\<close>

text \<open>The text of a task's result.\<close>

definition task_text :: "'w host \<Rightarrow> call_env \<Rightarrow> u64 \<Rightarrow> task_record \<Rightarrow> string option" where
  "task_text H E tick t = fst (fst (run_task H E tick t (open_legacy True)))"

lemma run_task_undisturbed:
  assumes "ce_conn E = LcOk"
  obtains res launched d' where "run_task H E tick t d = ((Some res, launched), d')" "task_text H E tick t = Some res"
    "lg_tasks d' = lg_tasks d"
proof -
  let ?r = "run_task H E tick t d"
  have "\<exists>res. fst (fst ?r) = Some res \<and> task_text H E tick t = Some res"
    using assms by (simp add: run_task_def task_text_def store_crumb_def split: prod.splits)
  moreover have "lg_tasks (snd ?r) = lg_tasks d"
    using assms by (simp add: run_task_def store_crumb_def split: prod.splits)
  ultimately show ?thesis using that by (metis prod.collapse)
qed

lemma complete_undisturbed:
  assumes "ce_conn E = LcOk"
  obtains d' where "complete_task E i res d = (Returned (Inr ()), d')"
    "lg_tasks d' = map (\<lambda>t. if tk_id t = i then t\<lparr>tk_status := ''completed'', tk_result := Some res,
       tk_completed_at := Some (ce_now E)\<rparr> else t) (lg_tasks d)"
  using assms that by (simp add: complete_task_def sql_update_def)

lemma tick_undisturbed:
  assumes "ce_conn E = LcOk"
  obtains d' where "record_heartbeat_tick E r d = (Returned (Inr ()), d')" "lg_tasks d' = lg_tasks d"
  using assms that by (simp add: record_heartbeat_tick_def)

section \<open>Instances\<close>

definition demo_host :: "unit host" where
  "demo_host = \<lparr>ho_guard = yes_guard (Fin 1), ho_threshold_env = None, ho_fs = linked_fs, ho_world = (),
     ho_base = ''/ws'', ho_shell = quiet_shell, ho_show_int = (\<lambda>_. ''1''), ho_healthy = True\<rparr>"

definition demo_env :: call_env where
  "demo_env = \<lparr>ce_conn = LcOk, ce_now = ''2026-01-01'', ce_transcript_now = ''2026-01-01'', ce_file_ok = True\<rparr>"

definition demo_legacy :: legacy_libs where
  "demo_legacy = \<lparr>ll_unique_failed = ''UNIQUE constraint failed'', ll_full = ''database or disk is full'',
     ll_scan_tasks = (\<lambda>ts. ts), ll_scan_crumbs = (\<lambda>cs. cs)\<rparr>"

definition demo_task :: "string \<Rightarrow> string \<Rightarrow> string \<Rightarrow> task_record" where
  "demo_task i ty payload = \<lparr>tk_id = i, tk_type = ty, tk_payload = payload, tk_status = ''pending'', tk_result = None,
     tk_created_at = ''2025'', tk_completed_at = None\<rparr>"

definition demo_queue :: legacy_db where
  "demo_queue = (open_legacy True)\<lparr>lg_tasks := [demo_task ''t1'' ''system_telemetry'' [], demo_task ''t2'' ''model_health'' []]\<rparr>"

lemma demo_queue_ok: "tasks_ok demo_queue"
  by (simp add: tasks_ok_def demo_queue_def demo_task_def)

text \<open>Two overlapping pulses on one task: both list it, the first claims it, runs it and completes it.\<close>

definition demo_ls :: legacy_db where
  "demo_ls = (open_legacy True)\<lparr>lg_tasks := [demo_task ''t1'' ''shell_exec'' ''ls'']\<rparr>"

definition demo_launch :: launch where
  "demo_launch = \<lparr>la_line = ''timeout 15s bash -c '' @ quoted ''ls'', la_dir = ''/ws''\<rparr>"

lemma demo_pulse: "run_task demo_host demo_env 1 (demo_task ''t1'' ''shell_exec'' ''ls'') d =
   ((Some ''Exit code 0: clean'', [demo_launch]), d)"
proof -
  have "dispatch_shell_gated (yes_guard (Fin 1)) None linked_fs quiet_shell (\<lambda>_. ''1'') () ''/ws'' ''ls'' None ''15'' =
      (Inr ''clean'', [demo_launch])" by code_simp
  moreover have "trim ''clean'' = ''clean''" by code_simp
  ultimately show ?thesis
    by (simp add: run_task_def demo_task_def demo_host_def task_command_def shell_text_def)
qed

definition advance :: "nat \<Rightarrow> heart \<Rightarrow> heart" where
  "advance i s = (case pulse_step demo_host demo_legacy demo_env (ht_pulses s ! i) (ht_db s) of
     ((p, launched), d) \<Rightarrow> s\<lparr>ht_db := d, ht_pulses := (ht_pulses s)[i := p],
       ht_ran := ht_ran s @ ran_now (ht_pulses s ! i), ht_launched := ht_launched s @ launched\<rparr>)"

lemma advance_step:
  assumes "i < length (ht_pulses s)"
  shows "heart_step demo_host demo_legacy s (advance i s)"
proof -
  obtain r d where rd: "pulse_step demo_host demo_legacy demo_env (ht_pulses s ! i) (ht_db s) = (r, d)"
    by (rule prod.exhaust)
  obtain p l where r: "r = (p, l)" by (rule prod.exhaust)
  from pulse_heart_step [OF assms rd [unfolded r]] show ?thesis by (simp add: advance_def rd r)
qed

definition demo_heart :: heart where
  "demo_heart = (new_heart demo_ls)\<lparr>ht_ticks := 2, ht_pulses := [pulse_start 1 ''a'', pulse_start 2 ''b'']\<rparr>"

lemma demo_heart_steps: "(heart_step demo_host demo_legacy)\<^sup>*\<^sup>* (new_heart demo_ls) demo_heart"
proof -
  let ?s = "new_heart demo_ls"
  let ?s1 = "?s\<lparr>ht_ticks := ht_ticks ?s + 1, ht_pulses := ht_pulses ?s @ [pulse_start (ht_ticks ?s + 1) ''a'']\<rparr>"
  let ?s2 = "?s1\<lparr>ht_ticks := ht_ticks ?s1 + 1, ht_pulses := ht_pulses ?s1 @ [pulse_start (ht_ticks ?s1 + 1) ''b'']\<rparr>"
  have s2: "?s2 = demo_heart" by (simp add: demo_heart_def new_heart_def)
  have "heart_step demo_host demo_legacy ?s ?s1" by (rule hs_start)
  moreover have "heart_step demo_host demo_legacy ?s1 demo_heart"
    using hs_start [of demo_host demo_legacy ?s1 "''b''"] unfolding s2 .
  ultimately show ?thesis by (rule rtranclp.rtrancl_into_rtrancl [OF r_into_rtranclp])
qed

definition demo_busy :: heart where
  "demo_busy = advance 1 (advance 0 (advance 1 (advance 0 demo_heart)))"

definition demo_done :: heart where
  "demo_done = advance 0 demo_busy"

lemmas advance_eval = advance_def pulse_step_def demo_heart_def new_heart_def pulse_start_def list_pending_tasks_def
  claim_task_def sql_update_def demo_env_def demo_legacy_def demo_ls_def open_legacy_def ran_now_def

lemma demo_busy_eval:
  "ht_pulses demo_busy = [\<lparr>pu_tick = 1, pu_now = ''a'', pu_scanned = 1, pu_actions = 0,
       pu_phase = Working (demo_task ''t1'' ''shell_exec'' ''ls'') []\<rparr>,
     \<lparr>pu_tick = 2, pu_now = ''b'', pu_scanned = 1, pu_actions = 0, pu_phase = Claiming []\<rparr>]"
  "ht_ran demo_busy = []" "ht_launched demo_busy = []"
  by (simp_all add: demo_busy_def advance_eval demo_task_def)

lemma demo_done_eval: "ht_ran demo_done = [''t1'']" "ht_launched demo_done = [demo_launch]"
  by (simp_all add: demo_done_def advance_def demo_busy_eval pulse_step_def demo_pulse ran_now_def)
    (simp add: demo_task_def)

lemma demo_done_steps: "(heart_step demo_host demo_legacy)\<^sup>*\<^sup>* (new_heart demo_ls) demo_done"
proof -
  have two: "length (ht_pulses (advance i s)) = length (ht_pulses s)" for i s
    by (simp add: advance_def split: prod.splits)
  have more: "(heart_step demo_host demo_legacy)\<^sup>*\<^sup>* (new_heart demo_ls) (advance i s)"
    if "(heart_step demo_host demo_legacy)\<^sup>*\<^sup>* (new_heart demo_ls) s" "i < length (ht_pulses s)" for i s
    using that(1) advance_step [OF that(2)] by (rule rtranclp.rtrancl_into_rtrancl)
  have "length (ht_pulses demo_heart) = 2" by (simp add: demo_heart_def)
  then show ?thesis unfolding demo_done_def demo_busy_def by (intro more demo_heart_steps) (simp_all add: two)
qed

lemma demo_ls_ok: "tasks_ok demo_ls"
  by (simp add: tasks_ok_def demo_ls_def)

lemma task_runs_at_most_once_example:
  "ht_ran demo_done = [''t1''] \<and> fst (claim_task demo_env ''t1'' (ht_db demo_done)) = Returned (Inr False)"
  using task_runs_at_most_once [OF demo_ls_ok demo_done_steps] demo_done_eval(1) by (simp add: demo_env_def)

lemma heartbeat_launches_catalogued_example: "demo_launch \<in> set (ht_launched demo_done) \<and> catalogued demo_host demo_launch"
  using heartbeat_launches_catalogued [OF demo_done_steps, of demo_launch] demo_done_eval(2) by (auto simp: demo_host_def)

end
