(* ===== verification/Gateway.thy ===== *)
theory Gateway
  imports Agent Auth Heartbeat VectorMath
begin

text \<open>
  \<open>src/gateway.rs\<close>: the HTTP routes and the WebSocket over the modelled parts. A handler is a function of the
  request and the world, and runs without interruption; the interleaving of pulses is in \<open>Heartbeat\<close>. The
  gateway is assembled as \<open>main.rs\<close> does it: one registry of the built-in skills, an agent from
  \<open>AgentEngine::new\<close> over it, and the heartbeat over the same database. Transport, request parsing up to a JSON
  value, CORS headers and the probe engine are parameters or documented behaviour of the web framework.
\<close>

section \<open>The world\<close>

text \<open>
  \<open>wo_env\<close> is everything outside the process; \<open>wo_effects\<close> lists what was read, written and started through
  skills and shell commands, in order, each with the outside as it was when the call that caused it began, and
  \<open>wo_pulses\<close> the receipts broadcast.
\<close>

record 'v world =
  wo_env :: 'v
  wo_db :: legacy_db
  wo_ticks :: u64
  wo_effects :: "('v \<times> effect) list"
  wo_pulses :: "pulse_receipt list"

text \<open>\<open>gw_calls v n\<close> is the surroundings of the database call made \<open>n\<close> steps before the end of a pulse, or of the
  only one (\<open>n = 0\<close>).\<close>

record 'v gateway =
  gw_auth :: operator_auth
  gw_engine :: "'v engine"
  gw_skills :: "'v skill_world"
  gw_root :: string
  gw_heart_root :: string
  gw_interval :: u64
  gw_healthy :: "'v \<Rightarrow> bool"
  gw_keys :: "'v \<Rightarrow> string list"
  gw_libs :: libs
  gw_ldb :: legacy_libs
  gw_calls :: "'v \<Rightarrow> nat \<Rightarrow> call_env"
  gw_uuid :: "'v \<Rightarrow> string"
  gw_uptime :: "'v \<Rightarrow> u64"
  gw_elapsed_ms :: "'v \<Rightarrow> nat"
  gw_now_text :: "'v \<Rightarrow> string"
  gw_now_secs :: "'v \<Rightarrow> int"
  gw_now_millis :: "'v \<Rightarrow> i64"
  gw_fresh_run :: "'v \<Rightarrow> run_id"
  gw_fresh_event :: "'v \<Rightarrow> nat \<Rightarrow> event_id"
  gw_env_var :: "'v \<Rightarrow> string \<Rightarrow> string option"
  gw_show_nat :: "nat \<Rightarrow> string"
  gw_show_json :: "json \<Rightarrow> string"
  gw_f32 :: "json_number \<Rightarrow> f32_text"
  gw_f32_json :: "f32 \<Rightarrow> json"
  gw_result_json :: "agent_result \<Rightarrow> json"
  gw_receipt_text :: "pulse_receipt \<Rightarrow> string option"
  gw_probe_set_ok :: "json \<Rightarrow> bool"
  gw_probe :: "json \<Rightarrow> json \<Rightarrow> string + (json \<times> u64)"

abbreviation gw_registry :: "'v gateway \<Rightarrow> 'v registry" where
  "gw_registry G \<equiv> with_workspace (gw_skills G) (gw_root G)"

text \<open>A call that acts on the outside only.\<close>

definition on_env :: "('v \<Rightarrow> 'a \<times> 'v) \<Rightarrow> 'v world \<Rightarrow> 'a \<times> 'v world" where
  "on_env f w = (case f (wo_env w) of (a, v) \<Rightarrow> (a, w\<lparr>wo_env := v\<rparr>))"

text \<open>A call that acts on the outside and reports its effects.\<close>

definition with_effects :: "('v \<Rightarrow> ('a \<times> effect list) \<times> 'v) \<Rightarrow> 'v world \<Rightarrow> 'a \<times> 'v world" where
  "with_effects f w = (case f (wo_env w) of ((a, es), v) \<Rightarrow>
     (a, w\<lparr>wo_env := v, wo_effects := wo_effects w @ map (Pair (wo_env w)) es\<rparr>))"

text \<open>A call of the database.\<close>

definition on_db :: "'v gateway \<Rightarrow> (call_env \<Rightarrow> legacy_db \<Rightarrow> 'a called \<times> legacy_db) \<Rightarrow> 'v world \<Rightarrow> 'a called \<times> 'v world" where
  "on_db G f w = (case f (gw_calls G (wo_env w) 0) (wo_db w) of (r, d) \<Rightarrow> (r, w\<lparr>wo_db := d\<rparr>))"

definition gw_record_turn :: "'v gateway \<Rightarrow> string \<Rightarrow> string \<Rightarrow> string \<Rightarrow> u64 \<Rightarrow> 'v world \<Rightarrow> unit called \<times> 'v world" where
  "gw_record_turn G rl prompt response ms = on_db G (\<lambda>E. record_turn (gw_ldb G) E rl prompt response ms)"

section \<open>The agent and the shell behind the gateway\<close>

text \<open>
  \<open>AgentEngine::new\<close>: the registry's gated dispatch, the default policy (one attempt, no deadline), a cancel
  token that nobody else holds, no bus and no fixed run.
\<close>

definition gateway_agent :: "'v gateway \<Rightarrow> 'v \<Rightarrow> 'v world agent" where
  "gateway_agent G v =
     \<lparr>ae_libs = gw_libs G,
      ae_engine = \<lparr>en_model_id = en_model_id (gw_engine G), en_endpoint = en_endpoint (gw_engine G),
        en_generate_with_tokens = (\<lambda>p s t m. on_env (en_generate_with_tokens (gw_engine G) p s t m)),
        en_generate_chat = (\<lambda>ms t m. on_env (en_generate_chat (gw_engine G) ms t m)),
        en_chat_with_tools = (\<lambda>ms ts t m. on_env (en_chat_with_tools (gw_engine G) ms ts t m)),
        en_stream_chat = (\<lambda>ms t m. on_env (en_stream_chat (gw_engine G) ms t m)),
        en_check_health = on_env (en_check_health (gw_engine G))\<rparr>,
      ae_tools = to_openai_tools (gw_keys G v) (gw_registry G),
      ae_dispatch = (\<lambda>name args. with_effects (dispatch_classified (gw_skills G) (gw_registry G) name args)),
      ae_race = (\<lambda>_ _ _. AnswerFirst),
      ae_dropped = (\<lambda>_ _ w. w),
      ae_cancelled = (\<lambda>_. False),
      ae_now = (\<lambda>w. gw_now_millis G (wo_env w)),
      ae_elapsed = (\<lambda>w. gw_elapsed_ms G (wo_env w)),
      ae_fresh_run = (\<lambda>w. gw_fresh_run G (wo_env w)),
      ae_fresh_event = (\<lambda>w. gw_fresh_event G (wo_env w)),
      ae_env = (\<lambda>w. gw_env_var G (wo_env w)),
      ae_show_nat = gw_show_nat G,
      ae_turn_db = Some (\<lambda>rl p r ms w. snd (gw_record_turn G rl p r ms w)),
      ae_policy = \<lparr>fp_retry = default_retry_policy, fp_timeout_ms = None\<rparr>,
      ae_bus = None,
      ae_run_id = None\<rparr>"

text \<open>
  \<open>state.agent.execute_task\<close>. The last call of a task that ends without an error records the turn; a poisoned
  lock makes it panic (\<open>None\<close>).
\<close>

definition gw_execute_task :: "'v gateway \<Rightarrow> string \<Rightarrow> string option \<Rightarrow> nat \<Rightarrow> 'v world \<Rightarrow>
    (string + agent_result) option \<times> 'v world" where
  "gw_execute_task G goal sys max_turns w =
     (case execute_task (gateway_agent G (wo_env w)) goal sys max_turns w of
        (Inl e, s) \<Rightarrow> (Some (Inl e), tk_world s)
      | (Inr r, s) \<Rightarrow>
          (if ce_conn (gw_calls G (wo_env (tk_world s)) 0) = LcPoisoned then (None, tk_world s)
           else (Some (Inr r), tk_world s)))"

text \<open>\<open>state.skills.workspace().dispatch_shell_gated(cmd, None, 15)\<close>\<close>

definition gw_shell :: "'v gateway \<Rightarrow> string \<Rightarrow> 'v world \<Rightarrow> (security_error + string) \<times> 'v world" where
  "gw_shell G cmd = with_effects (\<lambda>v.
     (case dispatch_shell_gated (sw_guard (gw_skills G)) (sw_env (gw_skills G) v) (sw_fs (gw_skills G))
             (sw_shell (gw_skills G) v) (sw_show_int (gw_skills G)) v (gw_root G) cmd None ''15'' of
        (r, launched) \<Rightarrow> ((r, map RanShell launched), sw_shell_after (gw_skills G) launched v)))"

definition gw_execute_skill :: "'v gateway \<Rightarrow> skill_request \<Rightarrow> 'v world \<Rightarrow> skill_response \<times> 'v world" where
  "gw_execute_skill G req = with_effects (execute_gated (gw_skills G) (gw_registry G) req)"

section \<open>A pulse\<close>

definition gw_host :: "'v gateway \<Rightarrow> 'v \<Rightarrow> 'v host" where
  "gw_host G v = \<lparr>ho_guard = sw_guard (gw_skills G), ho_threshold_env = sw_env (gw_skills G) v,
     ho_fs = sw_fs (gw_skills G), ho_world = v, ho_base = gw_heart_root G, ho_shell = sw_shell (gw_skills G) v,
     ho_show_int = sw_show_int (gw_skills G), ho_healthy = gw_healthy G v\<rparr>"

definition pulse_advance :: "'v gateway \<Rightarrow> nat \<Rightarrow> pulse \<Rightarrow> 'v world \<Rightarrow> pulse \<times> 'v world" where
  "pulse_advance G n p w =
     (case pulse_step (gw_host G (wo_env w)) (gw_ldb G) (gw_calls G (wo_env w) n) p (wo_db w) of
        ((p', launched), d) \<Rightarrow>
          (p', w\<lparr>wo_env := sw_shell_after (gw_skills G) launched (wo_env w), wo_db := d,
                wo_effects := wo_effects w @ map (\<lambda>l. (wo_env w, RanShell l)) launched\<rparr>))"

text \<open>At most \<open>n\<close> steps of a pulse; \<open>phase_left\<close> of them are enough once it has its list of tasks.\<close>

fun pulse_go :: "'v gateway \<Rightarrow> nat \<Rightarrow> pulse \<Rightarrow> 'v world \<Rightarrow> pulse \<times> 'v world" where
  "pulse_go G 0 p w = (p, w)"
| "pulse_go G (Suc n) p w =
     (if pulse_over (pu_phase p) then (p, w)
      else (case pulse_advance G n p w of (p', w') \<Rightarrow> pulse_go G n p' w'))"

text \<open>\<open>pulse_once\<close>; \<open>None\<close> when a poisoned lock made it panic.\<close>

definition gw_pulse_once :: "'v gateway \<Rightarrow> 'v world \<Rightarrow> pulse_receipt option \<times> 'v world" where
  "gw_pulse_once G w =
     (let tick = wo_ticks w + 1;
          (p1, w1) = pulse_advance G 0 (pulse_start tick (gw_now_text G (wo_env w))) (w\<lparr>wo_ticks := tick\<rparr>);
          (p2, w2) = pulse_go G (phase_left (pu_phase p1)) p1 w1
      in case pu_phase p2 of
           Finished r \<Rightarrow> (Some r, w2\<lparr>wo_pulses := wo_pulses w2 @ [r]\<rparr>)
         | _ \<Rightarrow> (None, w2))"

section \<open>Requests and responses\<close>

text \<open>
  \<open>rq_payload\<close> is what the JSON extractor gets from the body: the status it answers on its own (the content type,
  the size or the syntax), or the parsed value. \<open>rq_upgrade\<close> is the status with which the upgrade to a WebSocket
  would be refused, if it would.
\<close>

record http_request = request +
  rq_payload :: "nat + json"
  rq_upgrade :: "nat option"

record health_response =
  he_status :: string
  he_engine :: string
  he_uptime_seconds :: u64
  he_local_model :: string
  he_heartbeat_interval_seconds :: u64
  he_total_heartbeat_ticks :: u64
  he_database_mode :: string
  he_zero_disk_secrets :: bool

record chat_request =
  cq_prompt :: string
  cq_system :: "string option"
  cq_temperature :: "f32_text option"

record chat_response =
  ch_role :: string
  ch_content :: string
  ch_model :: string
  ch_duration_ms :: nat

record agent_run_request =
  aq_prompt :: string
  aq_system :: "string option"
  aq_max_turns :: "nat option"

record agent_run_response =
  ag_status :: string
  ag_prompt :: string
  ag_final_response :: string
  ag_steps :: "agent_step list"
  ag_turns_taken :: nat
  ag_duration_ms :: nat
  ag_completed :: bool

record openai_chat_request =
  oq_model :: "string option"
  oq_messages :: "(string \<times> string) list"
  oq_temperature :: "f32_text option"
  oq_max_tokens :: "u32 option"
  oq_stream :: "bool option"

record shell_response =
  sr_stdout :: string
  sr_stderr :: string
  sr_exit_code :: int
  sr_success :: bool

record probe_api_response =
  pa_model :: string
  pa_answers :: json
  pa_latency_micros :: u64

datatype body =
    NoBody
  | TextBody string
  | JsonBody json
  | HealthBody health_response
  | ChatBody chat_response
  | AgentRunBody agent_run_response
  | ShellBody shell_response
  | TasksBody "task_record list"
  | ReceiptBody pulse_receipt
  | SkillsBody "skill_definition list"
  | SkillBody skill_response
  | ProbeBody probe_api_response
  | StreamBody "(string + string) list"
  | EventsBody
  | UpgradeBody

record response =
  rs_status :: nat
  rs_headers :: "(string \<times> string) list"
  rs_body :: body

text \<open>A handler that panics drops the connection.\<close>

datatype reply = Reply response | Dropped

definition respond :: "nat \<Rightarrow> body \<Rightarrow> reply" where
  "respond st b = Reply \<lparr>rs_status = st, rs_headers = [], rs_body = b\<rparr>"

type_synonym 'v served = "'v world \<Rightarrow> reply \<times> 'v world"

section \<open>Decoding a request\<close>

fun decode_usize :: "json \<Rightarrow> nat option" where
  "decode_usize (JNumber (PosInt n)) = Some (unat n)"
| "decode_usize _ = None"

fun decode_u32 :: "json \<Rightarrow> u32 option" where
  "decode_u32 (JNumber (PosInt n)) = (if n < 2 ^ 32 then Some (ucast n) else None)"
| "decode_u32 _ = None"

fun decode_bool :: "json \<Rightarrow> bool option" where
  "decode_bool (JBool b) = Some b"
| "decode_bool _ = None"

fun decode_f32 :: "'v gateway \<Rightarrow> json \<Rightarrow> f32_text option" where
  "decode_f32 G (JNumber n) = Some (gw_f32 G n)"
| "decode_f32 G _ = None"

definition decode_chat_request :: "'v gateway \<Rightarrow> json \<Rightarrow> chat_request option" where
  "decode_chat_request G v = (case struct_fields [''prompt'', ''system'', ''temperature''] v of
     Some [p, s, t] \<Rightarrow> Option.bind (req_field as_str p) (\<lambda>p. Option.bind (opt_field as_str s) (\<lambda>s.
       map_option (\<lambda>t. \<lparr>cq_prompt = p, cq_system = s, cq_temperature = t\<rparr>) (opt_field (decode_f32 G) t)))
   | _ \<Rightarrow> None)"

definition decode_agent_run_request :: "json \<Rightarrow> agent_run_request option" where
  "decode_agent_run_request v = (case struct_fields [''prompt'', ''system'', ''max_turns''] v of
     Some [p, s, n] \<Rightarrow> Option.bind (req_field as_str p) (\<lambda>p. Option.bind (opt_field as_str s) (\<lambda>s.
       map_option (\<lambda>n. \<lparr>aq_prompt = p, aq_system = s, aq_max_turns = n\<rparr>) (opt_field decode_usize n)))
   | _ \<Rightarrow> None)"

definition decode_openai_message :: "json \<Rightarrow> (string \<times> string) option" where
  "decode_openai_message v = (case struct_fields [''role'', ''content''] v of
     Some [r, c] \<Rightarrow> Option.bind (req_field as_str r) (\<lambda>r. map_option (Pair r) (req_field as_str c))
   | _ \<Rightarrow> None)"

definition decode_openai_request :: "'v gateway \<Rightarrow> json \<Rightarrow> openai_chat_request option" where
  "decode_openai_request G v =
     (case struct_fields [''model'', ''messages'', ''temperature'', ''max_tokens'', ''stream''] v of
        Some [m, ms, t, k, s] \<Rightarrow>
          Option.bind (opt_field as_str m) (\<lambda>m. Option.bind (req_field (decode_vec decode_openai_message) ms) (\<lambda>ms.
            Option.bind (opt_field (decode_f32 G) t) (\<lambda>t. Option.bind (opt_field decode_u32 k) (\<lambda>k.
              map_option (\<lambda>s. \<lparr>oq_model = m, oq_messages = ms, oq_temperature = t, oq_max_tokens = k, oq_stream = s\<rparr>)
                (opt_field decode_bool s)))))
      | _ \<Rightarrow> None)"

definition decode_discord_request :: "json \<Rightarrow> (string \<times> string \<times> string) option" where
  "decode_discord_request v = (case struct_fields [''channel_id'', ''author'', ''content''] v of
     Some [i, a, c] \<Rightarrow> Option.bind (req_field as_str i) (\<lambda>i. Option.bind (req_field as_str a) (\<lambda>a.
       map_option (\<lambda>c. (i, a, c)) (req_field as_str c)))
   | _ \<Rightarrow> None)"

definition decode_shell_request :: "json \<Rightarrow> string option" where
  "decode_shell_request v = (case struct_fields [''command''] v of Some [c] \<Rightarrow> req_field as_str c | _ \<Rightarrow> None)"

definition decode_task_request :: "json \<Rightarrow> (string \<times> string) option" where
  "decode_task_request v = (case struct_fields [''task_type'', ''payload''] v of
     Some [t, p] \<Rightarrow> Option.bind (req_field as_str t) (\<lambda>t. map_option (Pair t) (req_field as_str p))
   | _ \<Rightarrow> None)"

definition decode_skill_request :: "json \<Rightarrow> skill_request option" where
  "decode_skill_request v = (case struct_fields [''skill_name'', ''arguments''] v of
     Some [n, a] \<Rightarrow> Option.bind (req_field as_str n) (\<lambda>n. map_option (\<lambda>a. \<lparr>sq_skill = n, sq_arguments = a\<rparr>) a)
   | _ \<Rightarrow> None)"

definition decode_probe_request :: "'v gateway \<Rightarrow> json \<Rightarrow> (json \<times> json) option" where
  "decode_probe_request G v = (case struct_fields [''state'', ''probes''] v of
     Some [s, p] \<Rightarrow> Option.bind s (\<lambda>s.
       map_option (Pair s) (req_field (\<lambda>p. if gw_probe_set_ok G p then Some p else None) p))
   | _ \<Rightarrow> None)"

text \<open>The \<open>Json\<close> extractor: its own refusal, 422 for a value of the wrong shape, or the handler.\<close>

definition with_json :: "(json \<Rightarrow> 'a option) \<Rightarrow> ('a \<Rightarrow> 'v served) \<Rightarrow> http_request \<Rightarrow> 'v served" where
  "with_json d handler req w =
     (case rq_payload req of
        Inl st \<Rightarrow> (respond st NoBody, w)
      | Inr v \<Rightarrow> (case d v of None \<Rightarrow> (respond 422 NoBody, w) | Some p \<Rightarrow> handler p w))"

section \<open>The handlers\<close>

definition health_handler :: "'v gateway \<Rightarrow> 'v served" where
  "health_handler G w =
     (respond 200 (HealthBody \<lparr>he_status = ''healthy'', he_engine = ''aegis-runtime/0.2.0'',
        he_uptime_seconds = gw_uptime G (wo_env w), he_local_model = en_model_id (gw_engine G),
        he_heartbeat_interval_seconds = gw_interval G, he_total_heartbeat_ticks = wo_ticks w,
        he_database_mode = ''sqlite-wal'', he_zero_disk_secrets = True\<rparr>), w)"

text \<open>What follows a recorded turn, whose own error is ignored.\<close>

definition after_turn :: "unit called \<times> 'v world \<Rightarrow> ('v world \<Rightarrow> reply) \<Rightarrow> reply \<times> 'v world" where
  "after_turn rw k = (case rw of (LockPanic, w) \<Rightarrow> (Dropped, w) | (Returned _, w) \<Rightarrow> (k w, w))"

definition chat_handler :: "'v gateway \<Rightarrow> chat_request \<Rightarrow> 'v served" where
  "chat_handler G q w =
     (case on_env (generate (gw_engine G) (cq_prompt q) (cq_system q) (cq_temperature q)) w of
        (Inl e, w1) \<Rightarrow> (respond 500 (TextBody e), w1)
      | (Inr response, w1) \<Rightarrow>
          (let ms = gw_elapsed_ms G (wo_env w1)
           in after_turn (gw_record_turn G ''user'' (cq_prompt q) response (of_nat ms) w1)
                (\<lambda>_. respond 200 (ChatBody \<lparr>ch_role = ''assistant'', ch_content = response,
                   ch_model = en_model_id (gw_engine G), ch_duration_ms = ms\<rparr>))))"

definition agent_run_handler :: "'v gateway \<Rightarrow> agent_run_request \<Rightarrow> 'v served" where
  "agent_run_handler G q w =
     (case gw_execute_task G (aq_prompt q) (aq_system q) (or_default 8 (aq_max_turns q)) w of
        (None, w1) \<Rightarrow> (Dropped, w1)
      | (Some (Inl e), w1) \<Rightarrow> (respond 500 (TextBody e), w1)
      | (Some (Inr r), w1) \<Rightarrow>
          (respond 200 (AgentRunBody \<lparr>ag_status = ''completed'', ag_prompt = aq_prompt q,
             ag_final_response = ar_final_response r, ag_steps = ar_steps r, ag_turns_taken = ar_turns_taken r,
             ag_duration_ms = ar_duration_ms r, ag_completed = ar_completed r\<rparr>), w1))"

definition api_error :: "string \<Rightarrow> string \<Rightarrow> string \<Rightarrow> json" where
  "api_error msg param code = json_object [(''error'', json_object [(''message'', JString msg),
     (''type'', JString ''invalid_request_error''), (''param'', JString param), (''code'', JString code)])]"

definition supported_model :: "'v gateway \<Rightarrow> string \<Rightarrow> bool" where
  "supported_model G m \<longleftrightarrow>
     m \<in> {en_model_id (gw_engine G), ''atlas-lightning-omni'', ''aegis-default'', ''default''}"

text \<open>The last message of the user, or \<open>"hello"\<close>.\<close>

definition last_user_prompt :: "(string \<times> string) list \<Rightarrow> string" where
  "last_user_prompt ms = (case List.find (\<lambda>(r, c). r = ''user'') (rev ms) of Some (r, c) \<Rightarrow> c | None \<Rightarrow> ''hello'')"

definition int_json :: "int \<Rightarrow> json" where
  "int_json n = JNumber (if 0 \<le> n then PosInt (of_int n) else NegInt n)"

definition nat_json :: "nat \<Rightarrow> json" where
  "nat_json n = JNumber (PosInt (of_nat n))"

definition completion_json :: "'v gateway \<Rightarrow> 'v \<Rightarrow> string \<Rightarrow> string \<Rightarrow> json" where
  "completion_json G v prompt response =
     (let p = length (split_whitespace prompt); c = length (split_whitespace response)
      in json_object [(''id'', JString (''chatcmpl-'' @ gw_uuid G v)), (''object'', JString ''chat.completion''),
           (''created'', int_json (gw_now_secs G v)), (''model'', JString (en_model_id (gw_engine G))),
           (''choices'', JArray [json_object [(''index'', nat_json 0),
              (''message'', role_message ''assistant'' response), (''finish_reason'', JString ''stop'')]]),
           (''usage'', json_object [(''prompt_tokens'', nat_json p), (''completion_tokens'', nat_json c),
              (''total_tokens'', nat_json (p + c))])])"

definition fallback_chunk :: "'v gateway \<Rightarrow> 'v \<Rightarrow> string \<Rightarrow> json" where
  "fallback_chunk G v prompt =
     json_object [(''id'', JString (''chatcmpl-'' @ gw_uuid G v)), (''object'', JString ''chat.completion.chunk''),
       (''choices'', JArray [json_object [(''delta'', json_object [(''content'', JString (''[Fallback]: '' @ prompt))]),
          (''index'', nat_json 0), (''finish_reason'', JString ''stop'')]])]"

definition openai_stream :: "'v gateway \<Rightarrow> json list \<Rightarrow> openai_chat_request \<Rightarrow> 'v served" where
  "openai_stream G messages q w =
     (case on_env (en_stream_chat (gw_engine G) messages (oq_temperature q) (oq_max_tokens q)) w of
        (Inr chunks, w1) \<Rightarrow>
          (Reply \<lparr>rs_status = 200, rs_headers = [(''content-type'', ''text/event-stream''), (''cache-control'', ''no-cache''),
             (''connection'', ''keep-alive'')], rs_body = StreamBody chunks\<rparr>, w1)
      | (Inl _, w1) \<Rightarrow>
          (Reply \<lparr>rs_status = 200, rs_headers = [(''content-type'', ''text/event-stream'')],
             rs_body = TextBody (sse_data (gw_show_json G
               (fallback_chunk G (wo_env w1) (last_user_prompt (oq_messages q)))))\<rparr>, w1))"

definition openai_complete :: "'v gateway \<Rightarrow> json list \<Rightarrow> openai_chat_request \<Rightarrow> 'v served" where
  "openai_complete G messages q w =
     (case on_env (en_generate_chat (gw_engine G) messages (oq_temperature q) (oq_max_tokens q)) w of
        (Inl e, w1) \<Rightarrow> (respond 500 (TextBody e), w1)
      | (Inr response, w1) \<Rightarrow>
          (let prompt = last_user_prompt (oq_messages q)
           in after_turn (gw_record_turn G ''user'' prompt response (of_nat (gw_elapsed_ms G (wo_env w1))) w1)
                (\<lambda>w2. respond 200 (JsonBody (completion_json G (wo_env w2) prompt response)))))"

definition openai_completions_handler :: "'v gateway \<Rightarrow> openai_chat_request \<Rightarrow> 'v served" where
  "openai_completions_handler G q w =
     (if oq_messages q = [] then
        (respond 400 (JsonBody (api_error
           ''Missing required parameter: 'messages' must contain at least one message.'' ''messages''
           ''missing_required_parameter'')), w)
      else if (case oq_model q of
          Some m \<Rightarrow> \<not> supported_model G m | None \<Rightarrow> False) then
        (respond 404 (JsonBody (api_error (''The model '' @ quoted (or_default [] (oq_model q)) @
           '' does not exist or is not supported.'') ''model'' ''model_not_found'')), w)
      else (let messages = map (\<lambda>(r, c). role_message r c) (oq_messages q)
            in if oq_stream q = Some True then openai_stream G messages q w else openai_complete G messages q w))"

definition openai_models_handler :: "'v gateway \<Rightarrow> 'v served" where
  "openai_models_handler G w =
     (respond 200 (JsonBody (json_object [(''object'', JString ''list''),
        (''data'', JArray [json_object [(''id'', JString (en_model_id (gw_engine G))), (''object'', JString ''model''),
           (''created'', nat_json 1789783086), (''owned_by'', JString ''aegis-runtime'')]])])), w)"

text \<open>
  The event stream carries what is broadcast from then on; a reader that fell behind loses receipts silently
  (\<open>None\<close>).
\<close>

definition sse_events_handler :: "'v served" where
  "sse_events_handler w = (respond 200 EventsBody, w)"

definition sse_events :: "'v gateway \<Rightarrow> pulse_receipt option list \<Rightarrow> (string \<times> string) list" where
  "sse_events G items = List.map_filter
     (map_option (\<lambda>r. (''heartbeat'', or_default [] (gw_receipt_text G r)))) items"

definition discord_relay_handler :: "'v gateway \<Rightarrow> string \<times> string \<times> string \<Rightarrow> 'v served" where
  "discord_relay_handler G q w = (case q of (channel, author, content) \<Rightarrow>
     (case on_env (generate (gw_engine G)
              (''[Discord from '' @ author @ '' in '' @ channel @ '']: '' @ content) None None) w of
        (r, w1) \<Rightarrow>
          (let answer = (case r of Inr a \<Rightarrow> a | Inl e \<Rightarrow> ''Error: '' @ e)
           in after_turn (gw_record_turn G author content answer 10 w1)
                (\<lambda>w2. respond 200 (JsonBody (json_object [(''status'', JString ''relayed''), (''reply'', JString answer),
                   (''timestamp'', JString (gw_now_text G (wo_env w2)))]))))))"

definition shell_handler :: "'v gateway \<Rightarrow> string \<Rightarrow> 'v served" where
  "shell_handler G cmd w =
     (case gw_shell G cmd w of
        (Inr out, w1) \<Rightarrow>
          (respond 200 (ShellBody \<lparr>sr_stdout = out, sr_stderr = [], sr_exit_code = 0, sr_success = True\<rparr>), w1)
      | (Inl e, w1) \<Rightarrow>
          (respond 200 (ShellBody \<lparr>sr_stdout = [], sr_stderr = show_security_error e, sr_exit_code = 1,
             sr_success = False\<rparr>), w1))"

definition create_task_handler :: "'v gateway \<Rightarrow> string \<times> string \<Rightarrow> 'v served" where
  "create_task_handler G q w = (case q of (ty, payload) \<Rightarrow>
     (let i = ''task-'' @ gw_uuid G (wo_env w)
      in case on_db G (\<lambda>E. create_task (gw_ldb G) E i ty payload) w of
           (LockPanic, w1) \<Rightarrow> (Dropped, w1)
         | (Returned (Inl e), w1) \<Rightarrow> (respond 500 (TextBody e), w1)
         | (Returned (Inr _), w1) \<Rightarrow>
             (respond 200 (JsonBody (json_object [(''status'', JString ''created''), (''id'', JString i),
                (''task_type'', JString ty)])), w1)))"

definition list_tasks_handler :: "'v gateway \<Rightarrow> 'v served" where
  "list_tasks_handler G w =
     (case on_db G (list_pending_tasks (gw_ldb G)) w of
        (LockPanic, w1) \<Rightarrow> (Dropped, w1)
      | (Returned (Inl e), w1) \<Rightarrow> (respond 500 (TextBody e), w1)
      | (Returned (Inr ts), w1) \<Rightarrow> (respond 200 (TasksBody ts), w1))"

definition trigger_heartbeat_handler :: "'v gateway \<Rightarrow> 'v served" where
  "trigger_heartbeat_handler G w =
     (case gw_pulse_once G w of
        (None, w1) \<Rightarrow> (Dropped, w1)
      | (Some r, w1) \<Rightarrow> (respond 200 (ReceiptBody r), w1))"

definition list_skills_handler :: "'v gateway \<Rightarrow> 'v served" where
  "list_skills_handler G w =
     (respond 200 (SkillsBody (advertised_skills (gw_keys G (wo_env w)) (gw_registry G))), w)"

definition execute_skill_handler :: "'v gateway \<Rightarrow> skill_request \<Rightarrow> 'v served" where
  "execute_skill_handler G q w = (case gw_execute_skill G q w of (r, w1) \<Rightarrow> (respond 200 (SkillBody r), w1))"

definition probe_handler :: "'v gateway \<Rightarrow> json \<times> json \<Rightarrow> 'v served" where
  "probe_handler G q w = (case q of (state, probes) \<Rightarrow>
     (case gw_probe G state probes of
        Inl e \<Rightarrow> (respond 500 (TextBody e), w)
      | Inr (answers, latency) \<Rightarrow>
          (respond 200 (ProbeBody \<lparr>pa_model = ''aien-sovereign-gb10'', pa_answers = answers,
             pa_latency_micros = latency\<rparr>), w)))"

definition ws_handler :: "http_request \<Rightarrow> 'v served" where
  "ws_handler req w = (case rq_upgrade req of
     Some st \<Rightarrow> (respond st NoBody, w) | None \<Rightarrow> (respond 101 UpgradeBody, w))"

section \<open>The WebSocket\<close>

text \<open>
  What the socket's loop wakes up for: a receipt broadcast by the heartbeat (\<open>None\<close> when the reader fell behind
  and receipts were lost), a text message, a message of another kind, or the end of the stream (closed or
  broken). Each comes with whether sending the answer succeeds.
\<close>

datatype ws_event = WsPulse "pulse_receipt option" | WsText string | WsOther | WsEnd

text \<open>An answer, with whether a failure to send it ends the loop; or a panic.\<close>

datatype ws_reply = Answer json bool | WsPanic

record 'v socket =
  sk_world :: "'v world"
  sk_sent :: "json list"
  sk_open :: bool

definition typed_json :: "string \<Rightarrow> (string \<times> json) list \<Rightarrow> json" where
  "typed_json ty entries = json_object ((''type'', JString ty) # entries)"

definition stamp :: "'v gateway \<Rightarrow> 'v world \<Rightarrow> string \<times> json" where
  "stamp G w = (''timestamp'', JString (gw_now_text G (wo_env w)))"

definition skill_json :: "skill_definition \<Rightarrow> json" where
  "skill_json sd = json_object [(''name'', JString (sd_name sd)), (''description'', JString (sd_description sd)),
     (''parameters_schema'', sd_parameters sd), (''advertised'', JBool (sd_advertised sd))]"

definition skill_response_json :: "skill_response \<Rightarrow> json" where
  "skill_response_json r = json_object [(''success'', JBool (sp_success r)), (''output'', JString (sp_output r)),
     (''error'', (case sp_error r of Some e \<Rightarrow> JString e | None \<Rightarrow> JNull))]"

definition welcome_json :: "'v gateway \<Rightarrow> 'v world \<Rightarrow> json" where
  "welcome_json G w = typed_json ''welcome'' [(''gateway'', JString ''aegis-runtime''),
     (''engine'', JString ''AEGIS WebSocket Gateway''), (''status'', JString ''connected''), stamp G w]"

definition ws_heartbeat :: "'v gateway \<Rightarrow> 'v world \<Rightarrow> ws_reply \<times> 'v world" where
  "ws_heartbeat G w = (case gw_pulse_once G w of
       (None, w1) \<Rightarrow> (WsPanic, w1)
     | (Some r, w1) \<Rightarrow> (Answer (typed_json ''heartbeat_receipt'' [(''receipt'', receipt_json r)]) False, w1))"

definition ws_skill_exec :: "'v gateway \<Rightarrow> json \<Rightarrow> 'v world \<Rightarrow> ws_reply \<times> 'v world" where
  "ws_skill_exec G parsed w =
     (case gw_execute_skill G \<lparr>sq_skill = get_str_or [] ''skill_name'' parsed,
             sq_arguments = or_default (json_object []) (json_get parsed ''arguments'')\<rparr> w of
        (r, w1) \<Rightarrow> (Answer (typed_json ''skill_result'' [(''response'', skill_response_json r)]) False, w1))"

definition ws_agent_run :: "'v gateway \<Rightarrow> json \<Rightarrow> 'v world \<Rightarrow> ws_reply \<times> 'v world" where
  "ws_agent_run G parsed w =
     (case gw_execute_task G (get_str_or [] ''prompt'' parsed) None
             (unat (or_default 8 (Option.bind (json_get parsed ''max_turns'') as_u64))) w of
        (None, w1) \<Rightarrow> (WsPanic, w1)
      | (Some (Inr r), w1) \<Rightarrow> (Answer (typed_json ''agent_result'' [(''result'', gw_result_json G r)]) False, w1)
      | (Some (Inl e), w1) \<Rightarrow> (Answer (typed_json ''agent_error'' [(''error'', JString e)]) False, w1))"

definition ws_shell :: "'v gateway \<Rightarrow> json \<Rightarrow> 'v world \<Rightarrow> ws_reply \<times> 'v world" where
  "ws_shell G parsed w =
     (case gw_shell G (get_str_or ''echo shell ready'' ''command'' parsed) w of
        (Inr out, w1) \<Rightarrow> (Answer (typed_json ''shell_output'' [(''stdout'', JString out), (''stderr'', JString []),
           (''exit_code'', nat_json 0)]) False, w1)
      | (Inl e, w1) \<Rightarrow> (Answer (typed_json ''shell_error'' [(''error'', JString (show_security_error e))]) False, w1))"

definition ws_simd_eval :: "'v gateway \<Rightarrow> ws_reply" where
  "ws_simd_eval G = Answer (typed_json ''simd_result'' [(''cosine_similarity'', gw_f32_json G
     (cosine_similarity [lit 1, lit 0, lit 0, lit 0] [lit 1, lit 0, lit 0, lit 0]))]) False"

text \<open>The default of the match: the message is a prompt, the whole text when it has no \<open>content\<close>.\<close>

definition ws_chat :: "'v gateway \<Rightarrow> string \<Rightarrow> json \<Rightarrow> 'v world \<Rightarrow> ws_reply \<times> 'v world" where
  "ws_chat G txt parsed w =
     (let prompt = get_str_or txt ''content'' parsed
      in case on_env (generate (gw_engine G) prompt None None) w of
           (Inl e, w1) \<Rightarrow> (Answer (typed_json ''error'' [(''message'', JString e)]) True, w1)
         | (Inr answer, w1) \<Rightarrow>
             (let ms = gw_elapsed_ms G (wo_env w1)
              in case gw_record_turn G ''ws_user'' prompt answer (of_nat ms) w1 of
                   (LockPanic, w2) \<Rightarrow> (WsPanic, w2)
                 | (Returned _, w2) \<Rightarrow> (Answer (typed_json ''response'' [(''content'', JString answer),
                     (''duration_ms'', nat_json ms), stamp G w2]) True, w2)))"

definition ws_answer :: "'v gateway \<Rightarrow> string \<Rightarrow> json \<Rightarrow> 'v world \<Rightarrow> ws_reply \<times> 'v world" where
  "ws_answer G txt parsed w =
     (let ty = get_str_or ''chat'' ''type'' parsed
      in if ty = ''ping'' then (Answer (typed_json ''pong'' [stamp G w]) False, w)
         else if ty = ''heartbeat'' then ws_heartbeat G w
         else if ty = ''skills_list'' then
           (Answer (typed_json ''skills_list'' [(''skills'', JArray (map skill_json
              (advertised_skills (gw_keys G (wo_env w)) (gw_registry G))))]) False, w)
         else if ty = ''skill_exec'' then ws_skill_exec G parsed w
         else if ty = ''agent_run'' then ws_agent_run G parsed w
         else if ty = ''shell'' then ws_shell G parsed w
         else if ty = ''simd_eval'' then (ws_simd_eval G, w)
         else ws_chat G txt parsed w)"

definition ws_send :: "json \<Rightarrow> bool \<Rightarrow> bool \<Rightarrow> 'v socket \<Rightarrow> 'v socket" where
  "ws_send j sent_ok break_on_failure s =
     (if sent_ok then s\<lparr>sk_sent := sk_sent s @ [j]\<rparr> else s\<lparr>sk_open := \<not> break_on_failure\<rparr>)"

text \<open>One round of the loop. A text that is not JSON is passed over.\<close>

definition ws_step :: "'v gateway \<Rightarrow> ws_event \<times> bool \<Rightarrow> 'v socket \<Rightarrow> 'v socket" where
  "ws_step G ev s = (case ev of (event, sent_ok) \<Rightarrow>
     if \<not> sk_open s then s
     else (case event of
         WsPulse (Some r) \<Rightarrow> ws_send (typed_json ''heartbeat_pulse'' [(''receipt'', receipt_json r)]) sent_ok True s
       | WsPulse None \<Rightarrow> s
       | WsOther \<Rightarrow> s
       | WsEnd \<Rightarrow> s\<lparr>sk_open := False\<rparr>
       | WsText txt \<Rightarrow>
           (case lib_from_str (gw_libs G) txt of
              None \<Rightarrow> s
            | Some parsed \<Rightarrow>
                (case ws_answer G txt parsed (sk_world s) of
                   (WsPanic, w1) \<Rightarrow> s\<lparr>sk_world := w1, sk_open := False\<rparr>
                 | (Answer j brk, w1) \<Rightarrow> ws_send j sent_ok brk (s\<lparr>sk_world := w1\<rparr>)))))"

definition open_socket :: "'v gateway \<Rightarrow> bool \<Rightarrow> 'v world \<Rightarrow> 'v socket" where
  "open_socket G sent_ok w =
     ws_send (welcome_json G w) sent_ok True \<lparr>sk_world = w, sk_sent = [], sk_open = True\<rparr>"

definition handle_socket :: "'v gateway \<Rightarrow> bool \<Rightarrow> (ws_event \<times> bool) list \<Rightarrow> 'v world \<Rightarrow> 'v socket" where
  "handle_socket G sent_ok events w = fold (ws_step G) events (open_socket G sent_ok w)"

section \<open>The router\<close>

datatype endpoint = HealthEp | ChatEp | AgentRunEp | TickEp | EventsEp | DiscordEp | ShellEp | CreateTaskEp
  | ListTasksEp | ListSkillsEp | ExecuteSkillEp | CompletionsEp | ModelsEp | ProbeEp | WsEp

definition routes :: "(string \<times> (http_method \<times> endpoint) list) list" where
  "routes =
     [(''/health'', [(Get, HealthEp)]), (''/api/v1/health'', [(Get, HealthEp)]), (''/api/v1/chat'', [(Post, ChatEp)]),
      (''/api/v1/agent/run'', [(Post, AgentRunEp)]), (''/api/v1/heartbeat/tick'', [(Post, TickEp)]),
      (''/api/v1/events'', [(Get, EventsEp)]), (''/events'', [(Get, EventsEp)]),
      (''/api/v1/discord/relay'', [(Post, DiscordEp)]), (''/api/v1/shell'', [(Post, ShellEp)]),
      (''/api/v1/tasks'', [(Post, CreateTaskEp), (Get, ListTasksEp)]), (''/api/v1/skills'', [(Get, ListSkillsEp)]),
      (''/api/v1/skills/execute'', [(Post, ExecuteSkillEp)]), (''/v1/chat/completions'', [(Post, CompletionsEp)]),
      (''/v1/models'', [(Get, ModelsEp)]), (''/v1/probe'', [(Post, ProbeEp)]), (''/ws'', [(Get, WsEp)]),
      (''/api/v1/ws'', [(Get, WsEp)])]"

definition serve_endpoint :: "'v gateway \<Rightarrow> endpoint \<Rightarrow> http_request \<Rightarrow> 'v served" where
  "serve_endpoint G e req = (case e of
       HealthEp \<Rightarrow> health_handler G
     | ChatEp \<Rightarrow> with_json (decode_chat_request G) (chat_handler G) req
     | AgentRunEp \<Rightarrow> with_json decode_agent_run_request (agent_run_handler G) req
     | TickEp \<Rightarrow> trigger_heartbeat_handler G
     | EventsEp \<Rightarrow> sse_events_handler
     | DiscordEp \<Rightarrow> with_json decode_discord_request (discord_relay_handler G) req
     | ShellEp \<Rightarrow> with_json decode_shell_request (shell_handler G) req
     | CreateTaskEp \<Rightarrow> with_json decode_task_request (create_task_handler G) req
     | ListTasksEp \<Rightarrow> list_tasks_handler G
     | ListSkillsEp \<Rightarrow> list_skills_handler G
     | ExecuteSkillEp \<Rightarrow> with_json decode_skill_request (execute_skill_handler G) req
     | CompletionsEp \<Rightarrow> with_json (decode_openai_request G) (openai_completions_handler G) req
     | ModelsEp \<Rightarrow> openai_models_handler G
     | ProbeEp \<Rightarrow> with_json (decode_probe_request G) (probe_handler G) req
     | WsEp \<Rightarrow> ws_handler req)"

text \<open>
  What the web framework does around the handlers: a route's path is compared as a whole, a handler for \<open>GET\<close>
  also answers \<open>HEAD\<close>, without the body; another method is answered 405 and another path 404. The CORS layer
  answers every \<open>OPTIONS\<close> request itself, before the middleware.
\<close>

definition without_body :: "reply \<Rightarrow> reply" where
  "without_body rp = (case rp of Reply rs \<Rightarrow> Reply (rs\<lparr>rs_body := NoBody\<rparr>) | Dropped \<Rightarrow> Dropped)"

definition dispatch_request :: "'v gateway \<Rightarrow> http_request \<Rightarrow> 'v served" where
  "dispatch_request G req w =
     (case map_of routes (rq_path req) of
        None \<Rightarrow> (respond 404 NoBody, w)
      | Some methods \<Rightarrow>
          (case map_of methods (if rq_method req = Head then Get else rq_method req) of
             None \<Rightarrow> (respond 405 NoBody, w)
           | Some e \<Rightarrow> (case serve_endpoint G e req w of
               (rp, w1) \<Rightarrow> (if rq_method req = Head then without_body rp else rp, w1))))"

definition error_json :: "string \<Rightarrow> body" where
  "error_json msg = JsonBody (json_object [(''error'', JString msg)])"

definition serve_request :: "'v gateway \<Rightarrow> http_request \<Rightarrow> 'v served" where
  "serve_request G req w =
     (if rq_method req = OtherMethod ''OPTIONS'' then (respond 200 NoBody, w)
      else (case require_operator (gw_auth G) (request.truncate req) of
          Forward \<Rightarrow> dispatch_request G req w
        | ServiceUnavailable \<Rightarrow>
            (respond 503 (error_json ''operator token not configured; protected routes are disabled''), w)
        | Unauthorized \<Rightarrow>
            (Reply \<lparr>rs_status = 401, rs_headers = [(''www-authenticate'', ''Bearer'')],
               rs_body = error_json ''operator token required''\<rparr>, w)))"

end
