(* ===== verification/GatewayProps.thy ===== *)
theory GatewayProps
  imports Gateway
begin

text \<open>
  What the gateway keeps and what it refuses. The locale \<open>gateway_keeps\<close> is the contract between the gateway and the
  parts it calls: a property of the world that a change of the outside, an effect inside the workspace, a change
  of the database that leaves the tasks alone, the creation of a task and a whole pulse keep is kept by every
  request and by every round of a socket. It is interpreted here on the containment of effects.
\<close>

section \<open>What keeps a property of the world\<close>

lemma shell_effects:
  assumes "dispatch_shell_gated (sw_guard W) env (sw_fs W) sh show_code v base cmd None ''15'' = (r, ls)"
  shows "\<forall>l\<in>set ls. effect_inside W v base (RanShell l)"
proof (cases ls)
  case (Cons l ls')
  with assms have "dispatch_shell (sw_guard W) (sw_fs W) sh show_code v base cmd None ''15'' = (r, ls)"
    by (auto simp: dispatch_shell_gated_def split: sum.splits)
  from dispatch_shell_launches [OF this] show ?thesis by (auto simp: local_forms_def)
qed simp

lemma ws_send_world [simp]: "sk_world (ws_send j ok brk s) = sk_world s"
  by (simp add: ws_send_def)

locale gateway_keeps =
  fixes G :: "'v gateway" and inv :: "'v world \<Rightarrow> bool"
  assumes env_law: "inv w \<Longrightarrow> inv (w\<lparr>wo_env := v\<rparr>)"
    and effects_law: "inv w \<Longrightarrow> \<forall>e\<in>set es. effect_inside (gw_skills G) (wo_env w) (gw_root G) e \<Longrightarrow>
      inv (w\<lparr>wo_env := v, wo_effects := wo_effects w @ map (Pair (wo_env w)) es\<rparr>)"
    and tasks_law: "inv w \<Longrightarrow> lg_tasks d = lg_tasks (wo_db w) \<Longrightarrow> inv (w\<lparr>wo_db := d\<rparr>)"
    and create_law: "inv w \<Longrightarrow> create_task (gw_ldb G) (gw_calls G (wo_env w) 0) i ty payload (wo_db w) = (r, d) \<Longrightarrow>
      inv (w\<lparr>wo_db := d\<rparr>)"
    and pulse_law: "inv w \<Longrightarrow> gw_pulse_once G w = (rc, w') \<Longrightarrow> inv w'"
begin

lemma on_env_ok: "on_env f w = (a, w') \<Longrightarrow> inv w \<Longrightarrow> inv w'"
  by (auto simp: on_env_def env_law split: prod.splits)

lemma with_effects_ok:
  assumes "with_effects f w = (a, w')" "inv w" "\<And>v. \<forall>e\<in>set (snd (fst (f v))). effect_inside (gw_skills G) v (gw_root G) e"
  shows "inv w'"
proof -
  obtain r es v where f: "f (wo_env w) = ((r, es), v)" by (metis prod.exhaust)
  with assms(3) [of "wo_env w"] have "\<forall>e\<in>set es. effect_inside (gw_skills G) (wo_env w) (gw_root G) e" by simp
  from effects_law [OF assms(2) this] assms(1) f show ?thesis by (auto simp: with_effects_def)
qed

lemma record_turn_ok: "gw_record_turn G rl p a ms w = (r, w') \<Longrightarrow> inv w \<Longrightarrow> inv w'"
  by (auto simp: gw_record_turn_def on_db_def intro!: tasks_law dest: record_turn_tasks split: prod.splits)

lemma shell_ok: "gw_shell G cmd w = (r, w') \<Longrightarrow> inv w \<Longrightarrow> inv w'"
  unfolding gw_shell_def by (erule with_effects_ok) (auto dest!: shell_effects split: prod.splits simp del: effect_inside.simps)

lemma skill_ok: "gw_execute_skill G q w = (r, w') \<Longrightarrow> inv w \<Longrightarrow> inv w'"
  unfolding gw_execute_skill_def
proof (erule with_effects_ok)
  show "\<forall>e\<in>set (snd (fst (execute_gated (gw_skills G) (gw_registry G) q v))). effect_inside (gw_skills G) v (gw_root G) e" for v
    by (rule executed_effects(1) [of _ _ _ q v]) simp
qed

lemmas pulse_ok = pulse_law [rotated]

text \<open>The agent's tasks.\<close>

lemma dispatch_ok: "inv w \<Longrightarrow> inv (snd (ae_dispatch (gateway_agent G v) name args w))"
proof -
  assume w: "inv w"
  have "\<forall>e\<in>set (snd (fst (dispatch_classified (gw_skills G) (gw_registry G) name args v))). effect_inside (gw_skills G) v (gw_root G) e" for v
    by (rule executed_effects(1) [of _ _ _ "\<lparr>sq_skill = name, sq_arguments = args\<rparr>" v]) simp
  with w show ?thesis by (auto simp: gateway_agent_def intro!: with_effects_ok [OF prod.collapse [symmetric]])
qed

lemma agent_keeps: "task_keeps (gateway_agent G v) inv"
proof
  show "inv (snd (en_chat_with_tools (ae_engine (gateway_agent G v)) ms ts t k w))" if "inv w" for w ms ts t k
    using that by (auto simp: gateway_agent_def intro: on_env_ok [OF prod.collapse [symmetric]])
  show "inv (snd (ae_dispatch (gateway_agent G v) name args w))" if "inv w" for w name args
    using that by (rule dispatch_ok)
  show "inv (db rl goal final ms w)" if "ae_turn_db (gateway_agent G v) = Some db" "inv w" for db rl goal final ms w
    using that by (auto simp: gateway_agent_def intro: record_turn_ok [OF prod.collapse [symmetric]])
qed (simp add: gateway_agent_def)

lemma task_ok: "gw_execute_task G goal sys n w = (r, w') \<Longrightarrow> inv w \<Longrightarrow> inv w'"
  using task_keeps.task_keeps_world [OF agent_keeps, of w "wo_env w" goal sys n]
  by (auto simp: gw_execute_task_def split: prod.splits sum.splits if_splits)

text \<open>The handlers.\<close>

lemma after_turn_ok:
  assumes "after_turn rw k = (rp, w')" "inv (snd rw)"
  shows "inv w'"
  using assms by (auto simp: after_turn_def split: prod.splits called.splits)

lemma with_json_ok:
  assumes "with_json d handler req w = (rp, w')" "inv w"
    "\<And>p rp w'. handler p w = (rp, w') \<Longrightarrow> inv w'"
  shows "inv w'"
  using assms by (auto simp: with_json_def split: sum.splits option.splits)

lemma turn_then_ok:
  assumes "after_turn (gw_record_turn G rl p a ms w1) k = (rp, w')" "inv w1"
  shows "inv w'"
  using assms(1) by (rule after_turn_ok) (use record_turn_ok [OF prod.collapse [symmetric] assms(2)] in simp)

lemma chat_ok: "chat_handler G q w = (rp, w') \<Longrightarrow> inv w \<Longrightarrow> inv w'"
  unfolding chat_handler_def Let_def
  by (auto split: prod.splits sum.splits dest!: on_env_ok  elim!: turn_then_ok)

lemma agent_run_ok: "agent_run_handler G q w = (rp, w') \<Longrightarrow> inv w \<Longrightarrow> inv w'"
  unfolding agent_run_handler_def by (auto split: prod.splits option.splits sum.splits dest!: task_ok)

lemma completions_ok:
  assumes "openai_completions_handler G q w = (rp, w')" "inv w"
  shows "inv w'"
proof -
  have "inv u" if "openai_stream G ms q w = (rp, u)" for ms u
    using that assms(2) unfolding openai_stream_def
    by (auto split: prod.splits sum.splits dest!: on_env_ok )
  moreover have "inv u" if "openai_complete G ms q w = (rp, u)" for ms u
    using that assms(2) unfolding openai_complete_def Let_def
    by (auto split: prod.splits sum.splits dest!: on_env_ok  elim!: turn_then_ok)
  ultimately show ?thesis
    using assms unfolding openai_completions_handler_def Let_def by (auto split: if_splits)
qed

lemma discord_ok: "discord_relay_handler G q w = (rp, w') \<Longrightarrow> inv w \<Longrightarrow> inv w'"
  unfolding discord_relay_handler_def Let_def
  by (auto split: prod.splits dest!: on_env_ok  elim!: turn_then_ok)

lemma create_task_ok: "create_task_handler G q w = (rp, w') \<Longrightarrow> inv w \<Longrightarrow> inv w'"
  unfolding create_task_handler_def Let_def
  by (auto split: prod.splits called.splits sum.splits simp: on_db_def intro: create_law)

lemma list_tasks_ok: "list_tasks_handler G w = (rp, w') \<Longrightarrow> inv w \<Longrightarrow> inv w'"
  unfolding list_tasks_handler_def
  by (auto split: prod.splits called.splits sum.splits simp: on_db_def dest!: list_pending_same)

lemma endpoint_ok:
  assumes "serve_endpoint G e req w = (rp, w')" "inv w"
  shows "inv w'"
proof (cases e)
  case ShellEp
  have "inv u" if "shell_handler G c w = (x, u)" for c x u
    using that assms(2) unfolding shell_handler_def by (auto split: prod.splits sum.splits dest!: shell_ok)
  with ShellEp assms show ?thesis by (auto simp: serve_endpoint_def elim!: with_json_ok)
next
  case ExecuteSkillEp
  have "inv u" if "execute_skill_handler G c w = (x, u)" for c x u
    using that assms(2) unfolding execute_skill_handler_def by (auto split: prod.splits dest!: skill_ok)
  with ExecuteSkillEp assms show ?thesis by (auto simp: serve_endpoint_def elim!: with_json_ok)
next
  case ProbeEp
  have "u = w" if "probe_handler G c w = (x, u)" for c x u
    using that unfolding probe_handler_def by (auto split: prod.splits sum.splits)
  with ProbeEp assms show ?thesis by (auto simp: serve_endpoint_def elim!: with_json_ok)
next
  case TickEp
  with assms show ?thesis
    by (auto simp: serve_endpoint_def trigger_heartbeat_handler_def split: prod.splits option.splits dest!: pulse_ok)
next
  case WsEp
  with assms show ?thesis by (auto simp: serve_endpoint_def ws_handler_def split: option.splits)
qed (use assms in \<open>auto simp: serve_endpoint_def health_handler_def sse_events_handler_def list_skills_handler_def
    openai_models_handler_def elim!: with_json_ok chat_ok agent_run_ok completions_ok discord_ok create_task_ok list_tasks_ok\<close>)

lemma request_ok: "serve_request G req w = (rp, w') \<Longrightarrow> inv w \<Longrightarrow> inv w'"
  unfolding serve_request_def dispatch_request_def
  by (auto split: if_splits auth_decision.splits option.splits prod.splits dest!: endpoint_ok)

lemma ws_answer_ok:
  assumes "ws_answer G txt parsed w = (a, w')" "inv w"
  shows "inv w'"
proof -
  have "inv u" if "ws_chat G txt parsed w = (x, u)" for x u
    using that assms(2) unfolding ws_chat_def Let_def
    by (auto split: prod.splits sum.splits called.splits dest!: on_env_ok  record_turn_ok)
  moreover have "inv u" if "ws_agent_run G parsed w = (x, u)" for x u
    using that assms(2) unfolding ws_agent_run_def by (auto split: prod.splits option.splits sum.splits dest!: task_ok)
  moreover have "inv u" if "ws_shell G parsed w = (x, u)" for x u
    using that assms(2) unfolding ws_shell_def by (auto split: prod.splits sum.splits dest!: shell_ok)
  moreover have "inv u" if "ws_skill_exec G parsed w = (x, u)" for x u
    using that assms(2) unfolding ws_skill_exec_def by (auto split: prod.splits dest!: skill_ok)
  moreover have "inv u" if "ws_heartbeat G w = (x, u)" for x u
    using that assms(2) unfolding ws_heartbeat_def by (auto split: prod.splits option.splits dest!: pulse_ok)
  ultimately show ?thesis using assms unfolding ws_answer_def Let_def by (auto split: if_splits)
qed

lemma ws_step_ok: "inv (sk_world s) \<Longrightarrow> inv (sk_world (ws_step G ev s))"
  unfolding ws_step_def
  by (auto split: prod.splits ws_event.splits option.splits ws_reply.splits dest: ws_answer_ok)

end

section \<open>Everything the gateway causes is inside the workspaces\<close>

definition effect_allowed :: "'v gateway \<Rightarrow> 'v \<Rightarrow> effect \<Rightarrow> bool" where
  "effect_allowed G v e \<longleftrightarrow> effect_inside (gw_skills G) v (gw_root G) e \<or>
     (\<exists>l. e = RanShell l \<and> effect_inside (gw_skills G) v (gw_heart_root G) e)"

definition world_ok :: "'v gateway \<Rightarrow> 'v world \<Rightarrow> bool" where
  "world_ok G w \<longleftrightarrow> (\<forall>(v, e)\<in>set (wo_effects w). effect_allowed G v e) \<and> tasks_ok (wo_db w)"

lemma advance_ok: "pulse_advance G n p w = (p', w') \<Longrightarrow> world_ok G w \<Longrightarrow> world_ok G w'"
proof -
  assume a: "pulse_advance G n p w = (p', w')" and w: "world_ok G w"
  obtain q ls d where s: "pulse_step (gw_host G (wo_env w)) (gw_ldb G) (gw_calls G (wo_env w) n) p (wo_db w) = ((q, ls), d)"
    by (metis prod.exhaust)
  have "effect_allowed G (wo_env w) (RanShell l)" if "l \<in> set ls" for l
    using pulse_catalogued [OF s that] by (auto simp: catalogued_def effect_allowed_def gw_host_def local_forms_def)
  moreover have "tasks_ok d" using pulse_grow [OF s] w by (auto simp: tasks_grow_def world_ok_def)
  ultimately show "world_ok G w'" using a s w by (auto simp: pulse_advance_def world_ok_def)
qed

lemma pulse_go_ok: "pulse_go G n p w = (p', w') \<Longrightarrow> world_ok G w \<Longrightarrow> world_ok G w'"
  by (induction n arbitrary: p w) (auto dest: advance_ok split: if_splits prod.splits)

lemma world_ok_fields [simp]: "world_ok G (w\<lparr>wo_env := v\<rparr>) = world_ok G w" "world_ok G (w\<lparr>wo_ticks := n\<rparr>) = world_ok G w"
  "world_ok G (w\<lparr>wo_pulses := ps\<rparr>) = world_ok G w"
  by (simp_all add: world_ok_def)

lemma whole_pulse_ok: "gw_pulse_once G w = (r, w') \<Longrightarrow> world_ok G w \<Longrightarrow> world_ok G w'"
  unfolding gw_pulse_once_def Let_def
  by (auto split: prod.splits pulse_phase.splits dest!: advance_ok pulse_go_ok)

interpretation contained: gateway_keeps G "world_ok G" for G :: "'v gateway"
proof
  show "world_ok G (w\<lparr>wo_env := v, wo_effects := wo_effects w @ map (Pair (wo_env w)) es\<rparr>)"
    if "world_ok G w" "\<forall>e\<in>set es. effect_inside (gw_skills G) (wo_env w) (gw_root G) e" for w es v
    using that by (auto simp: world_ok_def effect_allowed_def)
  show "world_ok G (w\<lparr>wo_db := d\<rparr>)" if "world_ok G w" "lg_tasks d = lg_tasks (wo_db w)" for w d
    using that by (simp add: world_ok_def tasks_ok_def)
  show "world_ok G (w\<lparr>wo_db := d\<rparr>)"
    if "world_ok G w" "create_task (gw_ldb G) (gw_calls G (wo_env w) 0) i ty payload (wo_db w) = (r, d)" for w d i ty payload r
    using that create_grow [OF that(2)] by (simp add: world_ok_def tasks_grow_def)
qed (simp, erule whole_pulse_ok)

section \<open>The running gateway\<close>

text \<open>
  What happens to the world: a request is served, a socket's loop takes a round, the heartbeat's own loop pulses,
  and the outside changes. Handlers overlap where they wait, so the pieces between two waits are steps of their
  own: a step of a pulse, a tool call of an agent's task, the recording of a turn.
\<close>

inductive gateway_step :: "'v gateway \<Rightarrow> 'v world \<Rightarrow> 'v world \<Rightarrow> bool" for G :: "'v gateway" where
  gs_request: "serve_request G req w = (rp, w') \<Longrightarrow> gateway_step G w w'"
| gs_socket: "gateway_step G (sk_world s) (sk_world (ws_step G ev s))"
| gs_pulse: "gw_pulse_once G w = (r, w') \<Longrightarrow> gateway_step G w w'"
| gs_advance: "pulse_advance G n p w = (p', w') \<Longrightarrow> gateway_step G w w'"
| gs_dispatch: "gateway_step G w (snd (ae_dispatch (gateway_agent G v) name args w))"
| gs_turn: "gw_record_turn G rl prompt a ms w = (r, w') \<Longrightarrow> gateway_step G w w'"
| gs_outside: "gateway_step G w (w\<lparr>wo_env := v\<rparr>)"

inductive_cases gateway_stepE: "gateway_step G w w'"

lemma gateway_step_ok: "gateway_step G w w' \<Longrightarrow> world_ok G w \<Longrightarrow> world_ok G w'"
  by (erule gateway_stepE)
    (auto intro: contained.request_ok contained.ws_step_ok whole_pulse_ok advance_ok contained.dispatch_ok contained.record_turn_ok)

interpretation gateway_run: invariant_system "\<lambda>w. wo_effects w = [] \<and> tasks_ok (wo_db w)" "gateway_step G" "world_ok G"
  for G :: "'v gateway"
  by unfold_locales (simp add: world_ok_def, rule gateway_step_ok)

text \<open>
  C5: Whatever requests are served, whatever comes over the sockets, and however handlers, tasks and pulses overlap,
  every effect that a skill, an agent, a shell route or a queued task had was, in the outside of the moment, where
  the workspace of its component allows it: reads, listings and commands at canonical locations of existing paths
  under the root, a command being one of the four catalogued forms; writes and new directories at names below
  an existing directory whose canonical location is under the root (\<open>effect_inside\<close>). The heartbeat's workspace
  sees catalogued commands only. And no two tasks share an identifier.
\<close>

theorem gateway_effects_contained:
  assumes "(gateway_step G)\<^sup>*\<^sup>* w0 w" "wo_effects w0 = []" "tasks_ok (wo_db w0)"
  shows "(\<forall>(v, e)\<in>set (wo_effects w). effect_inside (gw_skills G) v (gw_root G) e \<or>
      (\<exists>l. e = RanShell l \<and> effect_inside (gw_skills G) v (gw_heart_root G) e)) \<and> tasks_ok (wo_db w)"
  using gateway_run.reached_inv [OF _ assms(1)] assms(2,3) by (simp add: world_ok_def effect_allowed_def)

text \<open>A gateway over the world of \<open>Skills\<close>, and a request with the token that writes a file.\<close>

definition demo_gateway :: "unit gateway" where
  "demo_gateway =
     \<lparr>gw_auth = \<lparr>oa_token = Some sample_token\<rparr>,
      gw_engine = \<lparr>en_model_id = ''m'', en_endpoint = ''e'', en_generate_with_tokens = (\<lambda>_ _ _ _ w. (Inl ''off'', w)),
        en_generate_chat = (\<lambda>_ _ _ w. (Inl ''off'', w)), en_chat_with_tools = (\<lambda>_ _ _ _ w. (Inl ''off'', w)),
        en_stream_chat = (\<lambda>_ _ _ w. (Inl ''off'', w)), en_check_health = Pair False\<rparr>,
      gw_skills = demo_skills, gw_root = ''/ws'', gw_heart_root = ''/ws'', gw_interval = 60, gw_healthy = (\<lambda>_. False),
      gw_keys = (\<lambda>_. []), gw_libs = \<lparr>lib_to_string = (\<lambda>_. None), lib_from_str = (\<lambda>_. None), lib_sha256 = (\<lambda>_. [])\<rparr>,
      gw_ldb = demo_legacy, gw_calls = (\<lambda>_ _. demo_env), gw_uuid = (\<lambda>_. ''u''), gw_uptime = (\<lambda>_. 1),
      gw_elapsed_ms = (\<lambda>_. 1), gw_now_text = (\<lambda>_. ''now''), gw_now_secs = (\<lambda>_. 1), gw_now_millis = (\<lambda>_. 1),
      gw_fresh_run = (\<lambda>_. ''run_1''), gw_fresh_event = (\<lambda>_ _. ''evt_1''), gw_env_var = (\<lambda>_ _. None),
      gw_show_nat = (\<lambda>_. ''1''), gw_show_json = (\<lambda>_. []), gw_f32 = (\<lambda>_. ''0''), gw_f32_json = (\<lambda>_. JNull),
      gw_result_json = (\<lambda>_. JNull), gw_receipt_text = (\<lambda>_. None), gw_probe_set_ok = (\<lambda>_. True),
      gw_probe = (\<lambda>_ _. Inl ''none'')\<rparr>"

definition demo_world :: "unit world" where
  "demo_world = \<lparr>wo_env = (), wo_db = open_legacy True, wo_ticks = 0, wo_effects = [], wo_pulses = []\<rparr>"

definition write_request :: "string option \<Rightarrow> http_request" where
  "write_request token =
     \<lparr>rq_method = Post, rq_path = ''/api/v1/skills/execute'',
      rq_header = (\<lambda>h. if h = ''authorization'' then map_option (\<lambda>t. ''Bearer '' @ t) token else None),
      rq_payload = Inr (json_object [(''skill_name'', JString ''write_file''),
        (''arguments'', json_object [(''path'', JString ''src/../a/b.txt''), (''content'', JString ''x'')])]),
      rq_upgrade = None\<rparr>"

definition world_after_write :: "unit world" where
  "world_after_write = snd (serve_request demo_gateway (write_request (Some sample_token)) demo_world)"

lemma world_after_write_effects: "wo_effects world_after_write = [((), MadeDirs ''/ws/a''), ((), WroteFile ''/ws/a/b.txt'' ''x'')]"
  by code_simp

theorem gateway_effects_contained_witness:
  "((), WroteFile ''/ws/a/b.txt'' ''x'') \<in> set (wo_effects world_after_write) \<and>
   effect_inside demo_skills () ''/ws'' (WroteFile ''/ws/a/b.txt'' ''x'')"
proof -
  have "gateway_step demo_gateway demo_world world_after_write"
    unfolding world_after_write_def by (rule gs_request [OF prod.collapse [symmetric]])
  then have "(gateway_step demo_gateway)\<^sup>*\<^sup>* demo_world world_after_write" by (rule r_into_rtranclp)
  from gateway_effects_contained [OF this] show ?thesis
    unfolding world_after_write_effects
    by (simp add: demo_world_def tasks_ok_def open_legacy_def del: effect_inside.simps) (simp add: demo_gateway_def)
qed

section \<open>Without the token\<close>

text \<open>The public paths are routes that only answer \<open>GET\<close>, with handlers that only look.\<close>

lemma public_routes:
  assumes "p \<in> set PUBLIC_READ_PATHS"
  obtains e where "map_of routes p = Some [(Get, e)]" "e \<in> {HealthEp, EventsEp, ListSkillsEp, ModelsEp}"
  using assms that by (auto simp: PUBLIC_READ_PATHS_def routes_def)

lemma public_endpoint:
  assumes "e \<in> {HealthEp, EventsEp, ListSkillsEp, ModelsEp}"
  obtains b where "serve_endpoint G e req w = (respond 200 b, w)" "b \<noteq> UpgradeBody"
  using assms that by (auto simp: serve_endpoint_def health_handler_def sse_events_handler_def list_skills_handler_def
      openai_models_handler_def)

text \<open>
  C7: A request that does not present the configured token changes nothing at all: no skill, shell, agent, model,
  pulse or database call happens and no socket is opened. It is answered 200 if it is a read of a public path or
  a preflight, 503 if no token is configured, and 401 otherwise.
\<close>

theorem without_token_nothing_happens:
  assumes "oa_token (gw_auth G) = None \<or> presented_token (request.truncate req) \<noteq> oa_token (gw_auth G)"
  shows "\<exists>rs. serve_request G req w = (Reply rs, w) \<and> rs_body rs \<noteq> UpgradeBody \<and>
    rs_status rs = (if rq_method req = OtherMethod ''OPTIONS'' \<or> is_public (rq_method req) (rq_path req) then 200
      else if oa_token (gw_auth G) = None then 503 else 401)"
proof (cases "rq_method req = OtherMethod ''OPTIONS''")
  case True
  then show ?thesis by (simp add: serve_request_def respond_def)
next
  case opt: False
  have tr: "rq_method (request.truncate req) = rq_method req" "rq_path (request.truncate req) = rq_path req"
    by (simp_all add: request.truncate_def)
  show ?thesis
  proof (cases "is_public (rq_method req) (rq_path req)")
    case True
    then have m: "rq_method req = Get \<or> rq_method req = Head" and p: "rq_path req \<in> set PUBLIC_READ_PATHS"
      by (auto simp: is_public_def)
    obtain e where e: "map_of routes (rq_path req) = Some [(Get, e)]" "e \<in> {HealthEp, EventsEp, ListSkillsEp, ModelsEp}"
      by (rule public_routes [OF p])
    obtain b where b: "serve_endpoint G e req w = (respond 200 b, w)" "b \<noteq> UpgradeBody"
      by (rule public_endpoint [OF e(2)])
    from m b e(1) True opt show ?thesis
      by (auto simp: serve_request_def require_operator_def tr dispatch_request_def respond_def without_body_def)
  next
    case False
    have "\<not> verify_token (gw_auth G) (presented_token (request.truncate req))" using assms by (auto simp: verify_iff)
    with False opt show ?thesis
      by (simp add: serve_request_def require_operator_def tr is_configured_def respond_def error_json_def)
  qed
qed


theorem without_token_nothing_happens_witness:
  "\<exists>rs. serve_request demo_gateway (write_request (Some ''guess'')) demo_world = (Reply rs, demo_world) \<and> rs_status rs = 401"
proof -
  have "presented_token (request.truncate (write_request (Some ''guess''))) \<noteq> oa_token (gw_auth demo_gateway)"
    by code_simp
  then have "oa_token (gw_auth demo_gateway) = None \<or>
      presented_token (request.truncate (write_request (Some ''guess''))) \<noteq> oa_token (gw_auth demo_gateway)" ..
  note w = without_token_nothing_happens [OF this]
  have "rq_method (write_request (Some ''guess'')) = Post" "oa_token (gw_auth demo_gateway) \<noteq> None"
    by (simp_all add: write_request_def demo_gateway_def)
  with w show ?thesis by (auto simp: is_public_def)
qed

section \<open>Pulses end\<close>

lemma advance_left:
  assumes "pulse_advance G n p w = (p', w')" "\<not> pulse_over (pu_phase p)" "pu_phase p \<noteq> Listing"
  shows "phase_left (pu_phase p') < phase_left (pu_phase p) \<and> pu_phase p' \<noteq> Listing"
  using assms by (auto simp: pulse_advance_def dest: pulse_step_left split: prod.splits)

lemma pulse_go_over:
  assumes "phase_left (pu_phase p) \<le> n" "pu_phase p \<noteq> Listing"
  shows "pulse_over (pu_phase (fst (pulse_go G n p w)))"
  using assms
proof (induction n arbitrary: p w)
  case 0
  then show ?case by (cases "pu_phase p") auto
next
  case (Suc n)
  obtain p' w' where a: "pulse_advance G n p w = (p', w')" by force
  from advance_left [OF a] Suc show ?case by (auto simp: a)
qed

text \<open>A pulse ends with a receipt or because a lock was poisoned, after at most three steps per task and two more.\<close>

lemma pulse_once_ends:
  assumes "gw_pulse_once G w = (None, w')"
  shows "\<exists>n p q u. pulse_advance G n p u = (q, w') \<and> pu_phase q = Crashed"
proof -
  have go: "\<exists>n p u. pulse_advance G n p u = (q, w2) \<and> pu_phase q = Crashed"
    if "pulse_go G n p1 w1 = (q, w2)" "pu_phase q = Crashed" "pu_phase p1 \<noteq> Crashed" for n p1 w1 q w2
    using that
  proof (induction n arbitrary: p1 w1)
    case (Suc n)
    obtain p' w' where a: "pulse_advance G n p1 w1 = (p', w')" by force
    show ?case
    proof (cases "pu_phase p' = Crashed")
      case True
      with Suc.prems a have "q = p'" "w2 = w'" by (cases n; auto split: if_splits)+
      with a True show ?thesis by blast
    next
      case False
      with Suc a show ?thesis by (auto split: if_splits)
    qed
  qed simp
  define p0 w0 where "p0 = pulse_start (wo_ticks w + 1) (gw_now_text G (wo_env w))" and "w0 = w\<lparr>wo_ticks := wo_ticks w + 1\<rparr>"
  obtain p1 w1 where one: "pulse_advance G 0 p0 w0 = (p1, w1)" by force
  obtain p2 w2 where two: "pulse_go G (phase_left (pu_phase p1)) p1 w1 = (p2, w2)" by force
  have start: "pu_phase p1 \<noteq> Listing"
    using one unfolding p0_def pulse_advance_def pulse_step_def pulse_start_def
    by (auto split: prod.splits called.splits sum.splits)
  have "pulse_over (pu_phase p2)" using pulse_go_over [OF _ start, of "phase_left (pu_phase p1)" G w1] two by simp
  moreover have none: "w' = w2" "\<And>r. pu_phase p2 \<noteq> Finished r"
    using assms one two by (auto simp: gw_pulse_once_def Let_def p0_def w0_def split: pulse_phase.splits)
  ultimately have crash: "pu_phase p2 = Crashed" by (cases "pu_phase p2") auto
  show ?thesis
  proof (cases "pu_phase p1 = Crashed")
    case True
    with two have "p2 = p1" "w2 = w1" by auto
    with one True none(1) show ?thesis by blast
  next
    case False
    from go [OF two crash False] none(1) show ?thesis by blast
  qed
qed

section \<open>Two answers that do not say what happened\<close>

text \<open>The route for agent runs answers \<open>completed\<close> for a task that was not completed, as with a limit of no turns.\<close>

lemma agent_run_always_completed:
  assumes "ce_conn (gw_calls G (wo_env w) 0) \<noteq> LcPoisoned"
  shows "\<exists>a w'. agent_run_handler G \<lparr>aq_prompt = p, aq_system = sys, aq_max_turns = Some 0\<rparr> w = (respond 200 (AgentRunBody a), w') \<and>
    ag_status a = ''completed'' \<and> \<not> ag_completed a"
proof -
  have "wo_env (snd (gw_record_turn G rl goal final ms w)) = wo_env w" for rl goal final ms
    by (simp add: gw_record_turn_def on_db_def split: prod.splits)
  with assms show ?thesis
    by (simp add: agent_run_handler_def gw_execute_task_def or_default_def execute_task_def Let_def gateway_agent_def
        start_run_def respond_def)
qed

text \<open>The command that a \<open>shell\<close> message without one stands for is not in the catalog, so it is always refused.\<close>

lemma ws_default_shell_refused:
  assumes "get_str parsed ''command'' = None"
  shows "\<exists>e w'. ws_shell G parsed w = (Answer (typed_json ''shell_error'' [(''error'', JString e)]) False, w') \<and>
    wo_effects w' = wo_effects w"
proof -
  have "\<not> is_ok (admit_local_command ''echo shell ready'')" by code_simp
  then have "\<not> is_ok (pre_dispatch_check esc ''bash_eval'' (json_object [(''command'', JString ''echo shell ready'')]))" for esc
    by (auto simp: is_ok_iff dest!: pre_dispatch_Inr)
  then have "\<not> is_ok (probe_gate H env ''bash_eval'' (json_object [(''command'', JString ''echo shell ready'')]))" for H env
    by (auto simp: probe_gate_def gate_skill_def is_ok_iff try_bind_Inr_iff split: sum.splits)
  then have "\<exists>m. probe_gate H env ''bash_eval'' (json_object [(''command'', JString ''echo shell ready'')]) = Inl m" for H env
    by (metis is_ok_iff sum.exhaust_sel Inl_Inr_False sum.collapse(1) sum.collapse(2))
  then obtain m where "probe_gate (sw_guard (gw_skills G)) (sw_env (gw_skills G) (wo_env w)) ''bash_eval''
      (json_object [(''command'', JString ''echo shell ready'')]) = Inl m" by blast
  with assms show ?thesis
    by (auto simp: ws_shell_def gw_shell_def with_effects_def dispatch_shell_gated_def get_str_or_def)
qed

end
