(* ===== verification/Startup.thy ===== *)
theory Startup
  imports GatewayProps
begin

text \<open>
  \<open>src/main.rs\<close>: the command line's commands as compositions of the modelled parts, the choice of the inference
  backend and the one-time migration of the database file. What is printed is reduced to the values printed.
  Parsing the command line, opening a database, reading the token file, copying a file and binding a socket are
  parameters.
\<close>

section \<open>Surroundings\<close>

record 'v boot =
  bt_parse_ip :: "string \<Rightarrow> ip_addr option"
  bt_show_ip :: "ip_addr \<Rightarrow> string"
  bt_debug :: "string \<Rightarrow> string"
  bt_read_token :: "string \<Rightarrow> string + string"
  bt_token_env :: "string option"
  bt_open_db :: "string \<Rightarrow> string + legacy_db"
  bt_infer :: "'v infer_libs"
  bt_mock :: "'v infer_service"
  bt_gateway :: "'v gateway"
  bt_listen :: "ip_addr \<times> u16 \<Rightarrow> string + unit"
  bt_log :: "f32 \<Rightarrow> f32"
  bt_interval_ok :: "u64 \<Rightarrow> bool"

text \<open>What a command does to the system before it serves, in order.\<close>

datatype boot_event = OpenedDb string | StartedLoop u64 | Listening ip_addr u16

section \<open>Shared steps\<close>

text \<open>The legacy file is copied when the new one does not exist; \<open>copied\<close> is the outcome of the copy.\<close>

definition migrate_legacy_db :: "('f \<Rightarrow> 'f option) \<Rightarrow> (string \<rightharpoonup> 'f) \<Rightarrow> (string \<rightharpoonup> 'f)" where
  "migrate_legacy_db copied files =
     (case (files ''aegis.sqlite'', files ''openclaw.sqlite'') of
        (None, Some old) \<Rightarrow> (case copied old of Some new \<Rightarrow> files(''aegis.sqlite'' \<mapsto> new) | None \<Rightarrow> files)
      | _ \<Rightarrow> files)"

definition resolve_inference_engine :: "'v boot \<Rightarrow> string \<Rightarrow> string \<Rightarrow> string option \<Rightarrow> string option \<Rightarrow> string + 'v engine" where
  "resolve_inference_engine B md model_url model_path tokenizer_path =
     (if md = ''http'' then Inr (http_engine (bt_infer B) (new_http_backend (Some model_url) None))
      else embedded_load_or_fallback (bt_infer B) (bt_mock B) model_path tokenizer_path)"

text \<open>The world of a process that has just opened its database.\<close>

definition fresh_world :: "'v \<Rightarrow> legacy_db \<Rightarrow> 'v world" where
  "fresh_world v d = \<lparr>wo_env = v, wo_db = d, wo_ticks = 0, wo_effects = [], wo_pulses = []\<rparr>"

section \<open>Commands\<close>

record engine_args =
  ea_inference :: string
  ea_model_url :: string
  ea_model_path :: "string option"
  ea_tokenizer_path :: "string option"

definition engine_of :: "'v boot \<Rightarrow> engine_args \<Rightarrow> string + 'v engine" where
  "engine_of B a = resolve_inference_engine B (ea_inference a) (ea_model_url a) (ea_model_path a) (ea_tokenizer_path a)"

record serve_args = engine_args +
  sa_port :: u16
  sa_bind :: string
  sa_allow_non_loopback_bind :: bool
  sa_operator_token_file :: "string option"
  sa_db_path :: string
  sa_heartbeat_secs :: u64

text \<open>Without a command the program serves with the defaults.\<close>

definition default_serve :: serve_args where
  "default_serve = \<lparr>ea_inference = ''embedded'', ea_model_url = ''http://127.0.0.1:18006/v1/chat/completions'',
     ea_model_path = None, ea_tokenizer_path = None, sa_port = 18096, sa_bind = ''127.0.0.1'',
     sa_allow_non_loopback_bind = False, sa_operator_token_file = None, sa_db_path = ''aegis.sqlite'',
     sa_heartbeat_secs = 60\<rparr>"

text \<open>\<open>start_gateway\<close>: the listener, behind which the router serves.\<close>

definition start_gateway :: "'v boot \<Rightarrow> ip_addr \<times> u16 \<Rightarrow> boot_event list \<Rightarrow> (string + unit) \<times> boot_event list" where
  "start_gateway B addr evs = (case bt_listen B addr of
       Inl e \<Rightarrow> (Inl e, evs) | Inr _ \<Rightarrow> (Inr (), evs @ [Listening (fst addr) (snd addr)]))"

text \<open>The gateway that serves, with its first world, and what happened on the way.\<close>

definition serve :: "'v boot \<Rightarrow> serve_args \<Rightarrow> 'v \<Rightarrow> (string + ('v gateway \<times> 'v world)) \<times> boot_event list" where
  "serve B a v =
     (case resolve_bind_addr (bt_parse_ip B) (bt_show_ip B) (bt_debug B) (sa_bind a) (sa_port a)
             (sa_allow_non_loopback_bind a) of
        Inl e \<Rightarrow> (Inl e, [])
      | Inr addr \<Rightarrow>
          (case load_auth (map_option (\<lambda>p. (p, bt_read_token B p)) (sa_operator_token_file a)) (bt_token_env B) of
             Inl e \<Rightarrow> (Inl e, [])
           | Inr operator \<Rightarrow>
               (case bt_open_db B (sa_db_path a) of
                  Inl e \<Rightarrow> (Inl e, [])
                | Inr d \<Rightarrow>
                    (case engine_of B (engine_args.truncate a) of
                       Inl e \<Rightarrow> (Inl e, [OpenedDb (sa_db_path a)])
                     | Inr engine \<Rightarrow>
                         (let G = (bt_gateway B)\<lparr>gw_auth := operator, gw_engine := engine,
                                gw_interval := sa_heartbeat_secs a\<rparr>;
                              (r, evs) = start_gateway B addr [OpenedDb (sa_db_path a), StartedLoop (sa_heartbeat_secs a)]
                          in (map_sum id (\<lambda>_. (G, fresh_world v d)) r, evs))))))"

text \<open>\<open>tick\<close>: one pulse; \<open>None\<close> when it panicked.\<close>

definition tick_command :: "'v boot \<Rightarrow> string \<Rightarrow> 'v \<Rightarrow> string + (pulse_receipt option \<times> 'v world)" where
  "tick_command B db_path v =
     map_sum id (\<lambda>d. gw_pulse_once (bt_gateway B) (fresh_world v d)) (bt_open_db B db_path)"

text \<open>
  \<open>heartbeat\<close>: pulses until the process ends; here the first \<open>n\<close> of them. \<open>tokio::time::interval\<close> panics on a
  period it does not accept, before the first.
\<close>

fun pulse_times :: "'v gateway \<Rightarrow> nat \<Rightarrow> 'v world \<Rightarrow> 'v world option" where
  "pulse_times G 0 w = Some w"
| "pulse_times G (Suc n) w = (case gw_pulse_once G w of (None, _) \<Rightarrow> None | (Some _, w') \<Rightarrow> pulse_times G n w')"

definition heartbeat_command :: "'v boot \<Rightarrow> engine_args \<Rightarrow> string \<Rightarrow> u64 \<Rightarrow> nat \<Rightarrow> 'v \<Rightarrow> string + 'v world option" where
  "heartbeat_command B a db_path secs n v =
     try_bind (bt_open_db B db_path) (\<lambda>d. try_bind (engine_of B a) (\<lambda>engine.
       Inr (if bt_interval_ok B secs
            then pulse_times ((bt_gateway B)\<lparr>gw_engine := engine, gw_interval := secs\<rparr>) n (fresh_world v d) else None)))"

text \<open>\<open>ask\<close>: the reply, or the error that is printed; an error of the engine does not fail the command.\<close>

definition ask_command :: "'v boot \<Rightarrow> engine_args \<Rightarrow> string \<Rightarrow> 'v \<Rightarrow> string + ((string + string) \<times> 'v)" where
  "ask_command B a prompt v = map_sum id (\<lambda>engine. generate engine prompt None None v) (engine_of B a)"

definition agent_command :: "'v boot \<Rightarrow> engine_args \<Rightarrow> string \<Rightarrow> string \<Rightarrow> nat \<Rightarrow> 'v \<Rightarrow>
    string + ((string + agent_result) option \<times> 'v world)" where
  "agent_command B a prompt db_path max_turns v =
     try_bind (engine_of B a) (\<lambda>engine. try_bind (bt_open_db B db_path) (\<lambda>d.
       Inr (gw_execute_task ((bt_gateway B)\<lparr>gw_engine := engine\<rparr>) prompt None max_turns (fresh_world v d))))"

text \<open>\<open>simd\<close>: the four values.\<close>

definition simd_command :: "'v boot \<Rightarrow> int \<Rightarrow> f32 \<times> f32 \<times> f32 \<times> f32" where
  "simd_command B steps =
     (cosine_similarity_4d (lit 1.0, lit 0.0, lit 0.0, lit 0.0) (lit 0.9, lit 0.1, lit 0.0, lit 0.0),
      accumulate (lit 1.0) (lit 1.05) steps,
      token_entropy (bt_log B) (lit 0.7, lit 0.2, lit 0.08, lit 0.02),
      token_projection (lit 1.0, lit 2.0, lit 3.0, lit 4.0) (lit 0.5, lit 0.5, lit 0.5, lit 0.5) (lit 1.0))"

definition status_command :: "'v boot \<Rightarrow> engine_args \<Rightarrow> 'v \<Rightarrow> string + (string \<times> string \<times> bool) \<times> 'v" where
  "status_command B a v = map_sum id (\<lambda>engine. (case en_check_health engine v of
     (healthy, v') \<Rightarrow> ((en_model_id engine, en_endpoint engine, healthy), v'))) (engine_of B a)"

section \<open>What starting guarantees\<close>

lemma migration_keeps_data:
  "files ''aegis.sqlite'' = Some d \<Longrightarrow> migrate_legacy_db copied files = files"
  "migrate_legacy_db copied files ''openclaw.sqlite'' = files ''openclaw.sqlite''"
  by (auto simp: migrate_legacy_db_def split: option.splits)

text \<open>
  A refused address or token stops the program before anything is opened or started; and when it listens, the
  address is a loopback address unless the operator opted in, the token is a configured one or every protected
  route is closed, and the gateway starts with nothing done.
\<close>

lemma serve_fails_closed:
  assumes "serve B a v = (r, evs)"
  shows "(evs \<noteq> [] \<longrightarrow> (\<exists>ip. bt_parse_ip B (trim (sa_bind a)) = Some ip \<and> (sa_allow_non_loopback_bind a \<or> is_loopback ip))) \<and>
    (\<forall>ip p. Listening ip p \<in> set evs \<longrightarrow> p = sa_port a \<and> (sa_allow_non_loopback_bind a \<or> is_loopback ip)) \<and>
    (\<forall>G w. r = Inr (G, w) \<longrightarrow> (\<exists>ip. Listening ip (sa_port a) \<in> set evs) \<and> wo_effects w = [] \<and>
      load_auth (map_option (\<lambda>p. (p, bt_read_token B p)) (sa_operator_token_file a)) (bt_token_env B) = Inr (gw_auth G))"
proof (cases "resolve_bind_addr (bt_parse_ip B) (bt_show_ip B) (bt_debug B) (sa_bind a) (sa_port a) (sa_allow_non_loopback_bind a)")
  case (Inl e)
  with assms show ?thesis by (auto simp: serve_def)
next
  case (Inr addr)
  obtain ip p where addr: "addr = (ip, p)" by force
  from Inr have ok: "p = sa_port a" "bt_parse_ip B (trim (sa_bind a)) = Some ip" "sa_allow_non_loopback_bind a \<or> is_loopback ip"
    unfolding addr bind_addr_loopback_unless_opted_in by auto
  from assms Inr ok show ?thesis
    by (auto simp: serve_def addr Let_def start_gateway_def fresh_world_def split: sum.splits prod.splits)
qed

end
