(* ===== verification/Stores.thy ===== *)
theory Stores
  imports Tables
begin

text \<open>
  The five stores of \<open>src/persistence/sqlite\<close>: sessions, messages, runs, actions and approvals. An
  operation takes the libraries \<open>L\<close>, the state \<open>c\<close> of the connection, and the database; it returns its result and the
  database after it. Its uses of the connection are numbered from 0 in the order the code has them. An identifier is
  the text of its column.
\<close>

section \<open>Statements of the stores\<close>

text \<open>What an \<open>INSERT\<close> or \<open>UPDATE\<close> that went through writes back; an error leaves the database.\<close>

definition commit :: "(persistence_error + 'r list) \<Rightarrow> ('r list \<Rightarrow> db) \<Rightarrow> db \<Rightarrow> (persistence_error + unit) \<times> db" where
  "commit r put d = (case r of Inl e \<Rightarrow> (Inl e, d) | Inr rows \<Rightarrow> (Inr (), put rows))"

text \<open>\<open>if rows == 0 { return Err(..) }\<close> after an \<open>UPDATE\<close>\<close>

definition updated :: "persistence_error \<Rightarrow> 'r list \<times> nat \<Rightarrow> persistence_error + 'r list" where
  "updated e r = (if snd r = 0 then Inl e else Inr (fst r))"

section \<open>Messages\<close>

fun message_created_at :: "message \<Rightarrow> i64" where
  "message_created_at (MsgSystem m) = tm_created_at m"
| "message_created_at (MsgUser m) = tm_created_at m"
| "message_created_at (MsgAssistant m) = am_created_at m"
| "message_created_at (MsgTool m) = tr_created_at m"

fun role_text :: "role \<Rightarrow> string" where
  "role_text RoleSystem = ''system''"
| "role_text RoleUser = ''user''"
| "role_text RoleAssistant = ''assistant''"
| "role_text RoleTool = ''tool''"

definition message_row_of :: "session_id \<Rightarrow> message \<Rightarrow> string \<Rightarrow> message_row" where
  "message_row_of sid m data =
     \<lparr>mr_id = message_ident m, mr_session = sid, mr_role = role_text (message_role m), mr_data = data,
      mr_created_at = message_created_at m\<rparr>"

definition message_append ::
  "store_libs \<Rightarrow> conn_state \<Rightarrow> session_id \<Rightarrow> message \<Rightarrow> db \<Rightarrow> (persistence_error + unit) \<times> db" where
  "message_append L c sid m = interact c (\<lambda>d. commit
     (try_bind (write_json (sl_message L) m) (\<lambda>data.
        statement c 0 (sql_insert L (db_foreign_keys d) mr_id (sid \<in> sr_id ` set (db_sessions d))
          (message_row_of sid m data) (db_messages d))))
     (\<lambda>rows. d\<lparr>db_messages := rows\<rparr>) d)"

definition session_messages :: "session_id \<Rightarrow> db \<Rightarrow> message_row list" where
  "session_messages sid d = sort_key mr_created_at (filter (\<lambda>r. mr_session r = sid) (db_messages d))"

definition message_list ::
  "store_libs \<Rightarrow> conn_state \<Rightarrow> session_id \<Rightarrow> db \<Rightarrow> (persistence_error + message list) \<times> db" where
  "message_list L c sid = interact c (\<lambda>d.
     (decode_rows c 0 (\<lambda>r. read_json (sl_message L) (mr_data r)) (session_messages sid d), d))"

definition message_get ::
  "store_libs \<Rightarrow> conn_state \<Rightarrow> message_id \<Rightarrow> db \<Rightarrow> (persistence_error + message option) \<times> db" where
  "message_get L c mid = interact c (\<lambda>d.
     (statement c 0 (transpose_opt (\<lambda>r. read_json (sl_message L) (mr_data r)) (find (\<lambda>r. mr_id r = mid) (db_messages d))), d))"

section \<open>Sessions\<close>

definition session_row_of :: "session \<Rightarrow> string \<Rightarrow> session_row" where
  "session_row_of s budget =
     \<lparr>sr_id = s_id s, sr_parent = s_parent s, sr_status = session_status_as_str (s_status s),
      sr_objective = s_objective s, sr_agent_profile = s_agent_profile s,
      sr_model_profile = s_model_profile s, sr_policy_profile = s_policy_profile s,
      sr_budget_json = budget, sr_created_at = s_created_at s, sr_updated_at = s_updated_at s,
      sr_version = SqlInt (sint (s_version s))\<rparr>"

definition session_create ::
  "store_libs \<Rightarrow> conn_state \<Rightarrow> session \<Rightarrow> db \<Rightarrow> (persistence_error + unit) \<times> db" where
  "session_create L c s = interact c (\<lambda>d. commit
     (try_bind (write_json (sl_session_budget L) (s_budget s)) (\<lambda>budget.
        statement c 0 (sql_insert L (db_foreign_keys d) sr_id True (session_row_of s budget) (db_sessions d))))
     (\<lambda>rows. d\<lparr>db_sessions := rows\<rparr>) d)"

text \<open>A row of the table as a session without its messages.\<close>

definition session_of_row :: "store_libs \<Rightarrow> session_row \<Rightarrow> persistence_error + session" where
  "session_of_row L r = (case sr_version r of
       SqlReal63 \<Rightarrow> Inl (PeSqlite (sl_bad_column_type L))
     | SqlInt v \<Rightarrow>
         try_bind (read_status session_status_from_str ''status'' (sr_status r)) (\<lambda>status.
         try_bind (read_json (sl_session_budget L) (sr_budget_json r)) (\<lambda>budget.
           Inr \<lparr>s_id = sr_id r, s_parent = sr_parent r, s_status = status, s_objective = sr_objective r,
                s_agent_profile = sr_agent_profile r, s_model_profile = sr_model_profile r,
                s_policy_profile = sr_policy_profile r, s_messages = [], s_budget = budget,
                s_created_at = sr_created_at r, s_updated_at = sr_updated_at r, s_version = word_of_int v\<rparr>)))"

definition session_get ::
  "store_libs \<Rightarrow> conn_state \<Rightarrow> session_id \<Rightarrow> db \<Rightarrow> (persistence_error + session option) \<times> db" where
  "session_get L c sid = interact c (\<lambda>d.
     (statement c 0 (transpose_opt (\<lambda>r.
        try_bind (session_of_row L r) (\<lambda>s.
        try_bind (decode_rows c 1 (\<lambda>m. read_json (sl_message L) (mr_data m)) (session_messages (sr_id r) d)) (\<lambda>ms.
          Inr (s\<lparr>s_messages := ms\<rparr>))))
        (find (\<lambda>r. sr_id r = sid) (db_sessions d))), d))"

definition session_change :: "i64 \<Rightarrow> session \<Rightarrow> string \<Rightarrow> session_row \<Rightarrow> session_row" where
  "session_change now s budget r =
     r\<lparr>sr_parent := s_parent s, sr_status := session_status_as_str (s_status s), sr_objective := s_objective s,
       sr_agent_profile := s_agent_profile s, sr_model_profile := s_model_profile s,
       sr_policy_profile := s_policy_profile s, sr_budget_json := budget, sr_updated_at := now,
       sr_version := sql_succ (sr_version r)\<rparr>"

definition session_update ::
  "store_libs \<Rightarrow> conn_state \<Rightarrow> i64 \<Rightarrow> session \<Rightarrow> db \<Rightarrow> (persistence_error + unit) \<times> db" where
  "session_update L c now s = interact c (\<lambda>d. commit
     (try_bind (write_json (sl_session_budget L) (s_budget s)) (\<lambda>budget.
        statement c 0 (updated (PeConcurrencyConflict (s_id s) (s_version s))
          (sql_update (\<lambda>r. sr_id r = s_id s \<and> sr_version r = SqlInt (sint (s_version s)))
             (session_change now s budget) (db_sessions d)))))
     (\<lambda>rows. d\<lparr>db_sessions := rows\<rparr>) d)"

definition session_list ::
  "store_libs \<Rightarrow> conn_state \<Rightarrow> u64 \<Rightarrow> u64 \<Rightarrow> db \<Rightarrow> (persistence_error + session list) \<times> db" where
  "session_list L c limit offset = interact c (\<lambda>d.
     (decode_rows c 0 (session_of_row L)
        (sql_page limit offset (sort_key (\<lambda>r. - sr_updated_at r) (sl_scan_sessions L (db_sessions d)))), d))"

section \<open>Runs\<close>

text \<open>\<open>session_id = ?1 AND state IN ('running', 'waiting_for_approval', 'waiting_for_tool')\<close>\<close>

definition run_row_active :: "session_id \<Rightarrow> run_row \<Rightarrow> bool" where
  "run_row_active sid r \<longleftrightarrow> rr_session r = sid \<and>
     rr_state r \<in> {''running'', ''waiting_for_approval'', ''waiting_for_tool''}"

definition active_rows :: "store_libs \<Rightarrow> run_query \<Rightarrow> session_id \<Rightarrow> db \<Rightarrow> run_row list" where
  "active_rows L q sid d = sl_scan_runs L q (filter (run_row_active sid) (db_runs d))"

definition run_texts :: "store_libs \<Rightarrow> run \<Rightarrow> persistence_error + string \<times> string option" where
  "run_texts L r =
     try_bind (write_json (sl_run_budget L) (r_budget r)) (\<lambda>budget.
     try_bind (transpose_opt (write_json (sl_termination L)) (r_termination r)) (\<lambda>term'.
       Inr (budget, term')))"

definition run_row_of :: "run \<Rightarrow> string \<Rightarrow> string \<Rightarrow> string option \<Rightarrow> run_row" where
  "run_row_of r trig budget term' =
     \<lparr>rr_id = r_id r, rr_session = r_session r, rr_state = run_state_as_str (r_state r), rr_trigger_json = trig,
      rr_steps_used = uint (r_steps_used r), rr_inference_calls_used = uint (r_inference_calls_used r),
      rr_actions_used = uint (r_actions_used r), rr_budget_json = budget, rr_started_at = r_started_at r,
      rr_completed_at = r_completed_at r, rr_termination_json = term'\<rparr>"

definition run_create ::
  "store_libs \<Rightarrow> conn_state \<Rightarrow> run \<Rightarrow> db \<Rightarrow> (persistence_error + unit) \<times> db" where
  "run_create L c r = interact c (\<lambda>d. commit
     (statement c 0
       (if filter (run_row_active (r_session r)) (db_runs d) \<noteq> [] then
          statement c 1 (case active_rows L QActiveId (r_session r) d of
             a # _ \<Rightarrow> Inl (PeActiveRunConflict (r_session r) (rr_id a))
           | [] \<Rightarrow> Inl (PeSqlite (sl_no_rows L)))
        else
          try_bind (write_json (sl_trigger L) (r_trigger r)) (\<lambda>trig.
          try_bind (run_texts L r) (\<lambda>(budget, term').
            statement c 1 (sql_insert L (db_foreign_keys d) rr_id (r_session r \<in> sr_id ` set (db_sessions d))
              (run_row_of r trig budget term') (db_runs d))))))
     (\<lambda>rows. d\<lparr>db_runs := rows\<rparr>) d)"

definition run_of_row :: "store_libs \<Rightarrow> run_row \<Rightarrow> persistence_error + run" where
  "run_of_row L r =
     try_bind (read_status run_state_from_str ''state'' (rr_state r)) (\<lambda>state.
     try_bind (read_json (sl_trigger L) (rr_trigger_json r)) (\<lambda>trig.
     try_bind (read_json (sl_run_budget L) (rr_budget_json r)) (\<lambda>budget.
     try_bind (transpose_opt (read_json (sl_termination L)) (rr_termination_json r)) (\<lambda>term'.
       Inr \<lparr>r_id = rr_id r, r_session = rr_session r, r_state = state, r_trigger = trig,
            r_steps_used = word_of_int (rr_steps_used r),
            r_inference_calls_used = word_of_int (rr_inference_calls_used r),
            r_actions_used = word_of_int (rr_actions_used r), r_budget = budget,
            r_started_at = rr_started_at r, r_completed_at = rr_completed_at r, r_termination = term'\<rparr>))))"

definition run_get ::
  "store_libs \<Rightarrow> conn_state \<Rightarrow> run_id \<Rightarrow> db \<Rightarrow> (persistence_error + run option) \<times> db" where
  "run_get L c rid = interact c (\<lambda>d.
     (statement c 0 (transpose_opt (run_of_row L) (find (\<lambda>r. rr_id r = rid) (db_runs d))), d))"

definition run_change :: "run \<Rightarrow> string \<Rightarrow> string option \<Rightarrow> run_row \<Rightarrow> run_row" where
  "run_change r budget term' row =
     row\<lparr>rr_state := run_state_as_str (r_state r), rr_steps_used := uint (r_steps_used r),
         rr_inference_calls_used := uint (r_inference_calls_used r), rr_actions_used := uint (r_actions_used r),
         rr_budget_json := budget, rr_completed_at := r_completed_at r, rr_termination_json := term'\<rparr>"

definition run_update ::
  "store_libs \<Rightarrow> conn_state \<Rightarrow> run \<Rightarrow> db \<Rightarrow> (persistence_error + unit) \<times> db" where
  "run_update L c r = interact c (\<lambda>d. commit
     (try_bind (run_texts L r) (\<lambda>(budget, term').
        statement c 0 (updated (PeNotFound (r_id r))
          (sql_update (\<lambda>row. rr_id row = r_id r) (run_change r budget term') (db_runs d)))))
     (\<lambda>rows. d\<lparr>db_runs := rows\<rparr>) d)"

definition run_list_by_session ::
  "store_libs \<Rightarrow> conn_state \<Rightarrow> session_id \<Rightarrow> db \<Rightarrow> (persistence_error + run list) \<times> db" where
  "run_list_by_session L c sid = interact c (\<lambda>d.
     (decode_rows c 0 (run_of_row L) (sort_key (\<lambda>r. - rr_started_at r)
        (sl_scan_runs L QBySession (filter (\<lambda>r. rr_session r = sid) (db_runs d)))), d))"

definition run_get_active ::
  "store_libs \<Rightarrow> conn_state \<Rightarrow> session_id \<Rightarrow> db \<Rightarrow> (persistence_error + run option) \<times> db" where
  "run_get_active L c sid = interact c (\<lambda>d.
     (statement c 0 (transpose_opt (run_of_row L) (case active_rows L QActive sid d of [] \<Rightarrow> None | r # _ \<Rightarrow> Some r)), d))"

section \<open>Actions\<close>

definition action_row_of :: "action \<Rightarrow> string \<Rightarrow> string option \<Rightarrow> action_row" where
  "action_row_of a params receipt =
     \<lparr>ar_id = ac_id a, ar_run = ac_run a, ar_session = ac_session a, ar_capability = ac_capability a,
      ar_intent = ac_intent a, ar_params_json = params, ar_status = action_status_as_str (ac_status a),
      ar_receipt_json = receipt, ar_created_at = ac_created_at a, ar_completed_at = ac_completed_at a\<rparr>"

definition action_texts :: "store_libs \<Rightarrow> action \<Rightarrow> persistence_error + string \<times> string option" where
  "action_texts L a =
     try_bind (write_json (sl_json L) (ac_params a)) (\<lambda>params.
     try_bind (transpose_opt (write_json (sl_receipt L)) (ac_receipt a)) (\<lambda>receipt.
       Inr (params, receipt)))"

definition action_create ::
  "store_libs \<Rightarrow> conn_state \<Rightarrow> action \<Rightarrow> db \<Rightarrow> (persistence_error + unit) \<times> db" where
  "action_create L c a = interact c (\<lambda>d. commit
     (try_bind (action_texts L a) (\<lambda>(params, receipt).
        statement c 0 (sql_insert L (db_foreign_keys d) ar_id
          (ac_session a \<in> sr_id ` set (db_sessions d) \<and> ac_run a \<in> rr_id ` set (db_runs d))
          (action_row_of a params receipt) (db_actions d))))
     (\<lambda>rows. d\<lparr>db_actions := rows\<rparr>) d)"

definition action_of_row :: "store_libs \<Rightarrow> action_row \<Rightarrow> persistence_error + action" where
  "action_of_row L r =
     try_bind (read_json (sl_json L) (ar_params_json r)) (\<lambda>params.
     try_bind (read_status action_status_from_str ''status'' (ar_status r)) (\<lambda>status.
     try_bind (transpose_opt (read_json (sl_receipt L)) (ar_receipt_json r)) (\<lambda>receipt.
       Inr \<lparr>ac_id = ar_id r, ac_run = ar_run r, ac_session = ar_session r, ac_capability = ar_capability r,
            ac_intent = ar_intent r, ac_params = params, ac_status = status, ac_receipt = receipt,
            ac_created_at = ar_created_at r, ac_completed_at = ar_completed_at r\<rparr>)))"

definition action_get ::
  "store_libs \<Rightarrow> conn_state \<Rightarrow> action_id \<Rightarrow> db \<Rightarrow> (persistence_error + action option) \<times> db" where
  "action_get L c aid = interact c (\<lambda>d.
     (statement c 0 (transpose_opt (action_of_row L) (find (\<lambda>r. ar_id r = aid) (db_actions d))), d))"

definition action_update ::
  "store_libs \<Rightarrow> conn_state \<Rightarrow> action \<Rightarrow> db \<Rightarrow> (persistence_error + unit) \<times> db" where
  "action_update L c a = interact c (\<lambda>d. commit
     (try_bind (transpose_opt (write_json (sl_receipt L)) (ac_receipt a)) (\<lambda>receipt.
        statement c 0 (updated (PeNotFound (ac_id a))
          (sql_update (\<lambda>r. ar_id r = ac_id a)
             (\<lambda>r. r\<lparr>ar_status := action_status_as_str (ac_status a), ar_receipt_json := receipt,
                    ar_completed_at := ac_completed_at a\<rparr>)
             (db_actions d)))))
     (\<lambda>rows. d\<lparr>db_actions := rows\<rparr>) d)"

definition action_list_by_run ::
  "store_libs \<Rightarrow> conn_state \<Rightarrow> run_id \<Rightarrow> db \<Rightarrow> (persistence_error + action list) \<times> db" where
  "action_list_by_run L c rid = interact c (\<lambda>d.
     (decode_rows c 0 (action_of_row L) (sort_key ar_created_at
        (sl_scan_actions L (filter (\<lambda>r. ar_run r = rid) (db_actions d)))), d))"

section \<open>Approvals\<close>

definition approval_row_of :: "approval \<Rightarrow> approval_row" where
  "approval_row_of a =
     \<lparr>pr_id = ap_id a, pr_action = ap_action a, pr_run = ap_run a, pr_session = ap_session a,
      pr_prompt = ap_prompt a, pr_status = approval_status_as_str (ap_status a),
      pr_requested_at = ap_requested_at a, pr_decided_at = ap_decided_at a, pr_decided_by = ap_decided_by a\<rparr>"

definition approval_create ::
  "store_libs \<Rightarrow> conn_state \<Rightarrow> approval \<Rightarrow> db \<Rightarrow> (persistence_error + unit) \<times> db" where
  "approval_create L c a = interact c (\<lambda>d. commit
     (statement c 0 (sql_insert L (db_foreign_keys d) pr_id
        (ap_session a \<in> sr_id ` set (db_sessions d) \<and> ap_run a \<in> rr_id ` set (db_runs d) \<and>
         ap_action a \<in> ar_id ` set (db_actions d))
        (approval_row_of a) (db_approvals d)))
     (\<lambda>rows. d\<lparr>db_approvals := rows\<rparr>) d)"

definition approval_of_row :: "approval_row \<Rightarrow> persistence_error + approval" where
  "approval_of_row r =
     try_bind (read_status approval_status_from_str ''status'' (pr_status r)) (\<lambda>status.
       Inr \<lparr>ap_id = pr_id r, ap_action = pr_action r, ap_run = pr_run r, ap_session = pr_session r,
            ap_prompt = pr_prompt r, ap_status = status, ap_requested_at = pr_requested_at r,
            ap_decided_at = pr_decided_at r, ap_decided_by = pr_decided_by r\<rparr>)"

definition approval_get ::
  "store_libs \<Rightarrow> conn_state \<Rightarrow> approval_id \<Rightarrow> db \<Rightarrow> (persistence_error + approval option) \<times> db" where
  "approval_get L c pid = interact c (\<lambda>d.
     (statement c 0 (transpose_opt approval_of_row (find (\<lambda>r. pr_id r = pid) (db_approvals d))), d))"

definition approval_update ::
  "store_libs \<Rightarrow> conn_state \<Rightarrow> approval \<Rightarrow> db \<Rightarrow> (persistence_error + unit) \<times> db" where
  "approval_update L c a = interact c (\<lambda>d. commit
     (statement c 0 (updated (PeNotFound (ap_id a))
        (sql_update (\<lambda>r. pr_id r = ap_id a)
           (\<lambda>r. r\<lparr>pr_status := approval_status_as_str (ap_status a), pr_decided_at := ap_decided_at a,
                  pr_decided_by := ap_decided_by a\<rparr>)
           (db_approvals d))))
     (\<lambda>rows. d\<lparr>db_approvals := rows\<rparr>) d)"

definition approval_list_pending ::
  "store_libs \<Rightarrow> conn_state \<Rightarrow> db \<Rightarrow> (persistence_error + approval list) \<times> db" where
  "approval_list_pending L c = interact c (\<lambda>d.
     (decode_rows c 0 approval_of_row (sort_key pr_requested_at
        (sl_scan_approvals L (filter (\<lambda>r. pr_status r = ''pending'') (db_approvals d)))), d))"

end
