(* ===== verification/StoreFacts.thy ===== *)
theory StoreFacts
  imports Stores
begin

text \<open>
  What a successful operation of a store does to the tables, the invariant \<open>db_ok\<close> of the database (keys are
  unique, references exist, every row decodes), the step relation of the stores and its reachable states, and
  the stores as instances of \<open>keyed_store\<close>.
\<close>

section \<open>Outcomes\<close>

lemma commit_iff:
  "commit r put d = (res, d') \<longleftrightarrow>
   (\<exists>e. r = Inl e \<and> res = Inl e \<and> d' = d) \<or> (\<exists>rows. r = Inr rows \<and> res = Inr () \<and> d' = put rows)"
  by (cases r) (auto simp: commit_def)

lemma interact_Inr: "interact c f d = (Inr x, d') \<longleftrightarrow> conn_error c 0 = None \<and> f d = (Inr x, d')"
  by (cases c) (auto simp: interact_def)

text \<open>A statement that went through is one more use of the connection that it carried out.\<close>

lemma conn_error_Suc: "conn_error c (Suc n) = None \<longleftrightarrow> conn_error c n = None \<and> (\<forall>e. c \<noteq> ConnSqlFails n e)"
  by (cases c) auto

lemma conn_error_1: "conn_error c 0 = None \<Longrightarrow> \<forall>e. c \<noteq> ConnSqlFails 0 e \<Longrightarrow> conn_error c 1 = None"
  by (simp add: conn_error_Suc)

lemma interact_Ok [simp]: "interact ConnOk f d = f d"
  by (simp add: interact_def)

lemma interact_commit_failed: "interact c (\<lambda>d. commit (r d) (put d) d) d = (Inl e, d') \<Longrightarrow> d' = d"
  by (cases c) (auto simp: interact_def commit_iff)

lemma updated_Inr: "updated e r = Inr rows \<longleftrightarrow> rows = fst r \<and> 0 < snd r"
  by (auto simp: updated_def)

lemma read_status_Inr: "read_status f w s = Inr x \<longleftrightarrow> f s = Some x"
  by (auto simp: read_status_def split: option.splits)

lemma unit_result: "res = Inr () \<or> (\<exists>e. res = Inl e)"
  by (cases res) auto

section \<open>Decoding what was written\<close>

lemma codecs_okD:
  assumes "codecs_ok L"
  shows "codec_ok (sl_session_budget L)" "codec_ok (sl_message L)" "codec_ok (sl_trigger L)"
    "codec_ok (sl_run_budget L)" "codec_ok (sl_termination L)" "codec_ok (sl_json L)" "codec_ok (sl_receipt L)"
  using assms by (simp_all add: codecs_ok_def)

lemma session_row_decodes:
  assumes "codecs_ok L" "write_json (sl_session_budget L) (s_budget s) = Inr t"
  shows "session_of_row L (session_row_of s t) = Inr (s\<lparr>s_messages := []\<rparr>)"
  using write_read [OF codecs_okD(1) [OF assms(1)] assms(2)]
  by (simp add: session_of_row_def session_row_of_def read_status_def session_status_codec.dec_enc)

lemma run_texts_Inr:
  "run_texts L r = Inr (b, t) \<longleftrightarrow> write_json (sl_run_budget L) (r_budget r) = Inr b \<and>
     transpose_opt (write_json (sl_termination L)) (r_termination r) = Inr t"
  by (auto simp: run_texts_def try_bind_Inr_iff)

lemma action_texts_Inr:
  "action_texts L a = Inr (p, q) \<longleftrightarrow> write_json (sl_json L) (ac_params a) = Inr p \<and>
     transpose_opt (write_json (sl_receipt L)) (ac_receipt a) = Inr q"
  by (auto simp: action_texts_def try_bind_Inr_iff)

lemma run_row_decodes:
  assumes "codecs_ok L" "write_json (sl_trigger L) (r_trigger r) = Inr g" "run_texts L r = Inr (b, t)"
  shows "run_of_row L (run_row_of r g b t) = Inr r"
proof -
  from assms(3) have "read_json (sl_run_budget L) b = Inr (r_budget r)"
      "transpose_opt (read_json (sl_termination L)) t = Inr (r_termination r)"
    by (auto simp: run_texts_Inr intro: write_read write_read_opt codecs_okD [OF assms(1)])
  with write_read [OF codecs_okD(3) [OF assms(1)] assms(2)] show ?thesis
    by (simp add: run_of_row_def run_row_of_def read_status_def run_state_codec.dec_enc)
qed

lemma run_change_decodes:
  assumes "codecs_ok L" "run_texts L r = Inr (b, t)" "run_of_row L row = Inr old"
  shows "run_of_row L (run_change r b t row) =
    Inr (r\<lparr>r_id := rr_id row, r_session := r_session old, r_trigger := r_trigger old,
           r_started_at := r_started_at old\<rparr>)"
proof -
  from assms(2) have "read_json (sl_run_budget L) b = Inr (r_budget r)"
      "transpose_opt (read_json (sl_termination L)) t = Inr (r_termination r)"
    by (auto simp: run_texts_Inr intro: write_read write_read_opt codecs_okD [OF assms(1)])
  with assms(3) show ?thesis
    by (auto simp: run_of_row_def run_change_def read_status_def run_state_codec.dec_enc try_bind_Inr_iff)
qed

lemma action_row_decodes:
  assumes "codecs_ok L" "write_json (sl_json L) (ac_params a) = Inr p"
    "transpose_opt (write_json (sl_receipt L)) (ac_receipt a) = Inr q"
  shows "action_of_row L (action_row_of a p q) = Inr a"
  using write_read [OF codecs_okD(6) [OF assms(1)] assms(2)] write_read_opt [OF codecs_okD(7) [OF assms(1)] assms(3)]
  by (simp add: action_of_row_def action_row_of_def read_status_def action_status_codec.dec_enc)

lemma approval_row_decodes: "approval_of_row (approval_row_of a) = Inr a"
  by (simp add: approval_of_row_def approval_row_of_def read_status_def approval_status_codec.dec_enc)

section \<open>Successful operations\<close>

lemma session_create_Inr:
  assumes "session_create L c s d = (Inr (), d')"
  obtains t where "conn_error c 1 = None" "write_json (sl_session_budget L) (s_budget s) = Inr t"
    "s_id s \<notin> sr_id ` set (db_sessions d)"
    "d' = d\<lparr>db_sessions := db_sessions d @ [session_row_of s t]\<rparr>"
  using assms
  by (auto simp: session_create_def conn_error_Suc interact_Inr commit_iff try_bind_Inr_iff statement_Inr sql_insert_Inr session_row_of_def)

lemma message_append_Inr:
  assumes "message_append L c sid m d = (Inr (), d')"
  obtains t where "conn_error c 1 = None" "write_json (sl_message L) m = Inr t"
    "message_ident m \<notin> mr_id ` set (db_messages d)" "db_foreign_keys d \<longrightarrow> sid \<in> sr_id ` set (db_sessions d)"
    "d' = d\<lparr>db_messages := db_messages d @ [message_row_of sid m t]\<rparr>"
  using assms
  by (auto simp: message_append_def conn_error_Suc interact_Inr commit_iff try_bind_Inr_iff statement_Inr sql_insert_Inr message_row_of_def)

lemma run_create_Inr:
  assumes "run_create L c r d = (Inr (), d')"
  obtains g b t where "conn_error c 2 = None" "write_json (sl_trigger L) (r_trigger r) = Inr g" "run_texts L r = Inr (b, t)"
    "\<not> (\<exists>x\<in>set (db_runs d). run_row_active (r_session r) x)"
    "r_id r \<notin> rr_id ` set (db_runs d)" "db_foreign_keys d \<longrightarrow> r_session r \<in> sr_id ` set (db_sessions d)"
    "d' = d\<lparr>db_runs := db_runs d @ [run_row_of r g b t]\<rparr>"
  using assms
  by (auto simp: run_create_def conn_error_Suc numeral_2_eq_2 interact_Inr commit_iff try_bind_Inr_iff statement_Inr sql_insert_Inr filter_empty_conv
      run_row_of_def split: if_splits list.splits)

lemma action_create_Inr:
  assumes "action_create L c a d = (Inr (), d')"
  obtains p q where "conn_error c 1 = None" "write_json (sl_json L) (ac_params a) = Inr p"
    "transpose_opt (write_json (sl_receipt L)) (ac_receipt a) = Inr q"
    "ac_id a \<notin> ar_id ` set (db_actions d)"
    "db_foreign_keys d \<longrightarrow> ac_session a \<in> sr_id ` set (db_sessions d) \<and> ac_run a \<in> rr_id ` set (db_runs d)"
    "d' = d\<lparr>db_actions := db_actions d @ [action_row_of a p q]\<rparr>"
  using assms
  by (auto simp: action_create_def conn_error_Suc interact_Inr commit_iff try_bind_Inr_iff statement_Inr sql_insert_Inr action_texts_Inr action_row_of_def)

lemma approval_create_Inr:
  assumes "approval_create L c a d = (Inr (), d')"
  obtains "conn_error c 1 = None" "ap_id a \<notin> pr_id ` set (db_approvals d)"
    "db_foreign_keys d \<longrightarrow> ap_session a \<in> sr_id ` set (db_sessions d) \<and> ap_run a \<in> rr_id ` set (db_runs d) \<and>
       ap_action a \<in> ar_id ` set (db_actions d)"
    "d' = d\<lparr>db_approvals := db_approvals d @ [approval_row_of a]\<rparr>"
  using assms
  by (auto simp: approval_create_def conn_error_Suc interact_Inr commit_iff statement_Inr sql_insert_Inr approval_row_of_def)

lemma session_update_Inr:
  assumes "session_update L c now s d = (Inr (), d')"
  obtains t where "conn_error c 1 = None" "write_json (sl_session_budget L) (s_budget s) = Inr t"
    "\<exists>r\<in>set (db_sessions d). sr_id r = s_id s \<and> sr_version r = SqlInt (sint (s_version s))"
    "d' = d\<lparr>db_sessions := map (\<lambda>r. if sr_id r = s_id s \<and> sr_version r = SqlInt (sint (s_version s))
        then session_change now s t r else r) (db_sessions d)\<rparr>"
  using assms
  by (auto simp: session_update_def conn_error_Suc interact_Inr commit_iff try_bind_Inr_iff statement_Inr updated_Inr sql_update_def
      filter_empty_conv)

lemma run_update_Inr:
  assumes "run_update L c r d = (Inr (), d')"
  obtains b t where "conn_error c 1 = None" "run_texts L r = Inr (b, t)" "\<exists>x\<in>set (db_runs d). rr_id x = r_id r"
    "d' = d\<lparr>db_runs := map (\<lambda>x. if rr_id x = r_id r then run_change r b t x else x) (db_runs d)\<rparr>"
  using assms
  by (auto simp: run_update_def conn_error_Suc interact_Inr commit_iff try_bind_Inr_iff statement_Inr updated_Inr sql_update_def
      filter_empty_conv)

lemma action_update_Inr:
  assumes "action_update L c a d = (Inr (), d')"
  obtains q where "conn_error c 1 = None" "transpose_opt (write_json (sl_receipt L)) (ac_receipt a) = Inr q"
    "\<exists>x\<in>set (db_actions d). ar_id x = ac_id a"
    "d' = d\<lparr>db_actions := map (\<lambda>r. if ar_id r = ac_id a
       then r\<lparr>ar_status := action_status_as_str (ac_status a), ar_receipt_json := q,
              ar_completed_at := ac_completed_at a\<rparr> else r) (db_actions d)\<rparr>"
  using assms
  by (auto simp: action_update_def conn_error_Suc interact_Inr commit_iff try_bind_Inr_iff statement_Inr updated_Inr sql_update_def
      filter_empty_conv)

lemma approval_update_Inr:
  assumes "approval_update L c a d = (Inr (), d')"
  obtains "conn_error c 1 = None" "\<exists>x\<in>set (db_approvals d). pr_id x = ap_id a"
    "d' = d\<lparr>db_approvals := map (\<lambda>r. if pr_id r = ap_id a
       then r\<lparr>pr_status := approval_status_as_str (ap_status a), pr_decided_at := ap_decided_at a,
              pr_decided_by := ap_decided_by a\<rparr> else r) (db_approvals d)\<rparr>"
  using assms
  by (auto simp: approval_update_def conn_error_Suc interact_Inr commit_iff statement_Inr updated_Inr sql_update_def filter_empty_conv)

text \<open>An operation that fails leaves the database as it was.\<close>

lemma write_failed:
  "session_create L c s d = (Inl e, d') \<Longrightarrow> d' = d"
  "message_append L c sid m d = (Inl e, d') \<Longrightarrow> d' = d"
  "run_create L c r d = (Inl e, d') \<Longrightarrow> d' = d"
  "action_create L c a d = (Inl e, d') \<Longrightarrow> d' = d"
  "approval_create L c p d = (Inl e, d') \<Longrightarrow> d' = d"
  "session_update L c now s d = (Inl e, d') \<Longrightarrow> d' = d"
  "run_update L c r d = (Inl e, d') \<Longrightarrow> d' = d"
  "action_update L c a d = (Inl e, d') \<Longrightarrow> d' = d"
  "approval_update L c p d = (Inl e, d') \<Longrightarrow> d' = d"
  unfolding session_create_def message_append_def run_create_def action_create_def approval_create_def
    session_update_def run_update_def action_update_def approval_update_def
  by (auto dest: interact_commit_failed)

section \<open>The invariant\<close>

definition keys_ok :: "db \<Rightarrow> bool" where
  "keys_ok d \<longleftrightarrow> distinct (map sr_id (db_sessions d)) \<and> distinct (map mr_id (db_messages d)) \<and>
     distinct (map rr_id (db_runs d)) \<and> distinct (map ar_id (db_actions d)) \<and> distinct (map pr_id (db_approvals d))"

definition refs_ok :: "db \<Rightarrow> bool" where
  "refs_ok d \<longleftrightarrow>
     (\<forall>m\<in>set (db_messages d). mr_session m \<in> sr_id ` set (db_sessions d)) \<and>
     (\<forall>r\<in>set (db_runs d). rr_session r \<in> sr_id ` set (db_sessions d)) \<and>
     (\<forall>a\<in>set (db_actions d). ar_session a \<in> sr_id ` set (db_sessions d) \<and> ar_run a \<in> rr_id ` set (db_runs d)) \<and>
     (\<forall>p\<in>set (db_approvals d). pr_session p \<in> sr_id ` set (db_sessions d) \<and> pr_run p \<in> rr_id ` set (db_runs d) \<and>
        pr_action p \<in> ar_id ` set (db_actions d))"

text \<open>A version column holds a 64-bit integer or the real number.\<close>

fun sql_int_ok :: "sql_int \<Rightarrow> bool" where
  "sql_int_ok (SqlInt v) \<longleftrightarrow> - (2 ^ 63) \<le> v \<and> v < 2 ^ 63"
| "sql_int_ok SqlReal63 \<longleftrightarrow> True"

lemma sql_succ_ok: "sql_int_ok v \<Longrightarrow> sql_int_ok (sql_succ v)"
  by (cases v) auto

lemma sint_ok: "sql_int_ok (SqlInt (sint (v :: u64)))"
  using sint_ge [of v] sint_lt [of v] by simp

definition rows_ok :: "store_libs \<Rightarrow> db \<Rightarrow> bool" where
  "rows_ok L d \<longleftrightarrow>
     (\<forall>s\<in>set (db_sessions d). sql_int_ok (sr_version s) \<and> (sr_version s \<noteq> SqlReal63 \<longrightarrow> is_ok (session_of_row L s))) \<and>
     (\<forall>m\<in>set (db_messages d). is_ok (read_json (sl_message L) (mr_data m))) \<and>
     (\<forall>r\<in>set (db_runs d). is_ok (run_of_row L r)) \<and>
     (\<forall>a\<in>set (db_actions d). is_ok (action_of_row L a)) \<and>
     (\<forall>p\<in>set (db_approvals d). is_ok (approval_of_row p))"

definition db_ok :: "store_libs \<Rightarrow> db \<Rightarrow> bool" where
  "db_ok L d \<longleftrightarrow> codecs_ok L \<and> db_foreign_keys d \<and> keys_ok d \<and> refs_ok d \<and> rows_ok L d"

lemma db_okD:
  assumes "db_ok L d"
  shows "codecs_ok L" "db_foreign_keys d" "keys_ok d" "refs_ok d" "rows_ok L d"
  using assms by (simp_all add: db_ok_def)

lemmas db_parts = keys_ok_def refs_ok_def rows_ok_def

lemma empty_db_ok: "codecs_ok L \<Longrightarrow> db_ok L initialize_schema"
  by (simp add: db_ok_def db_parts initialize_schema_def)

lemma map_key_if: "(\<And>r. key (g r) = key r) \<Longrightarrow> map key (map (\<lambda>r. if P r then g r else r) rows) = map key rows"
  by (induction rows) auto

text \<open>Tables replaced by rows with the same keys.\<close>

lemma same_keys: "map key rows = map key old \<Longrightarrow> key ` set rows = key ` set old"
  by (metis set_map)

lemma db_ok_put_sessions:
  assumes "db_ok L d" "map sr_id rows = map sr_id (db_sessions d)"
    "\<forall>s\<in>set rows. sql_int_ok (sr_version s) \<and> (sr_version s \<noteq> SqlReal63 \<longrightarrow> is_ok (session_of_row L s))"
  shows "db_ok L (d\<lparr>db_sessions := rows\<rparr>)"
  using assms same_keys [OF assms(2)] unfolding db_ok_def db_parts by simp

lemma db_ok_put_runs:
  assumes "db_ok L d" "map rr_id rows = map rr_id (db_runs d)" "\<forall>r\<in>set rows. is_ok (run_of_row L r)"
    "\<forall>r\<in>set rows. rr_session r \<in> sr_id ` set (db_sessions d)"
  shows "db_ok L (d\<lparr>db_runs := rows\<rparr>)"
  using assms same_keys [OF assms(2)] unfolding db_ok_def db_parts by simp

lemma db_ok_put_actions:
  assumes "db_ok L d" "map ar_id rows = map ar_id (db_actions d)" "\<forall>r\<in>set rows. is_ok (action_of_row L r)"
    "\<forall>a\<in>set rows. ar_session a \<in> sr_id ` set (db_sessions d) \<and> ar_run a \<in> rr_id ` set (db_runs d)"
  shows "db_ok L (d\<lparr>db_actions := rows\<rparr>)"
  using assms same_keys [OF assms(2)] unfolding db_ok_def db_parts by simp

lemma db_ok_put_approvals:
  assumes "db_ok L d" "map pr_id rows = map pr_id (db_approvals d)" "\<forall>r\<in>set rows. is_ok (approval_of_row r)"
    "\<forall>p\<in>set rows. pr_session p \<in> sr_id ` set (db_sessions d) \<and> pr_run p \<in> rr_id ` set (db_runs d) \<and>
        pr_action p \<in> ar_id ` set (db_actions d)"
  shows "db_ok L (d\<lparr>db_approvals := rows\<rparr>)"
  using assms unfolding db_ok_def db_parts by simp

text \<open>Rows that are changed in place: what holds of every row still does, if the change keeps it.\<close>

lemma ball_map_if:
  "\<forall>x\<in>set rows. Q x \<Longrightarrow> (\<And>x. x \<in> set rows \<Longrightarrow> P x \<Longrightarrow> Q x \<Longrightarrow> Q (g x)) \<Longrightarrow>
   \<forall>x\<in>set (map (\<lambda>r. if P r then g r else r) rows). Q x"
  by auto

lemma session_create_ok:
  assumes "db_ok L d" "session_create L c s d = (Inr (), d')"
  shows "db_ok L d'"
  using assms(2)
proof (rule session_create_Inr)
  fix t
  assume t: "write_json (sl_session_budget L) (s_budget s) = Inr t" and new: "s_id s \<notin> sr_id ` set (db_sessions d)"
    and d': "d' = d\<lparr>db_sessions := db_sessions d @ [session_row_of s t]\<rparr>"
  have "is_ok (session_of_row L (session_row_of s t))"
    using session_row_decodes [OF db_okD(1) [OF assms(1)] t] by simp
  moreover have "sr_id (session_row_of s t) = s_id s" "sr_version (session_row_of s t) = SqlInt (sint (s_version s))"
    by (simp_all add: session_row_of_def)
  moreover have "sql_int_ok (SqlInt (sint (s_version s)))" by (rule sint_ok)
  ultimately show ?thesis using assms(1) new unfolding d' db_ok_def db_parts by auto
qed

lemma message_append_ok:
  assumes "db_ok L d" "message_append L c sid m d = (Inr (), d')"
  shows "db_ok L d'"
  using assms(2)
proof (rule message_append_Inr)
  fix t
  assume t: "write_json (sl_message L) m = Inr t" and new: "message_ident m \<notin> mr_id ` set (db_messages d)"
    and ref: "db_foreign_keys d \<longrightarrow> sid \<in> sr_id ` set (db_sessions d)"
    and d': "d' = d\<lparr>db_messages := db_messages d @ [message_row_of sid m t]\<rparr>"
  have "read_json (sl_message L) t = Inr m"
    using write_read [OF codecs_okD(2) [OF db_okD(1) [OF assms(1)]] t] .
  moreover have "mr_id (message_row_of sid m t) = message_ident m" "mr_session (message_row_of sid m t) = sid"
      "mr_data (message_row_of sid m t) = t"
    by (simp_all add: message_row_of_def)
  ultimately show ?thesis using assms(1) new ref unfolding d' db_ok_def db_parts by auto
qed

lemma run_create_ok:
  assumes "db_ok L d" "run_create L c r d = (Inr (), d')"
  shows "db_ok L d'"
  using assms(2)
proof (rule run_create_Inr)
  fix g b t
  assume t: "write_json (sl_trigger L) (r_trigger r) = Inr g" "run_texts L r = Inr (b, t)"
    and new: "r_id r \<notin> rr_id ` set (db_runs d)"
    and ref: "db_foreign_keys d \<longrightarrow> r_session r \<in> sr_id ` set (db_sessions d)"
    and d': "d' = d\<lparr>db_runs := db_runs d @ [run_row_of r g b t]\<rparr>"
  have "is_ok (run_of_row L (run_row_of r g b t))"
    using run_row_decodes [OF db_okD(1) [OF assms(1)] t] by simp
  moreover have "rr_id (run_row_of r g b t) = r_id r" "rr_session (run_row_of r g b t) = r_session r"
    by (simp_all add: run_row_of_def)
  ultimately show ?thesis using assms(1) new ref unfolding d' db_ok_def db_parts by auto
qed

lemma action_create_ok:
  assumes "db_ok L d" "action_create L c a d = (Inr (), d')"
  shows "db_ok L d'"
  using assms(2)
proof (rule action_create_Inr)
  fix p q
  assume t: "write_json (sl_json L) (ac_params a) = Inr p"
      "transpose_opt (write_json (sl_receipt L)) (ac_receipt a) = Inr q"
    and new: "ac_id a \<notin> ar_id ` set (db_actions d)"
    and ref: "db_foreign_keys d \<longrightarrow> ac_session a \<in> sr_id ` set (db_sessions d) \<and> ac_run a \<in> rr_id ` set (db_runs d)"
    and d': "d' = d\<lparr>db_actions := db_actions d @ [action_row_of a p q]\<rparr>"
  have "is_ok (action_of_row L (action_row_of a p q))"
    using action_row_decodes [OF db_okD(1) [OF assms(1)] t] by simp
  moreover have "ar_id (action_row_of a p q) = ac_id a" "ar_session (action_row_of a p q) = ac_session a"
      "ar_run (action_row_of a p q) = ac_run a"
    by (simp_all add: action_row_of_def)
  ultimately show ?thesis using assms(1) new ref unfolding d' db_ok_def db_parts by auto
qed

lemma approval_create_ok:
  assumes "db_ok L d" "approval_create L c a d = (Inr (), d')"
  shows "db_ok L d'"
  using assms(2)
proof (rule approval_create_Inr)
  assume new: "ap_id a \<notin> pr_id ` set (db_approvals d)"
    and ref: "db_foreign_keys d \<longrightarrow> ap_session a \<in> sr_id ` set (db_sessions d) \<and> ap_run a \<in> rr_id ` set (db_runs d) \<and>
       ap_action a \<in> ar_id ` set (db_actions d)"
    and d': "d' = d\<lparr>db_approvals := db_approvals d @ [approval_row_of a]\<rparr>"
  have "is_ok (approval_of_row (approval_row_of a))" by (simp add: approval_row_decodes)
  moreover have "pr_id (approval_row_of a) = ap_id a" "pr_session (approval_row_of a) = ap_session a"
      "pr_run (approval_row_of a) = ap_run a" "pr_action (approval_row_of a) = ap_action a"
    by (simp_all add: approval_row_of_def)
  ultimately show ?thesis using assms(1) new ref unfolding d' db_ok_def db_parts by auto
qed

section \<open>Updates keep the invariant\<close>

lemma session_update_ok:
  assumes "db_ok L d" "session_update L c now s d = (Inr (), d')"
  shows "db_ok L d'"
  using assms(2)
proof (rule session_update_Inr)
  fix t
  let ?P = "\<lambda>r. sr_id r = s_id s \<and> sr_version r = SqlInt (sint (s_version s))"
  let ?g = "session_change now s t"
  let ?rows = "map (\<lambda>r. if ?P r then ?g r else r) (db_sessions d)"
  assume t: "write_json (sl_session_budget L) (s_budget s) = Inr t" and d': "d' = d\<lparr>db_sessions := ?rows\<rparr>"
  have k: "sr_id (?g r) = sr_id r" for r by (simp add: session_change_def)
  have b: "read_json (sl_session_budget L) t = Inr (s_budget s)"
    using write_read [OF codecs_okD(1) [OF db_okD(1) [OF assms(1)]] t] .
  have dec: "sr_version (?g r) \<noteq> SqlReal63 \<longrightarrow> is_ok (session_of_row L (?g r))" for r
    by (auto simp: session_of_row_def session_change_def b read_status_def session_status_codec.dec_enc
        split: sql_int.splits)
  have ver: "sql_int_ok (sr_version r) \<Longrightarrow> sql_int_ok (sr_version (?g r))" for r
    by (simp add: session_change_def sql_succ_ok)
  have "\<forall>r\<in>set ?rows. sql_int_ok (sr_version r) \<and> (sr_version r \<noteq> SqlReal63 \<longrightarrow> is_ok (session_of_row L r))"
    by (rule ball_map_if) (use dec ver db_okD(5) [OF assms(1)] in \<open>auto simp: rows_ok_def\<close>)
  with assms(1) map_key_if [of sr_id ?g ?P "db_sessions d", OF k] show ?thesis
    unfolding d' by (rule db_ok_put_sessions)
qed

lemma run_update_ok:
  assumes "db_ok L d" "run_update L c r d = (Inr (), d')"
  shows "db_ok L d'"
  using assms(2)
proof (rule run_update_Inr)
  fix b t
  let ?P = "\<lambda>x. rr_id x = r_id r"
  let ?g = "run_change r b t"
  let ?rows = "map (\<lambda>x. if ?P x then ?g x else x) (db_runs d)"
  assume t: "run_texts L r = Inr (b, t)" and d': "d' = d\<lparr>db_runs := ?rows\<rparr>"
  have k: "rr_id (?g x) = rr_id x" "rr_session (?g x) = rr_session x" for x by (simp_all add: run_change_def)
  have dec: "is_ok (run_of_row L x) \<Longrightarrow> is_ok (run_of_row L (?g x))" for x
    using run_change_decodes [OF db_okD(1) [OF assms(1)] t] by (fastforce simp: is_ok_iff)
  have "\<forall>x\<in>set ?rows. is_ok (run_of_row L x)"
    by (rule ball_map_if) (use dec db_okD(5) [OF assms(1)] in \<open>auto simp: rows_ok_def\<close>)
  moreover have "\<forall>x\<in>set ?rows. rr_session x \<in> sr_id ` set (db_sessions d)"
    by (rule ball_map_if) (use k db_okD(4) [OF assms(1)] in \<open>auto simp: refs_ok_def\<close>)
  ultimately show ?thesis
    unfolding d' using assms(1) map_key_if [of rr_id ?g ?P "db_runs d", OF k(1)] by (intro db_ok_put_runs)
qed

lemma action_update_ok:
  assumes "db_ok L d" "action_update L c a d = (Inr (), d')"
  shows "db_ok L d'"
  using assms(2)
proof (rule action_update_Inr)
  fix q
  let ?P = "\<lambda>x. ar_id x = ac_id a"
  let ?g = "\<lambda>x. x\<lparr>ar_status := action_status_as_str (ac_status a), ar_receipt_json := q,
      ar_completed_at := ac_completed_at a\<rparr>"
  let ?rows = "map (\<lambda>x. if ?P x then ?g x else x) (db_actions d)"
  assume t: "transpose_opt (write_json (sl_receipt L)) (ac_receipt a) = Inr q" and d': "d' = d\<lparr>db_actions := ?rows\<rparr>"
  have dec: "is_ok (action_of_row L x) \<Longrightarrow> is_ok (action_of_row L (?g x))" for x
    using write_read_opt [OF codecs_okD(7) [OF db_okD(1) [OF assms(1)]] t]
    by (auto simp: is_ok_iff action_of_row_def try_bind_Inr_iff read_status_def action_status_codec.dec_enc)
  have "\<forall>x\<in>set ?rows. is_ok (action_of_row L x)"
    by (rule ball_map_if) (use dec db_okD(5) [OF assms(1)] in \<open>auto simp: rows_ok_def\<close>)
  moreover have "\<forall>x\<in>set ?rows. ar_session x \<in> sr_id ` set (db_sessions d) \<and> ar_run x \<in> rr_id ` set (db_runs d)"
    by (rule ball_map_if) (use db_okD(4) [OF assms(1)] in \<open>auto simp: refs_ok_def\<close>)
  moreover have "map ar_id ?rows = map ar_id (db_actions d)" by (rule map_key_if) simp
  ultimately show ?thesis unfolding d' using assms(1) by (intro db_ok_put_actions)
qed

lemma approval_update_ok:
  assumes "db_ok L d" "approval_update L c a d = (Inr (), d')"
  shows "db_ok L d'"
  using assms(2)
proof (rule approval_update_Inr)
  let ?P = "\<lambda>x. pr_id x = ap_id a"
  let ?g = "\<lambda>x. x\<lparr>pr_status := approval_status_as_str (ap_status a), pr_decided_at := ap_decided_at a,
      pr_decided_by := ap_decided_by a\<rparr>"
  let ?rows = "map (\<lambda>x. if ?P x then ?g x else x) (db_approvals d)"
  assume d': "d' = d\<lparr>db_approvals := ?rows\<rparr>"
  have "\<forall>x\<in>set ?rows. is_ok (approval_of_row x)"
    by (rule ball_map_if) (use db_okD(5) [OF assms(1)] in
        \<open>auto simp: rows_ok_def approval_of_row_def read_status_def approval_status_codec.dec_enc\<close>)
  moreover have "\<forall>x\<in>set ?rows. pr_session x \<in> sr_id ` set (db_sessions d) \<and> pr_run x \<in> rr_id ` set (db_runs d) \<and>
      pr_action x \<in> ar_id ` set (db_actions d)"
    by (rule ball_map_if) (use db_okD(4) [OF assms(1)] in \<open>auto simp: refs_ok_def\<close>)
  moreover have "map pr_id ?rows = map pr_id (db_approvals d)" by (rule map_key_if) simp
  ultimately show ?thesis unfolding d' using assms(1) by (intro db_ok_put_approvals)
qed

section \<open>Steps of the stores\<close>

text \<open>One call of an operation that writes, in any state of the connection and with any outcome.\<close>

inductive store_step :: "store_libs \<Rightarrow> db \<Rightarrow> db \<Rightarrow> bool" for L :: store_libs where
  st_session_create: "session_create L c s d = (res, d') \<Longrightarrow> store_step L d d'"
| st_session_update: "session_update L c now s d = (res, d') \<Longrightarrow> store_step L d d'"
| st_message_append: "message_append L c sid m d = (res, d') \<Longrightarrow> store_step L d d'"
| st_run_create: "run_create L c r d = (res, d') \<Longrightarrow> store_step L d d'"
| st_run_update: "run_update L c r d = (res, d') \<Longrightarrow> store_step L d d'"
| st_action_create: "action_create L c a d = (res, d') \<Longrightarrow> store_step L d d'"
| st_action_update: "action_update L c a d = (res, d') \<Longrightarrow> store_step L d d'"
| st_approval_create: "approval_create L c p d = (res, d') \<Longrightarrow> store_step L d d'"
| st_approval_update: "approval_update L c p d = (res, d') \<Longrightarrow> store_step L d d'"

lemma step_of:
  assumes "db_ok L d" "op = (res, d')" "\<And>e. op = (Inl e, d') \<Longrightarrow> d' = d" "op = (Inr (), d') \<Longrightarrow> db_ok L d'"
  shows "db_ok L d'"
  using assms unit_result [of res] by auto

lemma store_step_ok: "store_step L d d' \<Longrightarrow> db_ok L d \<Longrightarrow> db_ok L d'"
proof (induction rule: store_step.induct)
  case (st_session_create c s d res d')
  from st_session_create(2) st_session_create(1) show ?case
    by (rule step_of) (auto dest: write_failed session_create_ok [OF st_session_create(2)])
next
  case (st_session_update c now s d res d')
  from st_session_update(2) st_session_update(1) show ?case
    by (rule step_of) (auto dest: write_failed session_update_ok [OF st_session_update(2)])
next
  case (st_message_append c sid m d res d')
  from st_message_append(2) st_message_append(1) show ?case
    by (rule step_of) (auto dest: write_failed message_append_ok [OF st_message_append(2)])
next
  case (st_run_create c r d res d')
  from st_run_create(2) st_run_create(1) show ?case
    by (rule step_of) (auto dest: write_failed run_create_ok [OF st_run_create(2)])
next
  case (st_run_update c r d res d')
  from st_run_update(2) st_run_update(1) show ?case
    by (rule step_of) (auto dest: write_failed run_update_ok [OF st_run_update(2)])
next
  case (st_action_create c a d res d')
  from st_action_create(2) st_action_create(1) show ?case
    by (rule step_of) (auto dest: write_failed action_create_ok [OF st_action_create(2)])
next
  case (st_action_update c a d res d')
  from st_action_update(2) st_action_update(1) show ?case
    by (rule step_of) (auto dest: write_failed action_update_ok [OF st_action_update(2)])
next
  case (st_approval_create c p d res d')
  from st_approval_create(2) st_approval_create(1) show ?case
    by (rule step_of) (auto dest: write_failed approval_create_ok [OF st_approval_create(2)])
next
  case (st_approval_update c p d res d')
  from st_approval_update(2) st_approval_update(1) show ?case
    by (rule step_of) (auto dest: write_failed approval_update_ok [OF st_approval_update(2)])
qed

interpretation stores: invariant_system "\<lambda>d. codecs_ok L \<and> d = initialize_schema" "store_step L" "db_ok L"
  for L :: store_libs
  by unfold_locales (auto simp: empty_db_ok intro: store_step_ok)

end
