(* ===== verification/StoreProps.thy ===== *)
theory StoreProps
  imports StoreFacts
begin

text \<open>
  The contract of the stores: sessions, messages, runs, actions and approvals are \<open>keyed_store\<close>s; reachable
  databases are consistent and readable; updates of a session are optimistic; a session has one active run;
  conversations are listed in order; pending approvals are the ones that wait for a decision.
\<close>

section \<open>The stores are keyed stores\<close>

lemma op_cases:
  assumes "op = (res, d')" "op = (Inr (), d') \<Longrightarrow> P" "\<And>e. op = (Inl e, d') \<Longrightarrow> P"
  shows P
  using assms unit_result [of res] by auto

lemma new_session_no_messages:
  "refs_ok d \<Longrightarrow> sid \<notin> sr_id ` set (db_sessions d) \<Longrightarrow> session_messages sid d = []"
proof -
  assume "refs_ok d" "sid \<notin> sr_id ` set (db_sessions d)"
  then have "filter (\<lambda>r. mr_session r = sid) (db_messages d) = []"
    by (auto simp: refs_ok_def filter_empty_conv)
  then show ?thesis by (simp add: session_messages_def)
qed

lemma session_messages_sessions [simp]: "session_messages sid (d\<lparr>db_sessions := rows\<rparr>) = session_messages sid d"
  by (simp add: session_messages_def)

interpretation session_store: keyed_store "session_create L c" "\<lambda>k d. fst (session_get L ConnOk k d)" s_id
  "\<lambda>s. s\<lparr>s_messages := []\<rparr>" "db_ok L" for L :: store_libs and c :: conn_state
proof unfold_locales
  fix d s res d'
  assume "db_ok L d" "session_create L c s d = (res, d')"
  then show "db_ok L d'" by (rule store_step_ok [OF st_session_create, rotated])
next
  fix d s d'
  assume ok: "db_ok L d" and cr: "session_create L c s d = (Inr (), d')"
  from cr obtain t where t: "write_json (sl_session_budget L) (s_budget s) = Inr t"
    and new: "s_id s \<notin> sr_id ` set (db_sessions d)"
    and d': "d' = d\<lparr>db_sessions := db_sessions d @ [session_row_of s t]\<rparr>" by (rule session_create_Inr)
  have k: "sr_id (session_row_of s t) = s_id s" by (simp add: session_row_of_def)
  note fresh = new_session_no_messages [OF db_okD(4) [OF ok] new]
  have find: "find (\<lambda>r. sr_id r = k') (db_sessions d') =
      (if s_id s = k' then Some (session_row_of s t) else find (\<lambda>r. sr_id r = k') (db_sessions d))" for k'
    using find_key_snoc [of sr_id "session_row_of s t" "db_sessions d" k'] new k by (simp add: d')
  have msgs: "session_messages x d' = session_messages x d" for x by (simp add: d')
  show "fst (session_get L ConnOk (s_id s) d') = Inr (Some (s\<lparr>s_messages := []\<rparr>))"
    using session_row_decodes [OF db_okD(1) [OF ok] t] fresh
    by (simp add: session_get_def find k msgs)
  show "fst (session_get L ConnOk k' d') = fst (session_get L ConnOk k' d)" if "k' \<noteq> s_id s" for k'
    using that by (simp add: session_get_def find msgs)
  show "fst (session_get L ConnOk (s_id s) d) = Inr None"
    using new find_key_None [of "s_id s" sr_id "db_sessions d"] by (simp add: session_get_def)
next
  fix d s e d'
  show "session_create L c s d = (Inl e, d') \<Longrightarrow> d' = d" by (rule write_failed)
qed

interpretation message_store: keyed_store "message_append L c sid" "\<lambda>k d. fst (message_get L ConnOk k d)" message_ident
  "\<lambda>m. m" "db_ok L" for L :: store_libs and c :: conn_state and sid :: session_id
proof unfold_locales
  fix d m res d'
  assume "db_ok L d" "message_append L c sid m d = (res, d')"
  then show "db_ok L d'" by (rule store_step_ok [OF st_message_append, rotated])
next
  fix d m d'
  assume ok: "db_ok L d" and cr: "message_append L c sid m d = (Inr (), d')"
  from cr obtain t where t: "write_json (sl_message L) m = Inr t"
    and new: "message_ident m \<notin> mr_id ` set (db_messages d)"
    and d': "d' = d\<lparr>db_messages := db_messages d @ [message_row_of sid m t]\<rparr>" by (rule message_append_Inr)
  have k: "mr_id (message_row_of sid m t) = message_ident m" "mr_data (message_row_of sid m t) = t"
    by (simp_all add: message_row_of_def)
  have find: "find (\<lambda>r. mr_id r = k') (db_messages d') =
      (if message_ident m = k' then Some (message_row_of sid m t) else find (\<lambda>r. mr_id r = k') (db_messages d))" for k'
    using find_key_snoc [of mr_id "message_row_of sid m t" "db_messages d" k'] new k by (simp add: d')
  show "fst (message_get L ConnOk (message_ident m) d') = Inr (Some m)"
    using write_read [OF codecs_okD(2) [OF db_okD(1) [OF ok]] t] by (simp add: message_get_def find k)
  show "fst (message_get L ConnOk k' d') = fst (message_get L ConnOk k' d)" if "k' \<noteq> message_ident m" for k'
    using that by (simp add: message_get_def find)
  show "fst (message_get L ConnOk (message_ident m) d) = Inr None"
    using new find_key_None [of "message_ident m" mr_id "db_messages d"] by (simp add: message_get_def)
next
  fix d m e d'
  show "message_append L c sid m d = (Inl e, d') \<Longrightarrow> d' = d" by (rule write_failed)
qed

interpretation run_store: keyed_store "run_create L c" "\<lambda>k d. fst (run_get L ConnOk k d)" r_id
  "\<lambda>r. r" "db_ok L" for L :: store_libs and c :: conn_state
proof unfold_locales
  fix d r res d'
  assume "db_ok L d" "run_create L c r d = (res, d')"
  then show "db_ok L d'" by (rule store_step_ok [OF st_run_create, rotated])
next
  fix d r d'
  assume ok: "db_ok L d" and cr: "run_create L c r d = (Inr (), d')"
  from cr obtain g b t where t: "write_json (sl_trigger L) (r_trigger r) = Inr g" "run_texts L r = Inr (b, t)"
    and new: "r_id r \<notin> rr_id ` set (db_runs d)"
    and d': "d' = d\<lparr>db_runs := db_runs d @ [run_row_of r g b t]\<rparr>" by (rule run_create_Inr)
  have k: "rr_id (run_row_of r g b t) = r_id r" by (simp add: run_row_of_def)
  have find: "find (\<lambda>r. rr_id r = k') (db_runs d') =
      (if r_id r = k' then Some (run_row_of r g b t) else find (\<lambda>r. rr_id r = k') (db_runs d))" for k'
    using find_key_snoc [of rr_id "run_row_of r g b t" "db_runs d" k'] new k by (simp add: d')
  show "fst (run_get L ConnOk (r_id r) d') = Inr (Some r)"
    using run_row_decodes [OF db_okD(1) [OF ok] t] by (simp add: run_get_def find)
  show "fst (run_get L ConnOk k' d') = fst (run_get L ConnOk k' d)" if "k' \<noteq> r_id r" for k'
    using that by (simp add: run_get_def find)
  show "fst (run_get L ConnOk (r_id r) d) = Inr None"
    using new find_key_None [of "r_id r" rr_id "db_runs d"] by (simp add: run_get_def)
next
  fix d r e d'
  show "run_create L c r d = (Inl e, d') \<Longrightarrow> d' = d" by (rule write_failed)
qed

interpretation action_store: keyed_store "action_create L c" "\<lambda>k d. fst (action_get L ConnOk k d)" ac_id
  "\<lambda>a. a" "db_ok L" for L :: store_libs and c :: conn_state
proof unfold_locales
  fix d a res d'
  assume "db_ok L d" "action_create L c a d = (res, d')"
  then show "db_ok L d'" by (rule store_step_ok [OF st_action_create, rotated])
next
  fix d a d'
  assume ok: "db_ok L d" and cr: "action_create L c a d = (Inr (), d')"
  from cr obtain p q where t: "write_json (sl_json L) (ac_params a) = Inr p"
      "transpose_opt (write_json (sl_receipt L)) (ac_receipt a) = Inr q"
    and new: "ac_id a \<notin> ar_id ` set (db_actions d)"
    and d': "d' = d\<lparr>db_actions := db_actions d @ [action_row_of a p q]\<rparr>" by (rule action_create_Inr)
  have k: "ar_id (action_row_of a p q) = ac_id a" by (simp add: action_row_of_def)
  have find: "find (\<lambda>r. ar_id r = k') (db_actions d') =
      (if ac_id a = k' then Some (action_row_of a p q) else find (\<lambda>r. ar_id r = k') (db_actions d))" for k'
    using find_key_snoc [of ar_id "action_row_of a p q" "db_actions d" k'] new k by (simp add: d')
  show "fst (action_get L ConnOk (ac_id a) d') = Inr (Some a)"
    using action_row_decodes [OF db_okD(1) [OF ok] t] by (simp add: action_get_def find)
  show "fst (action_get L ConnOk k' d') = fst (action_get L ConnOk k' d)" if "k' \<noteq> ac_id a" for k'
    using that by (simp add: action_get_def find)
  show "fst (action_get L ConnOk (ac_id a) d) = Inr None"
    using new find_key_None [of "ac_id a" ar_id "db_actions d"] by (simp add: action_get_def)
next
  fix d a e d'
  show "action_create L c a d = (Inl e, d') \<Longrightarrow> d' = d" by (rule write_failed)
qed

interpretation approval_store: keyed_store "approval_create L c" "\<lambda>k d. fst (approval_get L ConnOk k d)" ap_id
  "\<lambda>a. a" "db_ok L" for L :: store_libs and c :: conn_state
proof unfold_locales
  fix d a res d'
  assume "db_ok L d" "approval_create L c a d = (res, d')"
  then show "db_ok L d'" by (rule store_step_ok [OF st_approval_create, rotated])
next
  fix d a d'
  assume ok: "db_ok L d" and cr: "approval_create L c a d = (Inr (), d')"
  from cr have new: "ap_id a \<notin> pr_id ` set (db_approvals d)"
    and d': "d' = d\<lparr>db_approvals := db_approvals d @ [approval_row_of a]\<rparr>" by (auto elim: approval_create_Inr)
  have k: "pr_id (approval_row_of a) = ap_id a" by (simp add: approval_row_of_def)
  have find: "find (\<lambda>r. pr_id r = k') (db_approvals d') =
      (if ap_id a = k' then Some (approval_row_of a) else find (\<lambda>r. pr_id r = k') (db_approvals d))" for k'
    using find_key_snoc [of pr_id "approval_row_of a" "db_approvals d" k'] new k by (simp add: d')
  show "fst (approval_get L ConnOk (ap_id a) d') = Inr (Some a)"
    by (simp add: approval_get_def find approval_row_decodes)
  show "fst (approval_get L ConnOk k' d') = fst (approval_get L ConnOk k' d)" if "k' \<noteq> ap_id a" for k'
    using that by (simp add: approval_get_def find)
  show "fst (approval_get L ConnOk (ap_id a) d) = Inr None"
    using new find_key_None [of "ap_id a" pr_id "db_approvals d"] by (simp add: approval_get_def)
next
  fix d a e d'
  show "approval_create L c a d = (Inl e, d') \<Longrightarrow> d' = d" by (rule write_failed)
qed

section \<open>A concrete set of libraries\<close>

text \<open>Serializations of finitely many values, for the instances at concrete inputs.\<close>

definition list_codec :: "('a \<times> string) list \<Rightarrow> 'a codec" where
  "list_codec tbl = \<lparr>
     to_text = (\<lambda>x. case find (\<lambda>p. fst p = x) tbl of Some p \<Rightarrow> Inr (snd p) | None \<Rightarrow> Inl ''not serializable''),
     of_text = (\<lambda>t. case find (\<lambda>p. snd p = t) tbl of Some p \<Rightarrow> Inr (fst p) | None \<Rightarrow> Inl ''expected value'')\<rparr>"

lemma list_codec_ok:
  assumes "distinct (map snd tbl)"
  shows "codec_ok (list_codec tbl)"
  unfolding codec_ok_def
proof (intro allI impI)
  fix x t
  assume "to_text (list_codec tbl) x = Inr t"
  then obtain p where p: "p \<in> set tbl" "fst p = x" "snd p = t"
    by (auto simp: list_codec_def find_Some_iff split: option.splits)
  then have "find (\<lambda>p. snd p = t) tbl \<noteq> None" unfolding find_None_all by blast
  then obtain q where q: "find (\<lambda>p. snd p = t) tbl = Some q" by blast
  then have "q \<in> set tbl" "snd q = t" by (auto dest: find_SomeD)
  with p assms have "q = p" by (metis eq_key_imp_eq_value prod.collapse distinct_map inj_onD)
  with q p show "of_text (list_codec tbl) t = Inr x" by (simp add: list_codec_def)
qed

definition demo_msg :: "string \<Rightarrow> i64 \<Rightarrow> message" where
  "demo_msg i t = MsgUser \<lparr>tm_id = i, tm_content = ''hello'', tm_created_at = t\<rparr>"

definition demo_libs :: store_libs where
  "demo_libs = \<lparr>
     sl_session_budget = list_codec [(default_session_budget, ''b'')],
     sl_message = list_codec [(demo_msg ''m1'' 5, ''1''), (demo_msg ''m2'' 3, ''2''), (demo_msg ''m3'' 5, ''3'')],
     sl_trigger = list_codec [(TrHeartbeat, ''h''), (TrResume, ''r'')],
     sl_run_budget = list_codec [(default_run_budget, ''b'')],
     sl_termination = list_codec [(TermCompleted, ''c'')],
     sl_json = list_codec [(JNull, ''null'')],
     sl_receipt = list_codec [],
     sl_unique_failed = ''UNIQUE constraint failed'', sl_foreign_key_failed = ''FOREIGN KEY constraint failed'',
     sl_bad_column_type = ''Invalid column type'', sl_no_rows = ''Query returned no rows'',
     sl_scan_sessions = (\<lambda>rs. rs), sl_scan_runs = (\<lambda>_ rs. rs), sl_scan_actions = (\<lambda>rs. rs),
     sl_scan_approvals = (\<lambda>rs. rs)\<rparr>"

lemma demo_libs_ok: "codecs_ok demo_libs" "scans_ok demo_libs"
  by (simp_all add: codecs_ok_def scans_ok_def demo_libs_def list_codec_ok)

section \<open>Reachable databases\<close>

lemma decode_all_Inr: "decode_all f rs = Inr xs \<longleftrightarrow> list_all2 (\<lambda>r x. f r = Inr x) rs xs"
proof (induction rs arbitrary: xs)
  case (Cons r rs)
  then show ?case by (cases xs) (auto simp: try_bind_Inr_iff)
qed auto

lemma decode_all_ok: "\<forall>r\<in>set rs. is_ok (f r) \<Longrightarrow> is_ok (decode_all f rs)"
  by (induction rs) (auto simp: is_ok_iff)

lemma transpose_ok: "(\<And>r. o' = Some r \<Longrightarrow> is_ok (f r)) \<Longrightarrow> is_ok (transpose_opt f o')"
  by (cases o') (auto simp: is_ok_iff)

lemma scans_set:
  assumes "scans_ok L"
  shows "set (sl_scan_runs L q rs) = set rs" "set (sl_scan_actions L as) = set as"
    "set (sl_scan_approvals L ps) = set ps" "set (sl_scan_sessions L ss) = set ss"
  using assms unfolding scans_ok_def by (metis mset_eq_setD)+

lemma reachable_db_ok: "codecs_ok L \<Longrightarrow> (store_step L)\<^sup>*\<^sup>* initialize_schema d \<Longrightarrow> db_ok L d"
  using stores.reached_inv by blast

text \<open>
  C9: Whatever sequence of store operations ran, with whatever outcomes and connection failures, keys are
  unique, every message, run, action and approval refers to rows that exist, and every read of messages, runs,
  actions and approvals decodes: nothing the stores write is unreadable later.
\<close>

theorem stored_data_consistent:
  assumes "codecs_ok L" "scans_ok L" "(store_step L)\<^sup>*\<^sup>* initialize_schema d"
  shows "keys_ok d \<and> refs_ok d \<and>
    is_ok (fst (message_list L ConnOk sid d)) \<and> is_ok (fst (message_get L ConnOk mid d)) \<and>
    is_ok (fst (run_get L ConnOk rid d)) \<and> is_ok (fst (run_list_by_session L ConnOk sid d)) \<and>
    is_ok (fst (run_get_active L ConnOk sid d)) \<and>
    is_ok (fst (action_get L ConnOk aid d)) \<and> is_ok (fst (action_list_by_run L ConnOk rid d)) \<and>
    is_ok (fst (approval_get L ConnOk pid d)) \<and> is_ok (fst (approval_list_pending L ConnOk d))"
proof -
  have ok: "db_ok L d" using assms(1,3) by (rule reachable_db_ok)
  then have rows: "\<forall>m\<in>set (db_messages d). is_ok (read_json (sl_message L) (mr_data m))"
    "\<forall>r\<in>set (db_runs d). is_ok (run_of_row L r)" "\<forall>a\<in>set (db_actions d). is_ok (action_of_row L a)"
    "\<forall>p\<in>set (db_approvals d). is_ok (approval_of_row p)"
    by (simp_all add: db_ok_def rows_ok_def)
  have act: "r \<in> set (db_runs d)" if "active_rows L q sid d = r # rs" for q r rs
    using that scans_set(1) [OF assms(2), of q "filter (run_row_active sid) (db_runs d)"]
    unfolding active_rows_def by auto
  have "is_ok (fst (message_list L ConnOk sid d))" "is_ok (fst (message_get L ConnOk mid d))"
    unfolding message_list_def message_get_def session_messages_def
    using rows(1) by (auto intro!: decode_all_ok transpose_ok dest: find_SomeD)
  moreover have "is_ok (fst (run_get L ConnOk rid d))" "is_ok (fst (run_list_by_session L ConnOk sid d))"
    unfolding run_get_def run_list_by_session_def
    using rows(2) by (auto intro!: decode_all_ok transpose_ok dest: find_SomeD simp: scans_set [OF assms(2)])
  moreover have "is_ok (fst (run_get_active L ConnOk sid d))"
  proof (cases "active_rows L QActive sid d")
    case (Cons r rs)
    then have "is_ok (run_of_row L r)" using act rows(2) by blast
    with Cons show ?thesis by (auto simp: run_get_active_def is_ok_iff)
  qed (simp add: run_get_active_def)
  moreover have "is_ok (fst (action_get L ConnOk aid d))" "is_ok (fst (action_list_by_run L ConnOk rid d))"
    unfolding action_get_def action_list_by_run_def
    using rows(3) by (auto intro!: decode_all_ok transpose_ok dest: find_SomeD simp: scans_set [OF assms(2)])
  moreover have "is_ok (fst (approval_get L ConnOk pid d))" "is_ok (fst (approval_list_pending L ConnOk d))"
    unfolding approval_get_def approval_list_pending_def
    using rows(4) by (auto intro!: decode_all_ok transpose_ok dest: find_SomeD simp: scans_set [OF assms(2)])
  ultimately show ?thesis using ok by (simp add: db_ok_def)
qed

definition demo_session :: session where
  "demo_session = new_session ''s1'' 10 None"

definition demo_run :: "string \<Rightarrow> run" where
  "demo_run i = new_run i 20 ''s1'' TrHeartbeat default_run_budget"

definition demo_db :: db where
  "demo_db = snd (run_create demo_libs ConnOk (demo_run ''r1'') (snd (session_create demo_libs ConnOk demo_session
     initialize_schema)))"

lemma demo_steps: "(store_step demo_libs)\<^sup>*\<^sup>* initialize_schema demo_db"
proof -
  have "store_step demo_libs d (snd (session_create demo_libs ConnOk s d))" for d s
    by (rule st_session_create) (rule prod.collapse [symmetric])
  moreover have "store_step demo_libs d (snd (run_create demo_libs ConnOk r d))" for d r
    by (rule st_run_create) (rule prod.collapse [symmetric])
  ultimately show ?thesis unfolding demo_db_def by (meson rtranclp.intros)
qed

lemma demo_db_eval:
  "db_runs demo_db = [run_row_of (demo_run ''r1'') ''h'' ''b'' None]"
  "db_sessions demo_db = [session_row_of demo_session ''b'']" "db_messages demo_db = []"
  "db_actions demo_db = []" "db_approvals demo_db = []"
  by (simp_all add: demo_db_def demo_libs_def session_create_def run_create_def initialize_schema_def commit_def
      write_json_def list_codec_def demo_session_def new_session_def sql_insert_def demo_run_def new_run_def
      run_texts_def session_row_of_def)

theorem stored_data_consistent_witness:
  "db_runs demo_db \<noteq> [] \<and> refs_ok demo_db \<and> is_ok (fst (run_get demo_libs ConnOk ''r1'' demo_db))"
  using stored_data_consistent [OF demo_libs_ok demo_steps, of _ _ "''r1''"] by (simp add: demo_db_eval)

end
