(* ===== verification/StoreContracts.thy ===== *)
theory StoreContracts
  imports StoreProps
begin

text \<open>
  What the callers of the stores rely on: created records read back, optimistic updates, one active run per
  session, ordered conversations and pending approvals; and what they cannot rely on: a branched session's
  conversation is not stored.
\<close>

section \<open>Created records\<close>

text \<open>
  Records that were created read back as they were, however many are created after them, and creating one
  under a key that is taken fails and changes nothing. A session reads back without the messages it was
  created with.
\<close>

lemma created_records_read_back:
  assumes "db_ok L d"
  shows "(create_each (session_create L c) ss d = (Inr (), d1) \<longrightarrow> (\<forall>s\<in>set ss.
       fst (session_get L ConnOk (s_id s) d1) = Inr (Some (s\<lparr>s_messages := []\<rparr>)) \<and>
       (\<forall>s' c'. s_id s' = s_id s \<longrightarrow> (\<exists>e. session_create L c' s' d1 = (Inl e, d1))))) \<and>
    (create_each (run_create L c) rs d = (Inr (), d2) \<longrightarrow> (\<forall>r\<in>set rs.
       fst (run_get L ConnOk (r_id r) d2) = Inr (Some r) \<and>
       (\<forall>r' c'. r_id r' = r_id r \<longrightarrow> (\<exists>e. run_create L c' r' d2 = (Inl e, d2))))) \<and>
    (create_each (action_create L c) as d = (Inr (), d3) \<longrightarrow> (\<forall>a\<in>set as.
       fst (action_get L ConnOk (ac_id a) d3) = Inr (Some a) \<and>
       (\<forall>a' c'. ac_id a' = ac_id a \<longrightarrow> (\<exists>e. action_create L c' a' d3 = (Inl e, d3))))) \<and>
    (create_each (approval_create L c) ps d = (Inr (), d4) \<longrightarrow> (\<forall>p\<in>set ps.
       fst (approval_get L ConnOk (ap_id p) d4) = Inr (Some p) \<and>
       (\<forall>p' c'. ap_id p' = ap_id p \<longrightarrow> (\<exists>e. approval_create L c' p' d4 = (Inl e, d4)))))"
proof (intro conjI impI)
  assume a: "create_each (session_create L c) ss d = (Inr (), d1)"
  show "\<forall>s\<in>set ss. fst (session_get L ConnOk (s_id s) d1) = Inr (Some (s\<lparr>s_messages := []\<rparr>)) \<and>
       (\<forall>s' c'. s_id s' = s_id s \<longrightarrow> (\<exists>e. session_create L c' s' d1 = (Inl e, d1)))"
    using session_store.all_fetched [OF assms a] session_store.taken_refused [OF session_store.all_good [OF assms a]]
    by metis
next
  assume a: "create_each (run_create L c) rs d = (Inr (), d2)"
  show "\<forall>r\<in>set rs. fst (run_get L ConnOk (r_id r) d2) = Inr (Some r) \<and>
       (\<forall>r' c'. r_id r' = r_id r \<longrightarrow> (\<exists>e. run_create L c' r' d2 = (Inl e, d2)))"
    using run_store.all_fetched [OF assms a] run_store.taken_refused [OF run_store.all_good [OF assms a]] by metis
next
  assume a: "create_each (action_create L c) as d = (Inr (), d3)"
  show "\<forall>a\<in>set as. fst (action_get L ConnOk (ac_id a) d3) = Inr (Some a) \<and>
       (\<forall>a' c'. ac_id a' = ac_id a \<longrightarrow> (\<exists>e. action_create L c' a' d3 = (Inl e, d3)))"
    using action_store.all_fetched [OF assms a] action_store.taken_refused [OF action_store.all_good [OF assms a]]
    by metis
next
  assume a: "create_each (approval_create L c) ps d = (Inr (), d4)"
  show "\<forall>p\<in>set ps. fst (approval_get L ConnOk (ap_id p) d4) = Inr (Some p) \<and>
       (\<forall>p' c'. ap_id p' = ap_id p \<longrightarrow> (\<exists>e. approval_create L c' p' d4 = (Inl e, d4)))"
    using approval_store.all_fetched [OF assms a] approval_store.taken_refused [OF approval_store.all_good [OF assms a]]
    by metis
qed

definition demo_db0 :: db where
  "demo_db0 = snd (session_create demo_libs ConnOk demo_session initialize_schema)"

lemma demo_db0_eval:
  "demo_db0 = initialize_schema\<lparr>db_sessions := [session_row_of demo_session ''b'']\<rparr>"
  by (simp add: demo_db0_def demo_libs_def session_create_def initialize_schema_def commit_def
      write_json_def list_codec_def demo_session_def new_session_def sql_insert_def session_row_of_def)

lemma demo_db_ok: "db_ok demo_libs demo_db0" "db_ok demo_libs demo_db"
proof -
  have "store_step demo_libs initialize_schema demo_db0"
    unfolding demo_db0_def by (rule st_session_create) (rule prod.collapse [symmetric])
  then show "db_ok demo_libs demo_db0" using store_step_ok empty_db_ok demo_libs_ok(1) by blast
  show "db_ok demo_libs demo_db" using reachable_db_ok [OF demo_libs_ok(1) demo_steps] .
qed

lemma demo_run_created: "run_create demo_libs ConnOk (demo_run ''r1'') demo_db0 = (Inr (), demo_db)"
  by (simp add: demo_db_def demo_db0_def [symmetric]) (simp add: demo_db0_eval demo_libs_def run_create_def
      initialize_schema_def commit_def write_json_def list_codec_def demo_session_def new_session_def sql_insert_def
      demo_run_def new_run_def run_texts_def session_row_of_def)

lemma created_records_read_back_witness:
  "fst (run_get demo_libs ConnOk ''r1'' demo_db) = Inr (Some (demo_run ''r1''))"
  using created_records_read_back [OF demo_db_ok(1), of ConnOk "[]" _ "[demo_run ''r1'']" demo_db "[]" _ "[]"]
  by (simp add: demo_run_created) (simp add: demo_run_def new_run_def)

section \<open>Optimistic updates\<close>

lemma find_distinct_key:
  "distinct (map key rows) \<Longrightarrow> r \<in> set rows \<Longrightarrow> find (\<lambda>x. key x = key r) rows = Some r"
  by (induction rows) (auto simp: image_iff)

lemma sint_max_iff: "sint (v :: u64) = 2 ^ 63 - 1 \<longleftrightarrow> v = 2 ^ 63 - 1"
proof
  assume "sint v = 2 ^ 63 - 1"
  then have "word_of_int (sint v) = (word_of_int (2 ^ 63 - 1) :: u64)" by simp
  then show "v = 2 ^ 63 - 1" by simp
qed simp

lemma sql_succ_neq: "sql_succ (SqlInt v) \<noteq> SqlInt v"
  by simp

text \<open>A session whose version is an integer reads, with its messages.\<close>

lemma session_get_row:
  assumes "db_ok L d" "r \<in> set (db_sessions d)" "sr_version r = SqlInt v"
  obtains s ms where "session_of_row L r = Inr s"
    "decode_all (\<lambda>m. read_json (sl_message L) (mr_data m)) (session_messages (sr_id r) d) = Inr ms"
    "fst (session_get L ConnOk (sr_id r) d) = Inr (Some (s\<lparr>s_messages := ms\<rparr>))"
proof -
  have "is_ok (session_of_row L r)" "\<forall>m\<in>set (db_messages d). is_ok (read_json (sl_message L) (mr_data m))"
    using assms by (auto simp: db_ok_def rows_ok_def)
  then obtain s ms where "session_of_row L r = Inr s"
      "decode_all (\<lambda>m. read_json (sl_message L) (mr_data m)) (session_messages (sr_id r) d) = Inr ms"
    using decode_all_ok [of "session_messages (sr_id r) d" "\<lambda>m. read_json (sl_message L) (mr_data m)"]
    by (auto simp: is_ok_iff session_messages_def)
  moreover have "find (\<lambda>x. sr_id x = sr_id r) (db_sessions d) = Some r"
    using assms(1,2) by (auto simp: db_ok_def keys_ok_def intro: find_distinct_key)
  ultimately show ?thesis using that by (simp add: session_get_def)
qed

lemma session_change_reads:
  assumes "read_json (sl_session_budget L) t = Inr (s_budget s)" "session_of_row L r = Inr old"
    "sr_version r = SqlInt (sint (s_version s))" "sr_id r = s_id s"
  shows "session_of_row L (session_change now s t r) =
    (if s_version s = 2 ^ 63 - 1 then Inl (PeSqlite (sl_bad_column_type L))
     else Inr (s\<lparr>s_messages := [], s_created_at := s_created_at old, s_updated_at := now,
        s_version := s_version s + 1\<rparr>))"
proof -
  have "s_created_at old = sr_created_at r" using assms(2,3) by (auto simp: session_of_row_def try_bind_Inr_iff)
  then show ?thesis
    using assms(1,3,4) sint_max_iff [of "s_version s"]
    by (simp add: session_of_row_def session_change_def read_status_def session_status_codec.dec_enc)
qed

text \<open>
  C17: Updating a session is optimistic: a successful update was made from the version that is stored, the
  session then reads back as the caller gave it with the next version (its messages and creation time are the
  stored ones), every other update from the same version fails and changes nothing, so no update is lost, and
  no other session changes. At the largest 64-bit version the increment leaves the integers and the session
  can no longer be read.
\<close>

theorem session_update_optimistic:
  assumes "db_ok L d" "session_update L c now s d = (Inr (), d')"
  shows "(\<exists>old. fst (session_get L ConnOk (s_id s) d) = Inr (Some old) \<and> s_version old = s_version s \<and>
      fst (session_get L ConnOk (s_id s) d') =
        (if s_version s = 2 ^ 63 - 1 then Inl (PeSqlite (sl_bad_column_type L))
         else Inr (Some (s\<lparr>s_messages := s_messages old, s_created_at := s_created_at old, s_updated_at := now,
           s_version := s_version s + 1\<rparr>)))) \<and>
    (\<forall>s2 now2 c2. s_id s2 = s_id s \<and> s_version s2 = s_version s \<longrightarrow>
       (\<exists>e. session_update L c2 now2 s2 d' = (Inl e, d'))) \<and>
    (\<forall>sid. sid \<noteq> s_id s \<longrightarrow> fst (session_get L ConnOk sid d') = fst (session_get L ConnOk sid d))"
  using assms(2)
proof (rule session_update_Inr)
  fix t
  let ?P = "\<lambda>r. sr_id r = s_id s \<and> sr_version r = SqlInt (sint (s_version s))"
  let ?f = "\<lambda>r. if ?P r then session_change now s t r else r"
  assume t: "write_json (sl_session_budget L) (s_budget s) = Inr t"
    and ex: "\<exists>r\<in>set (db_sessions d). ?P r" and d': "d' = d\<lparr>db_sessions := map ?f (db_sessions d)\<rparr>"
  have b: "read_json (sl_session_budget L) t = Inr (s_budget s)"
    using write_read [OF codecs_okD(1) [OF db_okD(1) [OF assms(1)]] t] .
  have key: "sr_id (?f r) = sr_id r" for r by (simp add: session_change_def)
  have msgs: "session_messages x d' = session_messages x d" for x by (simp add: d')
  from ex obtain r where r: "r \<in> set (db_sessions d)" "?P r" by blast
  then have fr: "find (\<lambda>x. sr_id x = s_id s) (db_sessions d) = Some r"
    using assms(1) find_distinct_key [of sr_id "db_sessions d" r] by (simp add: db_ok_def keys_ok_def)
  have find': "find (\<lambda>x. sr_id x = sid) (db_sessions d') = map_option ?f (find (\<lambda>x. sr_id x = sid) (db_sessions d))" for sid
    unfolding d' using find_map_key [of sr_id ?f, OF key] by simp
  from session_get_row [OF assms(1) r(1)] r(2) obtain so ms where
    so: "session_of_row L r = Inr so"
      "decode_all (\<lambda>m. read_json (sl_message L) (mr_data m)) (session_messages (s_id s) d) = Inr ms"
      "fst (session_get L ConnOk (s_id s) d) = Inr (Some (so\<lparr>s_messages := ms\<rparr>))"
    by metis
  have "s_version so = s_version s" using so(1) r(2) by (auto simp: session_of_row_def try_bind_Inr_iff)
  moreover have "fst (session_get L ConnOk (s_id s) d') =
        (if s_version s = 2 ^ 63 - 1 then Inl (PeSqlite (sl_bad_column_type L))
         else Inr (Some (s\<lparr>s_messages := ms, s_created_at := s_created_at so, s_updated_at := now,
           s_version := s_version s + 1\<rparr>)))"
    using session_change_reads [OF b so(1)] r(2) so(2) key [of r]
    by (simp add: session_get_def find' fr msgs)
  moreover have "\<exists>e. session_update L c2 now2 s2 d' = (Inl e, d')"
    if "s_id s2 = s_id s" "s_version s2 = s_version s" for s2 now2 c2
  proof -
    have "\<not> ?P (?f x)" for x by (auto simp: session_change_def sql_succ_neq)
    then have "\<forall>x\<in>?f ` set (db_sessions d). \<not> ?P x" by blast
    moreover have "set (db_sessions d') = ?f ` set (db_sessions d)" by (simp add: d')
    ultimately have none: "\<forall>x\<in>set (db_sessions d'). \<not> ?P x" by (simp only:)
    obtain res d'' where u: "session_update L c2 now2 s2 d' = (res, d'')" by force
    then show ?thesis
    proof (rule op_cases)
      assume "session_update L c2 now2 s2 d' = (Inr (), d'')"
      then have "\<exists>x\<in>set (db_sessions d'). ?P x" by (rule session_update_Inr) (use that in simp)
      with none show ?thesis by blast
    next
      fix e assume "session_update L c2 now2 s2 d' = (Inl e, d'')"
      with write_failed(6) show ?thesis by blast
    qed
  qed
  moreover have "fst (session_get L ConnOk sid d') = fst (session_get L ConnOk sid d)" if "sid \<noteq> s_id s" for sid
  proof -
    have "map_option ?f (find (\<lambda>x. sr_id x = sid) (db_sessions d)) = find (\<lambda>x. sr_id x = sid) (db_sessions d)"
      using that by (cases "find (\<lambda>x. sr_id x = sid) (db_sessions d)") (auto dest: find_SomeD)
    then show ?thesis by (simp add: session_get_def find' msgs)
  qed
  ultimately show ?thesis using so(3) by (auto intro!: exI [of _ "so\<lparr>s_messages := ms\<rparr>"])
qed

theorem session_update_optimistic_witness:
  "let s = demo_session\<lparr>s_objective := Some ''ship''\<rparr>; d' = snd (session_update demo_libs ConnOk 30 s demo_db) in
   fst (session_get demo_libs ConnOk ''s1'' d') = Inr (Some (s\<lparr>s_updated_at := 30, s_version := 2\<rparr>)) \<and>
   (\<exists>e. session_update demo_libs ConnOk 31 demo_session d' = (Inl e, d'))"
proof -
  let ?s = "demo_session\<lparr>s_objective := Some ''ship''\<rparr>"
  let ?d = "snd (session_update demo_libs ConnOk 30 ?s demo_db)"
  have u: "session_update demo_libs ConnOk 30 ?s demo_db = (Inr (), ?d)"
    by (simp add: session_update_def commit_def demo_libs_def write_json_def list_codec_def demo_db_eval updated_def
        sql_update_def session_row_of_def demo_session_def new_session_def)
  have old: "fst (session_get demo_libs ConnOk ''s1'' demo_db) = Inr (Some demo_session)"
    by (simp add: session_get_def demo_db_eval session_row_of_def session_of_row_def demo_session_def new_session_def
        read_status_def session_status_from_str_def read_json_def demo_libs_def list_codec_def session_messages_def)
  have i: "s_id demo_session = ''s1''" "s_version demo_session = 1" "s_messages demo_session = []"
    by (simp_all add: demo_session_def new_session_def)
  show ?thesis
    using session_update_optimistic [OF demo_db_ok(2) u] old i by (auto simp: Let_def)
qed

section \<open>Active runs\<close>

definition run_state_active :: "run_state \<Rightarrow> bool" where
  "run_state_active s \<longleftrightarrow> s \<in> {RsRunning, RsWaitingForApproval, RsWaitingForTool}"

definition active_count :: "session_id \<Rightarrow> db \<Rightarrow> nat" where
  "active_count sid d = length (filter (run_row_active sid) (db_runs d))"

lemma state_text_active:
  "run_state_as_str s \<in> {''running'', ''waiting_for_approval'', ''waiting_for_tool''} \<longleftrightarrow> run_state_active s"
  by (cases s) (simp_all add: run_state_active_def)

lemma length_filter_map_le:
  "(\<And>x. x \<in> set xs \<Longrightarrow> P (f x) \<Longrightarrow> P x) \<Longrightarrow> length (filter P (map f xs)) \<le> length (filter P xs)"
proof (induction xs)
  case (Cons x xs)
  have "length (filter P (map f xs)) \<le> length (filter P xs)" by (rule Cons.IH) (simp add: Cons.prems)
  with Cons.prems [of x] show ?case by auto
qed simp

lemma active_create:
  assumes "run_create L c r d = (res, d')" "active_count sid d \<le> 1"
  shows "active_count sid d' \<le> 1"
  using assms(1)
proof (rule op_cases)
  assume "run_create L c r d = (Inr (), d')"
  then show ?thesis
  proof (rule run_create_Inr)
    fix g b t
    assume no: "\<not> (\<exists>x\<in>set (db_runs d). run_row_active (r_session r) x)"
      and d': "d' = d\<lparr>db_runs := db_runs d @ [run_row_of r g b t]\<rparr>"
    have "run_row_active sid (run_row_of r g b t) \<Longrightarrow> r_session r = sid"
      by (simp add: run_row_active_def run_row_of_def)
    moreover have "filter (run_row_active (r_session r)) (db_runs d) = []" using no by (auto simp: filter_empty_conv)
    ultimately show ?thesis using assms(2) by (auto simp: active_count_def d')
  qed
next
  fix e assume "run_create L c r d = (Inl e, d')"
  then have "d' = d" by (rule write_failed)
  with assms(2) show ?thesis by simp
qed

text \<open>A stored run reads, and is active as a row exactly when it reads so.\<close>

lemma run_row_reads:
  assumes "db_ok L d" "x \<in> set (db_runs d)"
  obtains a where "run_of_row L x = Inr a" "fst (run_get L ConnOk (rr_id x) d) = Inr (Some a)" "r_id a = rr_id x"
    "r_session a = rr_session x" "run_row_active sid x \<longleftrightarrow> r_session a = sid \<and> run_state_active (r_state a)"
proof -
  from assms obtain a where a: "run_of_row L x = Inr a" by (auto simp: db_ok_def rows_ok_def is_ok_iff)
  then have f: "r_id a = rr_id x" "r_session a = rr_session x" "rr_state x = run_state_as_str (r_state a)"
    by (auto simp: run_of_row_def try_bind_Inr_iff read_status_Inr run_state_codec.dec_iff)
  have "find (\<lambda>y. rr_id y = rr_id x) (db_runs d) = Some x"
    using assms by (auto simp: db_ok_def keys_ok_def intro: find_distinct_key)
  then have "fst (run_get L ConnOk (rr_id x) d) = Inr (Some a)" by (simp add: run_get_def a)
  moreover have "run_row_active sid x \<longleftrightarrow> r_session a = sid \<and> run_state_active (r_state a)"
    using f state_text_active [of "r_state a"] by (simp add: run_row_active_def)
  ultimately show ?thesis using that a f by blast
qed

text \<open>An update that puts a finished run of the session back to an active state; nothing in the store forbids it.\<close>

definition reactivates :: "store_libs \<Rightarrow> session_id \<Rightarrow> run \<Rightarrow> db \<Rightarrow> bool" where
  "reactivates L sid r d \<longleftrightarrow> run_state_active (r_state r) \<and>
     (\<exists>old. fst (run_get L ConnOk (r_id r) d) = Inr (Some old) \<and> r_session old = sid \<and> \<not> run_state_active (r_state old))"

lemma active_update:
  assumes ok: "db_ok L d" and up: "run_update L c r d = (Inr (), d')" and not_re: "\<not> reactivates L sid r d"
  shows "active_count sid d' \<le> active_count sid d"
  using up
proof (rule run_update_Inr)
  fix b t
  let ?f = "\<lambda>x. if rr_id x = r_id r then run_change r b t x else x"
  assume d': "d' = d\<lparr>db_runs := map ?f (db_runs d)\<rparr>"
  have "run_row_active sid x" if x: "x \<in> set (db_runs d)" and a: "run_row_active sid (?f x)" for x
  proof (cases "rr_id x = r_id r")
    case True
    with a have s: "rr_session x = sid" "run_state_active (r_state r)"
      using state_text_active [of "r_state r"] by (simp_all add: run_row_active_def run_change_def)
    obtain old where "fst (run_get L ConnOk (rr_id x) d) = Inr (Some old)" "r_session old = rr_session x"
      "run_row_active sid x \<longleftrightarrow> r_session old = sid \<and> run_state_active (r_state old)"
      by (rule run_row_reads [OF ok x])
    with not_re s True show ?thesis by (auto simp: reactivates_def)
  next
    case False
    with a show ?thesis by simp
  qed
  then have "length (filter (run_row_active sid) (map ?f (db_runs d))) \<le> length (filter (run_row_active sid) (db_runs d))"
    by (rule length_filter_map_le)
  moreover have "db_runs d' = map ?f (db_runs d)" by (simp add: d')
  ultimately show ?thesis unfolding active_count_def by (simp only:)
qed

text \<open>Only the operations on runs change runs.\<close>

lemma store_step_runs:
  assumes "store_step L d d'"
  shows "db_runs d' = db_runs d \<or> (\<exists>c r. run_create L c r d = (Inr (), d')) \<or> (\<exists>c r. run_update L c r d = (Inr (), d'))"
proof -
  have "d' = d \<or> (\<exists>c r. run_create L c r d = (Inr (), d')) \<or> (\<exists>c r. run_update L c r d = (Inr (), d')) \<or>
      (\<exists>c s. session_create L c s d = (Inr (), d')) \<or> (\<exists>c now s. session_update L c now s d = (Inr (), d')) \<or>
      (\<exists>c sid m. message_append L c sid m d = (Inr (), d')) \<or> (\<exists>c a. action_create L c a d = (Inr (), d')) \<or>
      (\<exists>c a. action_update L c a d = (Inr (), d')) \<or> (\<exists>c p. approval_create L c p d = (Inr (), d')) \<or>
      (\<exists>c p. approval_update L c p d = (Inr (), d'))"
    using assms by (cases rule: store_step.cases) (metis unit_result write_failed)+
  then show ?thesis
    by (auto elim!: session_create_Inr session_update_Inr message_append_Inr action_create_Inr action_update_Inr
        approval_create_Inr approval_update_Inr)
qed

definition was_reactivated :: "store_libs \<Rightarrow> session_id \<Rightarrow> db \<Rightarrow> bool" where
  "was_reactivated L sid d \<longleftrightarrow> (\<exists>d1 c r d2. (store_step L)\<^sup>*\<^sup>* initialize_schema d1 \<and> run_update L c r d1 = (Inr (), d2) \<and>
     reactivates L sid r d1 \<and> (store_step L)\<^sup>*\<^sup>* d2 d)"

lemma was_reactivated_later: "was_reactivated L sid d \<Longrightarrow> store_step L d d' \<Longrightarrow> was_reactivated L sid d'"
  unfolding was_reactivated_def by (meson rtranclp.rtrancl_into_rtrancl)

interpretation active_runs: invariant_system "\<lambda>d. codecs_ok L \<and> d = initialize_schema" "store_step L"
  "\<lambda>d. db_ok L d \<and> (store_step L)\<^sup>*\<^sup>* initialize_schema d \<and> (\<forall>sid. active_count sid d \<le> 1 \<or> was_reactivated L sid d)"
  for L :: store_libs
proof unfold_locales
  fix d
  assume "codecs_ok L \<and> d = initialize_schema"
  then show "db_ok L d \<and> (store_step L)\<^sup>*\<^sup>* initialize_schema d \<and> (\<forall>sid. active_count sid d \<le> 1 \<or> was_reactivated L sid d)"
    by (auto simp: empty_db_ok) (simp add: active_count_def initialize_schema_def)
next
  fix d d'
  assume st: "store_step L d d'"
    and i: "db_ok L d \<and> (store_step L)\<^sup>*\<^sup>* initialize_schema d \<and> (\<forall>sid. active_count sid d \<le> 1 \<or> was_reactivated L sid d)"
  then have r: "db_ok L d'" "(store_step L)\<^sup>*\<^sup>* initialize_schema d'"
    by (auto intro: store_step_ok rtranclp.rtrancl_into_rtrancl)
  have "active_count sid d' \<le> 1 \<or> was_reactivated L sid d'" for sid
  proof (cases "was_reactivated L sid d")
    case True
    then show ?thesis using st by (blast intro: was_reactivated_later)
  next
    case False
    with i have n: "active_count sid d \<le> 1" by blast
    from store_step_runs [OF st] show ?thesis
    proof (elim disjE exE)
      assume "db_runs d' = db_runs d"
      with n show ?thesis by (simp add: active_count_def)
    next
      fix c r assume "run_create L c r d = (Inr (), d')"
      then show ?thesis using n by (blast intro: active_create)
    next
      fix c r assume u: "run_update L c r d = (Inr (), d')"
      show ?thesis
      proof (cases "reactivates L sid r d")
        case True
        with u i show ?thesis unfolding was_reactivated_def by blast
      next
        case False
        with active_update [OF _ u False] i n show ?thesis by (meson order_trans)
      qed
    qed
  qed
  with r show "db_ok L d' \<and> (store_step L)\<^sup>*\<^sup>* initialize_schema d' \<and> (\<forall>sid. active_count sid d' \<le> 1 \<or> was_reactivated L sid d')"
    by blast
qed

lemma active_rows_set:
  "scans_ok L \<Longrightarrow> set (active_rows L q sid d) = {x \<in> set (db_runs d). run_row_active sid x}"
  unfolding active_rows_def by (simp add: scans_set(1))

lemma active_count_0: "active_count sid d = 0 \<longleftrightarrow> {x \<in> set (db_runs d). run_row_active sid x} = {}"
  by (auto simp: active_count_def filter_empty_conv)

text \<open>While a session has an active run, creating another is refused with the identifier of one of them.\<close>

lemma active_refused:
  assumes "db_ok L d" "scans_ok L" "active_count (r_session r) d \<noteq> 0"
  obtains i b where "run_create L ConnOk r d = (Inl (PeActiveRunConflict (r_session r) i), d)"
    "fst (run_get L ConnOk i d) = Inr (Some b)" "r_session b = r_session r" "run_state_active (r_state b)"
proof -
  have "set (active_rows L QActiveId (r_session r) d) \<noteq> {}"
    using assms(3) unfolding active_count_0 active_rows_set [OF assms(2)] .
  then obtain x xs where x: "active_rows L QActiveId (r_session r) d = x # xs"
    by (cases "active_rows L QActiveId (r_session r) d") auto
  then have m: "x \<in> set (db_runs d)" "run_row_active (r_session r) x"
    using active_rows_set [OF assms(2), of QActiveId "r_session r" d] by auto
  have "filter (run_row_active (r_session r)) (db_runs d) \<noteq> []" using assms(3) by (auto simp: active_count_def)
  then have c: "run_create L ConnOk r d = (Inl (PeActiveRunConflict (r_session r) (rr_id x)), d)"
    using x by (simp add: run_create_def commit_def)
  obtain b where "fst (run_get L ConnOk (rr_id x) d) = Inr (Some b)"
    "run_row_active (r_session r) x \<longleftrightarrow> r_session b = r_session r \<and> run_state_active (r_state b)"
    by (rule run_row_reads [OF assms(1) m(1)])
  with c m(2) that show ?thesis by blast
qed

lemma get_active_reads:
  assumes "db_ok L d" "scans_ok L"
  shows "case fst (run_get_active L ConnOk sid d) of
       Inl _ \<Rightarrow> False
     | Inr None \<Rightarrow> active_count sid d = 0
     | Inr (Some a) \<Rightarrow> active_count sid d \<noteq> 0 \<and> r_session a = sid \<and> run_state_active (r_state a)"
proof (cases "active_rows L QActive sid d")
  case Nil
  then have "active_count sid d = 0" using active_rows_set [OF assms(2), of QActive sid d] unfolding active_count_0 by simp
  with Nil show ?thesis by (simp add: run_get_active_def)
next
  case (Cons x xs)
  then have m: "x \<in> set (db_runs d)" "run_row_active sid x"
    using active_rows_set [OF assms(2), of QActive sid d] by auto
  then have "active_count sid d \<noteq> 0" unfolding active_count_0 by blast
  moreover obtain a where "run_of_row L x = Inr a"
    "run_row_active sid x \<longleftrightarrow> r_session a = sid \<and> run_state_active (r_state a)" by (rule run_row_reads [OF assms(1) m(1)])
  ultimately show ?thesis using Cons m(2) by (simp add: run_get_active_def)
qed

text \<open>If there is one active run, the query finds it.\<close>

lemma only_active:
  assumes "db_ok L d" "scans_ok L" "active_count sid d = 1" "fst (run_get L ConnOk i d) = Inr (Some b)"
    "r_session b = sid" "run_state_active (r_state b)"
  shows "fst (run_get_active L ConnOk sid d) = Inr (Some b)"
proof -
  from assms(3) obtain x where x: "filter (run_row_active sid) (db_runs d) = [x]"
    by (auto simp: active_count_def length_Suc_conv)
  have "mset (sl_scan_runs L QActive [x]) = {#x#}" using assms(2) by (simp add: scans_ok_def)
  then have scan: "active_rows L QActive sid d = [x]" by (simp add: active_rows_def x)
  from assms(4) obtain y where y: "find (\<lambda>r. rr_id r = i) (db_runs d) = Some y" "run_of_row L y = Inr b"
    by (cases "find (\<lambda>r. rr_id r = i) (db_runs d)") (auto simp: run_get_def try_bind_Inr_iff)
  then have my: "y \<in> set (db_runs d)" by (auto dest: find_SomeD)
  obtain a where "run_of_row L y = Inr a" "run_row_active sid y \<longleftrightarrow> r_session a = sid \<and> run_state_active (r_state a)"
    by (rule run_row_reads [OF assms(1) my])
  with y(2) assms(5,6) have "run_row_active sid y" by simp
  with my have "y \<in> set (filter (run_row_active sid) (db_runs d))" by simp
  then have "y = x" unfolding x by simp
  with scan y(2) show ?thesis by (simp add: run_get_active_def)
qed



text \<open>
  That exception occurs: \<open>update\<close> has no check, so completing a run, creating the next
  one and updating the first back to running leaves two active runs in one session.
\<close>

lemma run_update_can_reactivate:
  "\<exists>d. (store_step demo_libs)\<^sup>*\<^sup>* initialize_schema d \<and> active_count ''s1'' d = 2"
proof -
  let ?over = "(demo_run ''r1'')\<lparr>r_state := RsCompleted\<rparr>"
  let ?r1 = "run_row_of (demo_run ''r1'') ''h'' ''b'' None"
  let ?r2 = "run_row_of (demo_run ''r2'') ''h'' ''b'' None"
  let ?d1 = "demo_db\<lparr>db_runs := [?r1\<lparr>rr_state := ''completed''\<rparr>]\<rparr>"
  let ?d2 = "demo_db\<lparr>db_runs := [?r1\<lparr>rr_state := ''completed''\<rparr>, ?r2]\<rparr>"
  let ?d3 = "demo_db\<lparr>db_runs := [?r1, ?r2]\<rparr>"
  note ev = commit_def write_json_def demo_libs_def list_codec_def run_texts_def demo_run_def new_run_def
    updated_def sql_update_def run_row_of_def run_change_def
  have "run_update demo_libs ConnOk ?over demo_db = (Inr (), ?d1)"
    by (simp add: run_update_def demo_db_eval ev)
  then have "store_step demo_libs demo_db ?d1" by (rule st_run_update)
  moreover have "run_create demo_libs ConnOk (demo_run ''r2'') ?d1 = (Inr (), ?d2)"
    by (simp add: run_create_def run_row_active_def sql_insert_def demo_db_eval session_row_of_def
        demo_session_def new_session_def ev)
  then have "store_step demo_libs ?d1 ?d2" by (rule st_run_create)
  moreover have "run_update demo_libs ConnOk (demo_run ''r1'') ?d2 = (Inr (), ?d3)"
    by (simp add: run_update_def ev)
  then have "store_step demo_libs ?d2 ?d3" by (rule st_run_update)
  ultimately have "(store_step demo_libs)\<^sup>*\<^sup>* initialize_schema ?d3"
    using demo_steps by (meson rtranclp.rtrancl_into_rtrancl)
  moreover have "active_count ''s1'' ?d3 = 2"
    by (simp add: active_count_def run_row_active_def run_row_of_def demo_run_def new_run_def)
  ultimately show ?thesis by blast
qed

section \<open>Conversations\<close>

lemma insort_key_map: "insort_key f (g x) (map g xs) = map g (insort_key (\<lambda>y. f (g y)) x xs)"
  by (induction xs) auto

lemma sort_key_map: "sort_key f (map g xs) = map g (sort_key (\<lambda>x. f (g x)) xs)"
  by (induction xs) (simp_all add: insort_key_map)

definition stored_message :: "store_libs \<Rightarrow> session_id \<Rightarrow> message \<Rightarrow> message_row" where
  "stored_message L sid m = message_row_of sid m (projr (write_json (sl_message L) m))"

lemma appended_rows:
  "create_each (message_append L c sid) ms d = (Inr (), d') \<Longrightarrow>
   db_messages d' = db_messages d @ map (stored_message L sid) ms \<and> db_sessions d' = db_sessions d \<and>
   (\<forall>m\<in>set ms. is_ok (write_json (sl_message L) m))"
proof (induction ms arbitrary: d)
  case (Cons m ms)
  from Cons.prems obtain d1 where d1: "message_append L c sid m d = (Inr (), d1)"
      "create_each (message_append L c sid) ms d1 = (Inr (), d')" by (rule create_each_ConsE)
  from d1(1) obtain t where "write_json (sl_message L) m = Inr t"
      "d1 = d\<lparr>db_messages := db_messages d @ [message_row_of sid m t]\<rparr>" by (rule message_append_Inr)
  with Cons.IH [OF d1(2)] show ?case by (simp add: stored_message_def)
qed simp

lemma decode_stored:
  assumes "codecs_ok L" "\<forall>m\<in>set ms. is_ok (write_json (sl_message L) m)"
  shows "decode_all (\<lambda>r. read_json (sl_message L) (mr_data r)) (map (stored_message L sid) ms) = Inr ms"
  using assms(2)
proof (induction ms)
  case (Cons m ms)
  then obtain t where "write_json (sl_message L) m = Inr t" by (auto simp: is_ok_iff)
  moreover from this have "read_json (sl_message L) t = Inr m" by (rule write_read [OF codecs_okD(2) [OF assms(1)]])
  ultimately show ?case using Cons by (simp add: stored_message_def message_row_of_def)
qed simp

text \<open>
  C35: A conversation is listed in order: the messages appended to a session that had none come back from the
  message store and with the session itself exactly as they were appended, sorted by their time and, at equal
  times, in the order of the appends.
\<close>

theorem conversation_in_order:
  assumes "db_ok L d" "fst (message_list L ConnOk sid d) = Inr []"
    "create_each (message_append L c sid) ms d = (Inr (), d')"
  shows "fst (message_list L ConnOk sid d') = Inr (sort_key message_created_at ms) \<and>
    (\<forall>s. fst (session_get L ConnOk sid d') = Inr (Some s) \<longrightarrow> s_messages s = sort_key message_created_at ms)"
proof -
  note app = appended_rows [OF assms(3)]
  have "session_messages sid d = []"
    using assms(2) by (simp add: message_list_def decode_all_Inr)
  then have none: "filter (\<lambda>r. mr_session r = sid) (db_messages d) = []"
    unfolding session_messages_def by (metis length_0_conv length_sort)
  have "mr_session (stored_message L sid m) = sid" "mr_created_at (stored_message L sid m) = message_created_at m" for m
    by (simp_all add: stored_message_def message_row_of_def)
  then have "session_messages sid d' = map (stored_message L sid) (sort_key message_created_at ms)"
    using app none by (simp add: session_messages_def sort_key_map filter_map comp_def)
  moreover have "decode_all (\<lambda>r. read_json (sl_message L) (mr_data r))
      (map (stored_message L sid) (sort_key message_created_at ms)) = Inr (sort_key message_created_at ms)"
    using app by (intro decode_stored db_okD(1) [OF assms(1)]) simp
  ultimately have dec: "decode_all (\<lambda>r. read_json (sl_message L) (mr_data r)) (session_messages sid d') =
      Inr (sort_key message_created_at ms)" by simp
  then have "s_messages s = sort_key message_created_at ms" if "fst (session_get L ConnOk sid d') = Inr (Some s)" for s
    using that by (cases "find (\<lambda>r. sr_id r = sid) (db_sessions d')")
      (auto simp: session_get_def try_bind_Inr_iff dest: find_SomeD)
  with dec show ?thesis by (simp add: message_list_def)
qed

theorem conversation_in_order_witness:
  "let d' = snd (create_each (message_append demo_libs ConnOk ''s1'') [demo_msg ''m1'' 5, demo_msg ''m2'' 3, demo_msg ''m3'' 5]
     demo_db0) in
   fst (message_list demo_libs ConnOk ''s1'' d') = Inr [demo_msg ''m2'' 3, demo_msg ''m1'' 5, demo_msg ''m3'' 5]"
proof -
  let ?ms = "[demo_msg ''m1'' 5, demo_msg ''m2'' 3, demo_msg ''m3'' 5]"
  let ?op = "create_each (message_append demo_libs ConnOk ''s1'') ?ms demo_db0"
  have "fst ?op = Inr ()"
    by (simp add: message_append_def commit_def demo_db0_eval initialize_schema_def demo_libs_def write_json_def
        list_codec_def demo_msg_def sql_insert_def session_row_of_def demo_session_def new_session_def message_row_of_def)
  then have op: "?op = (Inr (), snd ?op)" by (metis prod.collapse)
  have "fst (message_list demo_libs ConnOk ''s1'' demo_db0) = Inr []"
    by (simp add: message_list_def session_messages_def demo_db0_eval initialize_schema_def)
  from conversation_in_order [OF demo_db_ok(1) this op] show ?thesis
    by (simp add: Let_def demo_msg_def)
qed

text \<open>
  A branched session is stored without the conversation it copies: it reads back with no messages, and none
  of the parent's stored messages can be appended to it, because a message keeps its identifier and identifiers
  are unique over all sessions.
\<close>

lemma branch_loses_conversation:
  assumes "db_ok L d" "session_create L c (branch_session sid now s) d = (Inr (), d')"
  shows "fst (session_get L ConnOk sid d') = Inr (Some ((branch_session sid now s)\<lparr>s_messages := []\<rparr>)) \<and>
    (\<forall>m\<in>set (s_messages (branch_session sid now s)).
       fst (message_get L ConnOk (message_ident m) d) = Inr (Some m) \<longrightarrow>
       (\<forall>c'. \<exists>e. message_append L c' sid m d' = (Inl e, d')))"
proof -
  have "s_id (branch_session sid now s) = sid" by (simp add: branch_session_def)
  moreover have "\<exists>e. message_append L c' sid m d' = (Inl e, d')"
    if "fst (message_get L ConnOk (message_ident m) d) = Inr (Some m)" for m c'
  proof (rule message_store.taken_refused)
    show "db_ok L d'" using store_step_ok [OF st_session_create [OF assms(2)] assms(1)] .
    have "db_messages d' = db_messages d" using assms(2) by (rule session_create_Inr) simp
    then show "fst (message_get L ConnOk (message_ident m) d') = Inr (Some m)" using that by (simp add: message_get_def)
  qed
  ultimately show ?thesis using session_store.create_fetch [OF assms] by simp
qed

definition demo_talk :: db where
  "demo_talk = snd (message_append demo_libs ConnOk ''s1'' (demo_msg ''m1'' 5) demo_db0)"

lemma demo_talk_ok: "db_ok demo_libs demo_talk"
proof -
  have "store_step demo_libs demo_db0 demo_talk"
    unfolding demo_talk_def by (rule st_message_append) (rule prod.collapse [symmetric])
  then show ?thesis using store_step_ok demo_db_ok(1) by blast
qed

lemma demo_talk_eval:
  "db_sessions demo_talk = [session_row_of demo_session ''b'']"
  "db_messages demo_talk = [message_row_of ''s1'' (demo_msg ''m1'' 5) ''1'']"
  by (simp_all add: demo_talk_def message_append_def commit_def demo_db0_eval initialize_schema_def demo_libs_def
      write_json_def list_codec_def demo_msg_def sql_insert_def session_row_of_def demo_session_def new_session_def
      message_row_of_def)

lemma branch_loses_conversation_witness:
  "let b = branch_session ''s2'' 50 (demo_session\<lparr>s_messages := [demo_msg ''m1'' 5]\<rparr>);
       d' = snd (session_create demo_libs ConnOk b demo_talk) in
   s_messages b = [demo_msg ''m1'' 5] \<and>
   fst (session_get demo_libs ConnOk ''s2'' d') = Inr (Some (b\<lparr>s_messages := []\<rparr>)) \<and>
   (\<exists>e. message_append demo_libs ConnOk ''s2'' (demo_msg ''m1'' 5) d' = (Inl e, d'))"
proof -
  let ?s = "demo_session\<lparr>s_messages := [demo_msg ''m1'' 5]\<rparr>"
  let ?op = "session_create demo_libs ConnOk (branch_session ''s2'' 50 ?s) demo_talk"
  have "fst ?op = Inr ()"
    by (simp add: session_create_def commit_def demo_talk_eval demo_libs_def write_json_def list_codec_def
        sql_insert_def session_row_of_def demo_session_def new_session_def branch_session_def)
  then have op: "?op = (Inr (), snd ?op)" by (metis prod.collapse)
  have "s_messages (branch_session ''s2'' 50 ?s) = [demo_msg ''m1'' 5]" by (simp add: branch_session_def)
  moreover have "fst (message_get demo_libs ConnOk (message_ident (demo_msg ''m1'' 5)) demo_talk) =
      Inr (Some (demo_msg ''m1'' 5))"
    by (simp add: message_get_def demo_talk_eval message_row_of_def demo_msg_def read_json_def demo_libs_def
        list_codec_def)
  ultimately show ?thesis using branch_loses_conversation [OF demo_talk_ok op] by (simp add: Let_def)
qed

section \<open>Pending approvals\<close>

lemma decoded_approval:
  "approval_of_row r = Inr a \<longleftrightarrow> r = approval_row_of a"
  by (cases r) (auto simp: approval_of_row_def approval_row_of_def try_bind_Inr_iff read_status_Inr
      approval_status_codec.dec_iff)

lemma approval_get_iff:
  assumes "db_ok L d"
  shows "fst (approval_get L ConnOk (ap_id a) d) = Inr (Some a) \<longleftrightarrow> approval_row_of a \<in> set (db_approvals d)"
proof
  assume "fst (approval_get L ConnOk (ap_id a) d) = Inr (Some a)"
  then show "approval_row_of a \<in> set (db_approvals d)"
    by (cases "find (\<lambda>r. pr_id r = ap_id a) (db_approvals d)")
      (auto simp: approval_get_def try_bind_Inr_iff decoded_approval dest: find_SomeD)
next
  assume "approval_row_of a \<in> set (db_approvals d)"
  then have "find (\<lambda>r. pr_id r = ap_id a) (db_approvals d) = Some (approval_row_of a)"
    using assms find_distinct_key [of pr_id "db_approvals d" "approval_row_of a"]
    by (simp add: db_ok_def keys_ok_def approval_row_of_def)
  then show "fst (approval_get L ConnOk (ap_id a) d) = Inr (Some a)"
    by (simp add: approval_get_def approval_row_decodes)
qed

lemma list_all2_decoded: "list_all2 (\<lambda>r x. approval_of_row r = Inr x) rs xs \<longleftrightarrow> rs = map approval_row_of xs"
  by (induction rs arbitrary: xs) (auto simp: list_all2_Cons1 decoded_approval)

text \<open>
  The pending list is the operator's whole work: it holds exactly the stored approvals that are pending, each
  once, oldest request first.
\<close>

lemma pending_approvals_exact:
  assumes "db_ok L d" "scans_ok L"
  shows "\<exists>xs. fst (approval_list_pending L ConnOk d) = Inr xs \<and> sorted (map ap_requested_at xs) \<and>
    distinct (map ap_id xs) \<and>
    (\<forall>a. a \<in> set xs \<longleftrightarrow> fst (approval_get L ConnOk (ap_id a) d) = Inr (Some a) \<and> ap_status a = ApPending)"
proof -
  let ?sel = "filter (\<lambda>r. pr_status r = ''pending'') (db_approvals d)"
  let ?rows = "sort_key pr_requested_at (sl_scan_approvals L ?sel)"
  have ms: "mset ?rows = mset ?sel" using assms(2) by (simp add: scans_ok_def)
  then have st: "set ?rows = set ?sel" by (rule mset_eq_setD)
  have "is_ok (decode_all approval_of_row ?rows)"
    using assms(1) st by (intro decode_all_ok) (auto simp: db_ok_def rows_ok_def)
  then obtain xs where xs: "decode_all approval_of_row ?rows = Inr xs" by (auto simp: is_ok_iff)
  then have rows: "?rows = map approval_row_of xs" by (simp add: decode_all_Inr list_all2_decoded)
  have "sorted (map pr_requested_at ?rows)" by simp
  then have so: "sorted (map ap_requested_at xs)" unfolding rows by (simp add: comp_def approval_row_of_def)
  have "distinct (map pr_id ?sel)"
    using assms(1) by (simp add: db_ok_def keys_ok_def distinct_map inj_on_def)
  moreover have "mset (map pr_id ?rows) = mset (map pr_id ?sel)" unfolding mset_map ms ..
  ultimately have "distinct (map pr_id ?rows)" using mset_eq_imp_distinct_iff by blast
  then have "distinct (map ap_id xs)" unfolding rows by (simp add: comp_def approval_row_of_def)
  moreover have "a \<in> set xs \<longleftrightarrow> approval_row_of a \<in> set ?sel" for a
  proof -
    have "approval_row_of a \<in> set (map approval_row_of xs) \<longleftrightarrow> a \<in> set xs"
      using approval_row_decodes by (metis (no_types, lifting) imageE image_eqI list.set_map sum.inject(2))
    then show ?thesis using st rows by metis
  qed
  moreover have "pr_status (approval_row_of a) = ''pending'' \<longleftrightarrow> ap_status a = ApPending" for a
    by (cases "ap_status a") (simp_all add: approval_row_of_def)
  ultimately show ?thesis
    using xs so approval_get_iff [OF assms(1)] by (intro exI [of _ xs]) (auto simp: approval_list_pending_def)
qed

definition demo_approval :: "string \<Rightarrow> i64 \<Rightarrow> approval" where
  "demo_approval i t = new_approval i t ''a1'' ''r1'' ''s1'' ''go on?''"

definition demo_asked :: db where
  "demo_asked = snd (create_each (approval_create demo_libs ConnOk) [demo_approval ''p1'' 9, demo_approval ''p2'' 4]
     (snd (action_create demo_libs ConnOk (new_action ''a1'' 1 ''r1'' ''s1'' ''shell'' ''list'' JNull) demo_db)))"

lemma demo_asked_eval:
  "db_approvals demo_asked = [approval_row_of (demo_approval ''p1'' 9), approval_row_of (demo_approval ''p2'' 4)]"
  by (simp add: demo_asked_def action_create_def action_texts_def approval_create_def commit_def sql_insert_def demo_db_eval
      demo_libs_def write_json_def list_codec_def new_action_def demo_approval_def new_approval_def
      session_row_of_def demo_session_def new_session_def run_row_of_def demo_run_def new_run_def action_row_of_def
      approval_row_of_def)

lemma demo_asked_ok: "db_ok demo_libs demo_asked"
proof -
  let ?d = "snd (action_create demo_libs ConnOk (new_action ''a1'' 1 ''r1'' ''s1'' ''shell'' ''list'' JNull) demo_db)"
  let ?op = "create_each (approval_create demo_libs ConnOk) [demo_approval ''p1'' 9, demo_approval ''p2'' 4] ?d"
  have "store_step demo_libs demo_db ?d" by (rule st_action_create) (rule prod.collapse [symmetric])
  then have "db_ok demo_libs ?d" using store_step_ok demo_db_ok(2) by blast
  moreover have "fst ?op = Inr ()"
    by (simp add: action_create_def action_texts_def approval_create_def commit_def sql_insert_def demo_db_eval
      demo_libs_def write_json_def list_codec_def new_action_def demo_approval_def new_approval_def
      session_row_of_def demo_session_def new_session_def run_row_of_def demo_run_def new_run_def action_row_of_def
      approval_row_of_def)
  then have "?op = (Inr (), demo_asked)" unfolding demo_asked_def by (metis prod.collapse)
  ultimately show ?thesis by (rule approval_store.all_good)
qed

lemma pending_approvals_exact_example:
  "\<exists>xs. fst (approval_list_pending demo_libs ConnOk demo_asked) = Inr xs \<and> sorted (map ap_requested_at xs) \<and>
     demo_approval ''p1'' 9 \<in> set xs \<and> demo_approval ''p2'' 4 \<in> set xs"
proof -
  have "fst (approval_get demo_libs ConnOk ''p1'' demo_asked) = Inr (Some (demo_approval ''p1'' 9))"
    "fst (approval_get demo_libs ConnOk ''p2'' demo_asked) = Inr (Some (demo_approval ''p2'' 4))"
    using approval_row_decodes [of "demo_approval ''p1'' 9"] approval_row_decodes [of "demo_approval ''p2'' 4"]
    by (simp_all add: approval_get_def demo_asked_eval)
      (simp_all add: approval_row_of_def demo_approval_def new_approval_def)
  moreover have "ap_id (demo_approval i t) = i" "ap_status (demo_approval i t) = ApPending" for i t
    by (simp_all add: demo_approval_def new_approval_def)
  ultimately show ?thesis using pending_approvals_exact [OF demo_asked_ok demo_libs_ok(2)] by metis
qed

end
