(* ===== verification/StoreRefine.thy ===== *)
theory StoreRefine
  imports StoreContracts
begin

text \<open>
  The stores of runs, actions and approvals against their abstract specification, a partial map from keys to
  records that creations extend and updates merge into; and exactly when an operation of a store fails.
\<close>

section \<open>The specification\<close>

datatype 'r store_op = OpCreate conn_state 'r | OpUpdate conn_state 'r

text \<open>An operation that succeeds needs a free key to create and a taken one to update.\<close>

fun op_allowed :: "('r \<Rightarrow> 'k) \<Rightarrow> 'r store_op \<Rightarrow> ('k \<rightharpoonup> 'r) \<Rightarrow> bool" where
  "op_allowed key (OpCreate _ r) m = (m (key r) = None)"
| "op_allowed key (OpUpdate _ r) m = (m (key r) \<noteq> None)"

fun op_effect :: "('r \<Rightarrow> 'k) \<Rightarrow> ('r \<Rightarrow> 'r \<Rightarrow> 'r) \<Rightarrow> 'r store_op \<Rightarrow> ('k \<rightharpoonup> 'r) \<Rightarrow> ('k \<rightharpoonup> 'r)" where
  "op_effect key merge (OpCreate _ r) m = m(key r \<mapsto> r)"
| "op_effect key merge (OpUpdate _ r) m = m(key r := map_option (merge r) (m (key r)))"

fun replay :: "('r \<Rightarrow> 'k) \<Rightarrow> ('r \<Rightarrow> 'r \<Rightarrow> 'r) \<Rightarrow> ('r store_op \<times> bool) list \<Rightarrow> ('k \<rightharpoonup> 'r) \<Rightarrow> ('k \<rightharpoonup> 'r)" where
  "replay key merge [] m = m"
| "replay key merge ((p, ok) # ps) m = replay key merge ps (if ok then op_effect key merge p m else m)"

fun obeys :: "('r \<Rightarrow> 'k) \<Rightarrow> ('r \<Rightarrow> 'r \<Rightarrow> 'r) \<Rightarrow> ('r store_op \<times> bool) list \<Rightarrow> ('k \<rightharpoonup> 'r) \<Rightarrow> bool" where
  "obeys key merge [] m = True"
| "obeys key merge ((p, ok) # ps) m =
     ((ok \<longrightarrow> op_allowed key p m) \<and> obeys key merge ps (if ok then op_effect key merge p m else m))"

text \<open>The operations run on the database, with what each reported.\<close>

fun run_ops :: "(conn_state \<Rightarrow> 'r \<Rightarrow> 'd \<Rightarrow> ('e + unit) \<times> 'd) \<Rightarrow> (conn_state \<Rightarrow> 'r \<Rightarrow> 'd \<Rightarrow> ('e + unit) \<times> 'd) \<Rightarrow>
    'r store_op list \<Rightarrow> 'd \<Rightarrow> ('r store_op \<times> bool) list \<times> 'd" where
  "run_ops create update [] d = ([], d)"
| "run_ops create update (p # ps) d =
     (let (r, d1) = (case p of OpCreate c x \<Rightarrow> create c x d | OpUpdate c x \<Rightarrow> update c x d);
          (log', d2) = run_ops create update ps d1
      in ((p, is_ok r) # log', d2))"

definition contents :: "('k \<Rightarrow> 'd \<Rightarrow> 'e + 'r option) \<Rightarrow> 'd \<Rightarrow> ('k \<rightharpoonup> 'r)" where
  "contents fetch d k = (case fetch k d of Inr x \<Rightarrow> x | Inl _ \<Rightarrow> None)"

definition refines where
  "refines create update fetch key merge d \<longleftrightarrow>
     (\<forall>ps. case run_ops create update ps d of (done', d') \<Rightarrow>
        contents fetch d' = replay key merge done' (contents fetch d) \<and> obeys key merge done' (contents fetch d))"

section \<open>The contract of a store with updates\<close>

locale updating_store =
  fixes create :: "conn_state \<Rightarrow> 'r \<Rightarrow> 'd \<Rightarrow> ('e + unit) \<times> 'd"
    and update :: "conn_state \<Rightarrow> 'r \<Rightarrow> 'd \<Rightarrow> ('e + unit) \<times> 'd"
    and fetch :: "'k \<Rightarrow> 'd \<Rightarrow> 'e + 'r option"
    and key :: "'r \<Rightarrow> 'k"
    and merge :: "'r \<Rightarrow> 'r \<Rightarrow> 'r"
    and good :: "'d \<Rightarrow> bool"
  assumes keyed: "keyed_store (create c) fetch key (\<lambda>r. r) good"
    and update_good: "good d \<Longrightarrow> update c r d = (res, d') \<Longrightarrow> good d'"
    and update_fetch: "good d \<Longrightarrow> update c r d = (Inr (), d') \<Longrightarrow>
      \<exists>old. fetch (key r) d = Inr (Some old) \<and> fetch (key r) d' = Inr (Some (merge r old))"
    and update_frame: "good d \<Longrightarrow> update c r d = (Inr (), d') \<Longrightarrow> k \<noteq> key r \<Longrightarrow> fetch k d' = fetch k d"
    and update_failed: "update c r d = (Inl e, d') \<Longrightarrow> d' = d"
begin

lemma create_step:
  assumes "good d" "create c r d = (res, d')"
  shows "good d' \<and> contents fetch d' = (if is_ok res then (contents fetch d)(key r \<mapsto> r) else contents fetch d) \<and>
    (is_ok res \<longrightarrow> contents fetch d (key r) = None)"
proof (cases res)
  case (Inl e)
  with assms have "d' = d" by (auto intro: keyed_store.create_failed [OF keyed])
  with Inl assms(1) show ?thesis by simp
next
  case (Inr u)
  with assms have ok: "create c r d = (Inr (), d')" by simp
  show ?thesis
    using keyed_store.create_good [OF keyed assms] keyed_store.create_fetch [OF keyed assms(1) ok]
      keyed_store.create_frame [OF keyed assms(1) ok] keyed_store.create_fresh [OF keyed assms(1) ok] Inr
    by (auto simp: contents_def fun_eq_iff)
qed

lemma update_step:
  assumes "good d" "update c r d = (res, d')"
  shows "good d' \<and> contents fetch d' =
      (if is_ok res then (contents fetch d)(key r := map_option (merge r) (contents fetch d (key r))) else contents fetch d) \<and>
    (is_ok res \<longrightarrow> contents fetch d (key r) \<noteq> None)"
proof (cases res)
  case (Inl e)
  with assms have "d' = d" by (auto intro: update_failed)
  with Inl assms(1) show ?thesis by simp
next
  case (Inr u)
  with assms have ok: "update c r d = (Inr (), d')" by simp
  from update_fetch [OF assms(1) ok] obtain old where
    "fetch (key r) d = Inr (Some old)" "fetch (key r) d' = Inr (Some (merge r old))" by blast
  with update_good [OF assms] update_frame [OF assms(1) ok] Inr show ?thesis
    by (auto simp: contents_def fun_eq_iff)
qed

lemma refinement: "good d \<Longrightarrow> refines create update fetch key merge d"
  unfolding refines_def
proof (intro allI)
  fix ps
  assume "good d"
  then show "case run_ops create update ps d of (done', d') \<Rightarrow>
      contents fetch d' = replay key merge done' (contents fetch d) \<and> obeys key merge done' (contents fetch d)"
  proof (induction ps arbitrary: d)
    case Nil
    then show ?case by simp
  next
    case (Cons p ps)
    obtain r d1 where one: "(case p of OpCreate c x \<Rightarrow> create c x d | OpUpdate c x \<Rightarrow> update c x d) = (r, d1)" by force
    obtain l d2 where rest: "run_ops create update ps d1 = (l, d2)" by force
    have step: "good d1 \<and> contents fetch d1 = (if is_ok r then op_effect key merge p (contents fetch d) else contents fetch d) \<and>
        (is_ok r \<longrightarrow> op_allowed key p (contents fetch d))"
      using one create_step [OF Cons.prems] update_step [OF Cons.prems] by (cases p) auto
    from Cons.IH [of d1] step rest one show ?case by (simp add: Let_def)
  qed
qed

end

section \<open>The stores\<close>

lemma find_map_if:
  assumes "\<And>x. key (g x) = key x"
  shows "find (\<lambda>x. key x = k) (map (\<lambda>x. if key x = i then g x else x) rows) =
    (if k = i then map_option g (find (\<lambda>x. key x = k) rows) else find (\<lambda>x. key x = k) rows)"
  using assms by (induction rows) auto

lemma ex_key_find: "\<exists>x\<in>set rows. key x = i \<Longrightarrow> \<exists>x. find (\<lambda>x. key x = i) rows = Some x \<and> x \<in> set rows"
  by (induction rows) auto

text \<open>What an update takes from the record given to it; the rest stays as it was created.\<close>

definition merge_run :: "run \<Rightarrow> run \<Rightarrow> run" where
  "merge_run r old = r\<lparr>r_session := r_session old, r_trigger := r_trigger old, r_started_at := r_started_at old\<rparr>"

definition merge_action :: "action \<Rightarrow> action \<Rightarrow> action" where
  "merge_action a old = old\<lparr>ac_status := ac_status a, ac_receipt := ac_receipt a, ac_completed_at := ac_completed_at a\<rparr>"

definition merge_approval :: "approval \<Rightarrow> approval \<Rightarrow> approval" where
  "merge_approval a old =
     old\<lparr>ap_status := ap_status a, ap_decided_at := ap_decided_at a, ap_decided_by := ap_decided_by a\<rparr>"

interpretation runs: updating_store "run_create L" "run_update L" "\<lambda>k d. fst (run_get L ConnOk k d)" r_id merge_run
  "db_ok L" for L :: store_libs
proof unfold_locales
  fix d c r res d'
  assume "db_ok L d" "run_update L c r d = (res, d')"
  then show "db_ok L d'" by (rule store_step_ok [OF st_run_update, rotated])
next
  fix d c r d'
  assume ok: "db_ok L d" and up: "run_update L c r d = (Inr (), d')"
  from up show "\<exists>old. fst (run_get L ConnOk (r_id r) d) = Inr (Some old) \<and>
      fst (run_get L ConnOk (r_id r) d') = Inr (Some (merge_run r old))"
  proof (rule run_update_Inr)
    fix b t
    assume tx: "run_texts L r = Inr (b, t)" and ex: "\<exists>x\<in>set (db_runs d). rr_id x = r_id r"
      and d': "d' = d\<lparr>db_runs := map (\<lambda>x. if rr_id x = r_id r then run_change r b t x else x) (db_runs d)\<rparr>"
    from ex_key_find [OF ex] obtain x where x: "find (\<lambda>x. rr_id x = r_id r) (db_runs d) = Some x" "x \<in> set (db_runs d)" by blast
    from x(2) ok obtain old where old: "run_of_row L x = Inr old" by (auto simp: db_ok_def rows_ok_def is_ok_iff)
    have id: "rr_id x = r_id r" using x(1) by (auto dest: find_SomeD)
    have "rr_id (run_change r b t y) = rr_id y" for y by (simp add: run_change_def)
    note f = find_map_if [of rr_id "run_change r b t" "r_id r" "r_id r", OF this]
    have "fst (run_get L ConnOk (r_id r) d') = Inr (Some (merge_run r old))"
      using run_change_decodes [OF db_okD(1) [OF ok] tx old] id by (simp add: run_get_def d' f x(1) merge_run_def)
    moreover have "fst (run_get L ConnOk (r_id r) d) = Inr (Some old)" by (simp add: run_get_def x(1) old)
    ultimately show ?thesis by blast
  qed
next
  fix d c r d' k
  assume ok: "db_ok L d" and up: "run_update L c r d = (Inr (), d')" and ne: "k \<noteq> r_id r"
  from up show "fst (run_get L ConnOk k d') = fst (run_get L ConnOk k d)"
  proof (rule run_update_Inr)
    fix b t
    assume d': "d' = d\<lparr>db_runs := map (\<lambda>x. if rr_id x = r_id r then run_change r b t x else x) (db_runs d)\<rparr>"
    have "rr_id (run_change r b t y) = rr_id y" for y by (simp add: run_change_def)
    note f = find_map_if [of rr_id "run_change r b t" k "r_id r", OF this]
    show ?thesis using ne by (simp add: run_get_def d' f)
  qed
next
  fix c r d e d'
  show "run_update L c r d = (Inl e, d') \<Longrightarrow> d' = d" by (rule write_failed)
qed

interpretation actions: updating_store "action_create L" "action_update L" "\<lambda>k d. fst (action_get L ConnOk k d)" ac_id
  merge_action "db_ok L" for L :: store_libs
proof unfold_locales
  fix d c r res d'
  assume "db_ok L d" "action_update L c r d = (res, d')"
  then show "db_ok L d'" by (rule store_step_ok [OF st_action_update, rotated])
next
  fix d c a d'
  assume ok: "db_ok L d" and up: "action_update L c a d = (Inr (), d')"
  from up show "\<exists>old. fst (action_get L ConnOk (ac_id a) d) = Inr (Some old) \<and>
      fst (action_get L ConnOk (ac_id a) d') = Inr (Some (merge_action a old))"
  proof (rule action_update_Inr)
    fix q
    let ?g = "\<lambda>r. r\<lparr>ar_status := action_status_as_str (ac_status a), ar_receipt_json := q,
              ar_completed_at := ac_completed_at a\<rparr>"
    assume q: "transpose_opt (write_json (sl_receipt L)) (ac_receipt a) = Inr q"
      and ex: "\<exists>x\<in>set (db_actions d). ar_id x = ac_id a"
      and d': "d' = d\<lparr>db_actions := map (\<lambda>r. if ar_id r = ac_id a then ?g r else r) (db_actions d)\<rparr>"
    from ex_key_find [OF ex] obtain x where x: "find (\<lambda>x. ar_id x = ac_id a) (db_actions d) = Some x" "x \<in> set (db_actions d)" by blast
    from x(2) ok obtain old where old: "action_of_row L x = Inr old" by (auto simp: db_ok_def rows_ok_def is_ok_iff)
    have "ar_id (?g y) = ar_id y" for y by simp
    note f = find_map_if [of ar_id ?g "ac_id a" "ac_id a", OF this]
    have "action_of_row L (?g x) = Inr (merge_action a old)"
      using old write_read_opt [OF codecs_okD(7) [OF db_okD(1) [OF ok]] q]
      by (auto simp: action_of_row_def merge_action_def try_bind_Inr_iff read_status_def action_status_codec.dec_enc)
    then have "fst (action_get L ConnOk (ac_id a) d') = Inr (Some (merge_action a old))"
      by (simp add: action_get_def d' f x(1))
    moreover have "fst (action_get L ConnOk (ac_id a) d) = Inr (Some old)" by (simp add: action_get_def x(1) old)
    ultimately show ?thesis by blast
  qed
next
  fix d c a d' k
  assume ok: "db_ok L d" and up: "action_update L c a d = (Inr (), d')" and ne: "k \<noteq> ac_id a"
  from up show "fst (action_get L ConnOk k d') = fst (action_get L ConnOk k d)"
  proof (rule action_update_Inr)
    fix q
    let ?g = "\<lambda>r. r\<lparr>ar_status := action_status_as_str (ac_status a), ar_receipt_json := q,
              ar_completed_at := ac_completed_at a\<rparr>"
    assume d': "d' = d\<lparr>db_actions := map (\<lambda>r. if ar_id r = ac_id a then ?g r else r) (db_actions d)\<rparr>"
    have "ar_id (?g y) = ar_id y" for y by simp
    note f = find_map_if [of ar_id ?g k "ac_id a", OF this]
    show ?thesis using ne by (simp add: action_get_def d' f)
  qed
next
  fix c r d e d'
  show "action_update L c r d = (Inl e, d') \<Longrightarrow> d' = d" by (rule write_failed)
qed

interpretation approvals: updating_store "approval_create L" "approval_update L"
  "\<lambda>k d. fst (approval_get L ConnOk k d)" ap_id merge_approval "db_ok L" for L :: store_libs
proof unfold_locales
  fix d c r res d'
  assume "db_ok L d" "approval_update L c r d = (res, d')"
  then show "db_ok L d'" by (rule store_step_ok [OF st_approval_update, rotated])
next
  fix d c a d'
  assume ok: "db_ok L d" and up: "approval_update L c a d = (Inr (), d')"
  from up show "\<exists>old. fst (approval_get L ConnOk (ap_id a) d) = Inr (Some old) \<and>
      fst (approval_get L ConnOk (ap_id a) d') = Inr (Some (merge_approval a old))"
  proof (rule approval_update_Inr)
    let ?g = "\<lambda>r. r\<lparr>pr_status := approval_status_as_str (ap_status a), pr_decided_at := ap_decided_at a,
              pr_decided_by := ap_decided_by a\<rparr>"
    assume ex: "\<exists>x\<in>set (db_approvals d). pr_id x = ap_id a"
      and d': "d' = d\<lparr>db_approvals := map (\<lambda>r. if pr_id r = ap_id a then ?g r else r) (db_approvals d)\<rparr>"
    from ex_key_find [OF ex] obtain x where x: "find (\<lambda>x. pr_id x = ap_id a) (db_approvals d) = Some x" "x \<in> set (db_approvals d)" by blast
    from x(2) ok obtain old where old: "approval_of_row x = Inr old" by (auto simp: db_ok_def rows_ok_def is_ok_iff)
    have "pr_id (?g y) = pr_id y" for y by simp
    note f = find_map_if [of pr_id ?g "ap_id a" "ap_id a", OF this]
    have "approval_of_row (?g x) = Inr (merge_approval a old)"
      using old by (auto simp: approval_of_row_def merge_approval_def try_bind_Inr_iff read_status_def approval_status_codec.dec_enc)
    then have "fst (approval_get L ConnOk (ap_id a) d') = Inr (Some (merge_approval a old))"
      by (simp add: approval_get_def d' f x(1))
    moreover have "fst (approval_get L ConnOk (ap_id a) d) = Inr (Some old)" by (simp add: approval_get_def x(1) old)
    ultimately show ?thesis by blast
  qed
next
  fix d c a d' k
  assume ok: "db_ok L d" and up: "approval_update L c a d = (Inr (), d')" and ne: "k \<noteq> ap_id a"
  from up show "fst (approval_get L ConnOk k d') = fst (approval_get L ConnOk k d)"
  proof (rule approval_update_Inr)
    let ?g = "\<lambda>r. r\<lparr>pr_status := approval_status_as_str (ap_status a), pr_decided_at := ap_decided_at a,
              pr_decided_by := ap_decided_by a\<rparr>"
    assume d': "d' = d\<lparr>db_approvals := map (\<lambda>r. if pr_id r = ap_id a then ?g r else r) (db_approvals d)\<rparr>"
    have "pr_id (?g y) = pr_id y" for y by simp
    note f = find_map_if [of pr_id ?g k "ap_id a", OF this]
    show ?thesis using ne by (simp add: approval_get_def d' f)
  qed
next
  fix c r d e d'
  show "approval_update L c r d = (Inl e, d') \<Longrightarrow> d' = d" by (rule write_failed)
qed

section \<open>Failures\<close>

lemma transpose_None: "transpose_opt f x = Inr None \<longleftrightarrow> x = None"
  by (cases x) (auto simp: try_bind_Inr_iff)

lemma get_None:
  "fst (session_get L ConnOk sid d) = Inr None \<longleftrightarrow> sid \<notin> sr_id ` set (db_sessions d)"
  "fst (message_get L ConnOk mid d) = Inr None \<longleftrightarrow> mid \<notin> mr_id ` set (db_messages d)"
  "fst (run_get L ConnOk rid d) = Inr None \<longleftrightarrow> rid \<notin> rr_id ` set (db_runs d)"
  "fst (action_get L ConnOk aid d) = Inr None \<longleftrightarrow> aid \<notin> ar_id ` set (db_actions d)"
  "fst (approval_get L ConnOk pid d) = Inr None \<longleftrightarrow> pid \<notin> pr_id ` set (db_approvals d)"
  by (simp_all add: session_get_def message_get_def run_get_def action_get_def approval_get_def transpose_None find_key_None)

text \<open>
  What a call that writes reports. It uses the connection at most \<open>n\<close> times, its argument \<open>serializes\<close> or not, and the data in the
  database may be a reason for \<open>refusal\<close>. It succeeds if and only if nothing stands against it; otherwise the error is
  the one that stands against it.
\<close>

definition verdict :: "conn_state \<Rightarrow> nat \<Rightarrow> bool \<Rightarrow> persistence_error option \<Rightarrow> persistence_error + unit \<Rightarrow> bool" where
  "verdict c n serializes refusal res \<longleftrightarrow>
     (is_ok res \<longleftrightarrow> conn_error c n = None \<and> serializes \<and> refusal = None) \<and>
     (\<forall>e. serializes \<and> conn_error c n = Some e \<longrightarrow> res = Inl e) \<and>
     (\<forall>e. serializes \<and> conn_error c n = None \<and> refusal = Some e \<longrightarrow> res = Inl e) \<and>
     (\<not> serializes \<and> conn_error c n = None \<longrightarrow> (\<exists>m. res = Inl (PeSerialization m)))"

definition insert_refusal :: "store_libs \<Rightarrow> bool \<Rightarrow> bool \<Rightarrow> persistence_error option" where
  "insert_refusal L taken refs =
     (if taken then Some (PeSqlite (sl_unique_failed L))
      else if \<not> refs then Some (PeSqlite (sl_foreign_key_failed L)) else None)"

definition update_refusal :: "bool \<Rightarrow> persistence_error \<Rightarrow> persistence_error option" where
  "update_refusal found e = (if found then None else Some e)"

text \<open>The shape of the writes: serialize, then one statement.\<close>

lemma verdict_write:
  assumes "f d = commit (try_bind A (\<lambda>x. statement c 0 (B x))) put d"
    "\<And>e. A = Inl e \<Longrightarrow> \<exists>m. e = PeSerialization m"
    "\<And>x. A = Inr x \<Longrightarrow> B x = (case ref of Some e \<Rightarrow> Inl e | None \<Rightarrow> Inr (rows x))"
  shows "verdict c 1 (is_ok A) ref (fst (interact c f d))"
proof (cases A)
  case (Inl e)
  with assms(1,2) show ?thesis by (cases c) (auto simp: verdict_def interact_def commit_def)
next
  case (Inr x)
  with assms(1,3) show ?thesis
    by (cases c; cases ref) (auto simp: verdict_def interact_def commit_def statement_def)
qed

lemma sql_insert_refusal:
  "sql_insert L fk key refs row rows =
     (case insert_refusal L (key row \<in> key ` set rows) (fk \<longrightarrow> refs) of Some e \<Rightarrow> Inl e | None \<Rightarrow> Inr (rows @ [row]))"
  by (simp add: sql_insert_def insert_refusal_def)

lemma updated_refusal:
  "updated e (sql_update P g rows) =
     (case update_refusal (\<exists>x\<in>set rows. P x) e of Some e \<Rightarrow> Inl e | None \<Rightarrow> Inr (fst (sql_update P g rows)))"
  by (auto simp: updated_def sql_update_def update_refusal_def filter_empty_conv)

lemma write_json_Inl: "write_json k x = Inl e \<Longrightarrow> \<exists>m. e = PeSerialization m"
  by (cases "to_text k x") (auto simp: write_json_def)

lemma write_opt_Inl: "transpose_opt (write_json k) x = Inl e \<Longrightarrow> \<exists>m. e = PeSerialization m"
  by (cases x) (auto simp: try_bind_Inl_iff dest: write_json_Inl)

lemma texts_Inl:
  "run_texts L r = Inl e \<Longrightarrow> \<exists>m. e = PeSerialization m" "action_texts L a = Inl e \<Longrightarrow> \<exists>m. e = PeSerialization m"
  by (auto simp: run_texts_def action_texts_def try_bind_Inl_iff dest: write_json_Inl write_opt_Inl)

text \<open>Each creation and each update, with what the reads say of the keys.\<close>

lemma session_create_verdict:
  "verdict c 1 (is_ok (write_json (sl_session_budget L) (s_budget s)))
     (insert_refusal L (fst (session_get L ConnOk (s_id s) d) \<noteq> Inr None) True) (fst (session_create L c s d))"
  unfolding session_create_def
  by (rule verdict_write [OF refl write_json_Inl], assumption) (simp add: sql_insert_refusal get_None session_row_of_def)

lemma message_append_verdict:
  assumes "db_foreign_keys d"
  shows "verdict c 1 (is_ok (write_json (sl_message L) m))
     (insert_refusal L (fst (message_get L ConnOk (message_ident m) d) \<noteq> Inr None) (fst (session_get L ConnOk sid d) \<noteq> Inr None))
     (fst (message_append L c sid m d))"
  unfolding message_append_def
  by (rule verdict_write [OF refl write_json_Inl], assumption) (simp add: sql_insert_refusal get_None message_row_of_def assms)

lemma action_create_verdict:
  assumes "db_foreign_keys d"
  shows "verdict c 1 (is_ok (action_texts L a))
     (insert_refusal L (fst (action_get L ConnOk (ac_id a) d) \<noteq> Inr None)
        (fst (session_get L ConnOk (ac_session a) d) \<noteq> Inr None \<and> fst (run_get L ConnOk (ac_run a) d) \<noteq> Inr None))
     (fst (action_create L c a d))"
  unfolding action_create_def case_prod_unfold
  by (rule verdict_write [OF refl texts_Inl(2)], assumption) (simp add: sql_insert_refusal get_None action_row_of_def assms)

lemma approval_create_verdict:
  assumes "db_foreign_keys d"
  shows "verdict c 1 True
     (insert_refusal L (fst (approval_get L ConnOk (ap_id p) d) \<noteq> Inr None)
        (fst (session_get L ConnOk (ap_session p) d) \<noteq> Inr None \<and> fst (run_get L ConnOk (ap_run p) d) \<noteq> Inr None \<and>
         fst (action_get L ConnOk (ap_action p) d) \<noteq> Inr None))
     (fst (approval_create L c p d))"
  unfolding approval_create_def
  using verdict_write [where A = "Inr ()" and c = c and d = d and B = "\<lambda>_. sql_insert L (db_foreign_keys d) pr_id
        (ap_session p \<in> sr_id ` set (db_sessions d) \<and> ap_run p \<in> rr_id ` set (db_runs d) \<and> ap_action p \<in> ar_id ` set (db_actions d))
        (approval_row_of p) (db_approvals d)"]
  by (simp add: sql_insert_refusal get_None approval_row_of_def assms)

lemma ex_key: "(\<exists>x\<in>set rows. key x = k) \<longleftrightarrow> k \<in> key ` set rows"
  by auto

lemma run_update_verdict:
  "verdict c 1 (is_ok (run_texts L r)) (update_refusal (fst (run_get L ConnOk (r_id r) d) \<noteq> Inr None) (PeNotFound (r_id r)))
     (fst (run_update L c r d))"
  unfolding run_update_def case_prod_unfold
  by (rule verdict_write [OF refl texts_Inl(1)], assumption) (simp add: updated_refusal get_None ex_key)

lemma action_update_verdict:
  "verdict c 1 (is_ok (transpose_opt (write_json (sl_receipt L)) (ac_receipt a)))
     (update_refusal (fst (action_get L ConnOk (ac_id a) d) \<noteq> Inr None) (PeNotFound (ac_id a))) (fst (action_update L c a d))"
  unfolding action_update_def
  by (rule verdict_write [OF refl write_opt_Inl], assumption) (simp add: updated_refusal get_None ex_key)

lemma approval_update_verdict:
  "verdict c 1 True (update_refusal (fst (approval_get L ConnOk (ap_id p) d) \<noteq> Inr None) (PeNotFound (ap_id p)))
     (fst (approval_update L c p d))"
  unfolding approval_update_def
  using verdict_write [where A = "Inr ()" and c = c and d = d and B = "\<lambda>_. updated (PeNotFound (ap_id p))
        (sql_update (\<lambda>r. pr_id r = ap_id p) (\<lambda>r. r\<lparr>pr_status := approval_status_as_str (ap_status p),
           pr_decided_at := ap_decided_at p, pr_decided_by := ap_decided_by p\<rparr>) (db_approvals d))"]
  by (simp add: updated_refusal get_None ex_key)

text \<open>The version that an update expects is the stored one exactly if the session reads with it.\<close>

lemma version_found:
  assumes "db_ok L d"
  shows "(\<exists>r\<in>set (db_sessions d). sr_id r = s_id s \<and> sr_version r = SqlInt (sint (s_version s))) \<longleftrightarrow>
    (\<exists>old. fst (session_get L ConnOk (s_id s) d) = Inr (Some old) \<and> s_version old = s_version s)"
proof
  assume "\<exists>r\<in>set (db_sessions d). sr_id r = s_id s \<and> sr_version r = SqlInt (sint (s_version s))"
  then obtain r where r: "r \<in> set (db_sessions d)" "sr_id r = s_id s" "sr_version r = SqlInt (sint (s_version s))" by blast
  obtain x ms where "session_of_row L r = Inr x" "fst (session_get L ConnOk (sr_id r) d) = Inr (Some (x\<lparr>s_messages := ms\<rparr>))"
    by (rule session_get_row [OF assms r(1,3)])
  moreover from this(1) r(3) have "s_version x = s_version s" by (auto simp: session_of_row_def try_bind_Inr_iff)
  ultimately show "\<exists>old. fst (session_get L ConnOk (s_id s) d) = Inr (Some old) \<and> s_version old = s_version s"
    using r(2) by auto
next
  assume "\<exists>old. fst (session_get L ConnOk (s_id s) d) = Inr (Some old) \<and> s_version old = s_version s"
  then obtain r x where r: "find (\<lambda>r. sr_id r = s_id s) (db_sessions d) = Some r" "session_of_row L r = Inr x" "s_version x = s_version s"
    by (cases "find (\<lambda>r. sr_id r = s_id s) (db_sessions d)") (auto simp: session_get_def try_bind_Inr_iff)
  then have m: "r \<in> set (db_sessions d)" "sr_id r = s_id s" by (auto dest: find_SomeD)
  from r(2) obtain v where v: "sr_version r = SqlInt v" "s_version x = word_of_int v"
    by (auto simp: session_of_row_def try_bind_Inr_iff split: sql_int.splits)
  have "sql_int_ok (SqlInt v)" using assms m(1) v(1) by (force simp: db_ok_def rows_ok_def)
  then have "sint (word_of_int v :: u64) = v" by (simp add: sint_sbintrunc' signed_take_bit_int_eq_self)
  with v r(3) have "sr_version r = SqlInt (sint (s_version s))" by simp
  with m show "\<exists>r\<in>set (db_sessions d). sr_id r = s_id s \<and> sr_version r = SqlInt (sint (s_version s))" by blast
qed

lemma session_update_verdict:
  assumes "db_ok L d"
  shows "verdict c 1 (is_ok (write_json (sl_session_budget L) (s_budget s)))
     (update_refusal (\<exists>old. fst (session_get L ConnOk (s_id s) d) = Inr (Some old) \<and> s_version old = s_version s)
        (PeConcurrencyConflict (s_id s) (s_version s)))
     (fst (session_update L c now s d))"
  unfolding session_update_def
  by (rule verdict_write [OF refl write_json_Inl], assumption) (simp add: updated_refusal version_found [OF assms])

text \<open>Creating a run counts the active ones first, and asks for the identifier of one if there is any.\<close>

lemma run_create_verdict:
  assumes "db_ok L d" "scans_ok L" "fst (run_get_active L ConnOk (r_session r) d) = Inr None"
  shows "verdict c 2 (is_ok (write_json (sl_trigger L) (r_trigger r)) \<and> is_ok (run_texts L r))
     (insert_refusal L (fst (run_get L ConnOk (r_id r) d) \<noteq> Inr None) (fst (session_get L ConnOk (r_session r) d) \<noteq> Inr None))
     (fst (run_create L c r d))"
proof -
  let ?A = "try_bind (write_json (sl_trigger L) (r_trigger r)) (\<lambda>g. try_bind (run_texts L r) (\<lambda>(b, t). Inr (g, b, t)))"
  let ?B = "\<lambda>(g, b, t). sql_insert L (db_foreign_keys d) rr_id (r_session r \<in> sr_id ` set (db_sessions d)) (run_row_of r g b t) (db_runs d)"
  let ?ref = "insert_refusal L (fst (run_get L ConnOk (r_id r) d) \<noteq> Inr None) (fst (session_get L ConnOk (r_session r) d) \<noteq> Inr None)"
  have "filter (run_row_active (r_session r)) (db_runs d) = []"
    using get_active_reads [OF assms(1,2), of "r_session r"] assms(3) by (simp add: active_count_def)
  then have f: "run_create L c r d = interact c (\<lambda>d. commit (statement c 0 (try_bind ?A (\<lambda>x. statement c 1 (?B x)))) (\<lambda>rows. d\<lparr>db_runs := rows\<rparr>) d) d"
    unfolding run_create_def by (cases "write_json (sl_trigger L) (r_trigger r)"; cases "run_texts L r"; cases c)
      (simp_all add: interact_def case_prod_unfold)
  have ser: "is_ok ?A \<longleftrightarrow> is_ok (write_json (sl_trigger L) (r_trigger r)) \<and> is_ok (run_texts L r)"
    by (cases "write_json (sl_trigger L) (r_trigger r)"; cases "run_texts L r") auto
  have err: "\<exists>m. e = PeSerialization m" if "?A = Inl e" for e
    using that by (auto simp: try_bind_Inl_iff dest: write_json_Inl texts_Inl(1))
  have ins: "?B x = (case ?ref of Some e \<Rightarrow> Inl e | None \<Rightarrow> Inr (db_runs d @ [case x of (g, b, t) \<Rightarrow> run_row_of r g b t]))" for x
  proof -
    obtain g b t where x: "x = (g, b, t)" by (rule prod_cases3)
    have "rr_id (run_row_of r g b t) = r_id r" by (simp add: run_row_of_def)
    with db_okD(2) [OF assms(1)] show ?thesis unfolding x prod.case by (simp add: sql_insert_refusal get_None)
  qed
  show ?thesis
    unfolding f ser [symmetric]
    using err by (cases ?A; cases c; cases ?ref) (auto simp: ins verdict_def interact_def commit_def statement_def)
qed

lemma run_create_conflict_verdict:
  assumes "db_ok L d" "scans_ok L" "fst (run_get_active L ConnOk (r_session r) d) = Inr (Some b)"
  shows "\<exists>i a. verdict c 2 True (Some (PeActiveRunConflict (r_session r) i)) (fst (run_create L c r d)) \<and>
    fst (run_get L ConnOk i d) = Inr (Some a) \<and> r_session a = r_session r \<and> run_state_active (r_state a)"
proof -
  have n: "active_count (r_session r) d \<noteq> 0"
    using get_active_reads [OF assms(1,2), of "r_session r"] assms(3) by simp
  obtain i a where ok: "run_create L ConnOk r d = (Inl (PeActiveRunConflict (r_session r) i), d)"
    and a: "fst (run_get L ConnOk i d) = Inr (Some a)" "r_session a = r_session r" "run_state_active (r_state a)"
    by (rule active_refused [OF assms(1,2) n])
  have "filter (run_row_active (r_session r)) (db_runs d) \<noteq> []" using n by (auto simp: active_count_def)
  with ok have "verdict c 2 True (Some (PeActiveRunConflict (r_session r) i)) (fst (run_create L c r d))"
    by (cases c) (auto simp: run_create_def verdict_def interact_def commit_def statement_def split: list.splits)
  with a show ?thesis by blast
qed

section \<open>Values that do not read back\<close>

text \<open>
  Where \<open>codecs_ok\<close> fails: parameters that serialize, but whose text does not parse (nested deeper than the
  parser's recursion limit), are stored without an error, and then neither the action nor the list of its run can be read.
\<close>

lemma decode_all_each: "decode_all f rs = Inr xs \<Longrightarrow> r \<in> set rs \<Longrightarrow> \<exists>x. f r = Inr x"
  by (induction rs arbitrary: xs) (auto simp: try_bind_Inr_iff)

lemma unreadable_params:
  assumes "action_create L c a d = (Inr (), d')" "to_text (sl_json L) (ac_params a) = Inr t" "of_text (sl_json L) t = Inl e"
  shows "fst (action_get L ConnOk (ac_id a) d') = Inl (PeSerialization e)"
    and "scans_ok L \<Longrightarrow> \<not> is_ok (fst (action_list_by_run L ConnOk (ac_run a) d'))"
proof -
  from assms(1) obtain p q where p: "write_json (sl_json L) (ac_params a) = Inr p" and new: "ac_id a \<notin> ar_id ` set (db_actions d)"
    and d': "d' = d\<lparr>db_actions := db_actions d @ [action_row_of a p q]\<rparr>" by (rule action_create_Inr)
  have "p = t" using p assms(2) by (simp add: write_json_def)
  then have bad: "action_of_row L (action_row_of a p q) = Inl (PeSerialization e)"
    using assms(3) by (simp add: action_of_row_def action_row_of_def read_json_def)
  have k: "ar_id (action_row_of a p q) = ac_id a" "ar_run (action_row_of a p q) = ac_run a" by (simp_all add: action_row_of_def)
  have "find (\<lambda>r. ar_id r = ac_id a) (db_actions d') = Some (action_row_of a p q)"
    using find_key_snoc [of ar_id "action_row_of a p q" "db_actions d" "ac_id a"] new k(1) by (simp add: d')
  then show "fst (action_get L ConnOk (ac_id a) d') = Inl (PeSerialization e)" by (simp add: action_get_def bad)
  show "\<not> is_ok (fst (action_list_by_run L ConnOk (ac_run a) d'))" if s: "scans_ok L"
  proof
    let ?rows = "sort_key ar_created_at (sl_scan_actions L (filter (\<lambda>r. ar_run r = ac_run a) (db_actions d')))"
    assume "is_ok (fst (action_list_by_run L ConnOk (ac_run a) d'))"
    then have "\<forall>r\<in>set ?rows. is_ok (action_of_row L r)"
      by (auto simp: action_list_by_run_def is_ok_iff dest: decode_all_each)
    moreover have "action_row_of a p q \<in> set ?rows" using k(2) by (simp add: scans_set(2) [OF s] d')
    ultimately show False using bad by fastforce
  qed
qed

section \<open>Properties\<close>


text \<open>
  C10: The stores of runs, actions and approvals are partial maps: whatever sequence of creations and updates is run
  on a well-formed database, over whatever connection failures, reading every key afterwards gives the map that
  the operations which reported success produce on the map read before, where a creation adds the record and an
  update merges its changeable fields into the stored one; a creation only ever succeeds on a free key, an update
  on a taken one, and an operation that reported an error had no effect.
\<close>

theorem stores_refine_maps:
  assumes "db_ok L d"
  shows "refines (run_create L) (run_update L) (\<lambda>k d. fst (run_get L ConnOk k d)) r_id merge_run d \<and>
    refines (action_create L) (action_update L) (\<lambda>k d. fst (action_get L ConnOk k d)) ac_id merge_action d \<and>
    refines (approval_create L) (approval_update L) (\<lambda>k d. fst (approval_get L ConnOk k d)) ap_id merge_approval d"
  using runs.refinement [OF assms] actions.refinement [OF assms] approvals.refinement [OF assms] by blast

theorem stores_refine_maps_witness:
  "refines (run_create demo_libs) (run_update demo_libs) (\<lambda>k d. fst (run_get demo_libs ConnOk k d)) r_id merge_run demo_db \<and>
   contents (\<lambda>k d. fst (run_get demo_libs ConnOk k d)) demo_db ''r1'' \<noteq> None"
proof -
  have "fst (run_get demo_libs ConnOk (r_id (demo_run ''r1'')) demo_db) = Inr (Some (demo_run ''r1''))"
    by (rule run_store.create_fetch [OF demo_db_ok(1) demo_run_created])
  moreover have "r_id (demo_run ''r1'') = ''r1''" by (simp add: demo_run_def new_run_def)
  ultimately show ?thesis using stores_refine_maps [OF demo_db_ok(2)] by (simp add: contents_def)
qed

text \<open>
  C22: Exactly when the stores refuse to write, for each of their nine writes. A creation succeeds if and only if the
  connection carries out its statements, its argument serializes, its key is free and what it refers to exists, and
  for a run if its session has no active one as well. An update of a run, an action or an approval
  succeeds if and only if the connection carries it out, its argument serializes and the record exists, one of a session if
  and only if the stored session reads with the version given. Otherwise the error is the one that stands against it:
  that of the lock, of the task or of the failing SQL statement (\<open>conn_error\<close>), a serialization error, a violated key
  or reference, the active run (a stored, active one of that session), the expected version, or the record not
  found. Where the connection fails and the argument does not serialize, either error may come.
\<close>

theorem store_errors_exact:
  assumes "db_ok L d" "scans_ok L"
  shows "verdict c 1 (is_ok (write_json (sl_session_budget L) (s_budget s)))
      (insert_refusal L (fst (session_get L ConnOk (s_id s) d) \<noteq> Inr None) True) (fst (session_create L c s d)) \<and>
    verdict c 1 (is_ok (write_json (sl_session_budget L) (s_budget s)))
      (update_refusal (\<exists>old. fst (session_get L ConnOk (s_id s) d) = Inr (Some old) \<and> s_version old = s_version s)
         (PeConcurrencyConflict (s_id s) (s_version s))) (fst (session_update L c now s d)) \<and>
    verdict c 1 (is_ok (write_json (sl_message L) m))
      (insert_refusal L (fst (message_get L ConnOk (message_ident m) d) \<noteq> Inr None)
         (fst (session_get L ConnOk sid d) \<noteq> Inr None)) (fst (message_append L c sid m d)) \<and>
    (case fst (run_get_active L ConnOk (r_session r) d) of
       Inl _ \<Rightarrow> False
     | Inr None \<Rightarrow> verdict c 2 (is_ok (write_json (sl_trigger L) (r_trigger r)) \<and> is_ok (run_texts L r))
         (insert_refusal L (fst (run_get L ConnOk (r_id r) d) \<noteq> Inr None) (fst (session_get L ConnOk (r_session r) d) \<noteq> Inr None))
         (fst (run_create L c r d))
     | Inr (Some b) \<Rightarrow> \<exists>i a. verdict c 2 True (Some (PeActiveRunConflict (r_session r) i)) (fst (run_create L c r d)) \<and>
         fst (run_get L ConnOk i d) = Inr (Some a) \<and> r_session a = r_session r \<and> run_state_active (r_state a)) \<and>
    verdict c 1 (is_ok (run_texts L r))
      (update_refusal (fst (run_get L ConnOk (r_id r) d) \<noteq> Inr None) (PeNotFound (r_id r))) (fst (run_update L c r d)) \<and>
    verdict c 1 (is_ok (action_texts L a))
      (insert_refusal L (fst (action_get L ConnOk (ac_id a) d) \<noteq> Inr None)
         (fst (session_get L ConnOk (ac_session a) d) \<noteq> Inr None \<and> fst (run_get L ConnOk (ac_run a) d) \<noteq> Inr None))
      (fst (action_create L c a d)) \<and>
    verdict c 1 (is_ok (transpose_opt (write_json (sl_receipt L)) (ac_receipt a)))
      (update_refusal (fst (action_get L ConnOk (ac_id a) d) \<noteq> Inr None) (PeNotFound (ac_id a))) (fst (action_update L c a d)) \<and>
    verdict c 1 True
      (insert_refusal L (fst (approval_get L ConnOk (ap_id p) d) \<noteq> Inr None)
         (fst (session_get L ConnOk (ap_session p) d) \<noteq> Inr None \<and> fst (run_get L ConnOk (ap_run p) d) \<noteq> Inr None \<and>
          fst (action_get L ConnOk (ap_action p) d) \<noteq> Inr None)) (fst (approval_create L c p d)) \<and>
    verdict c 1 True
      (update_refusal (fst (approval_get L ConnOk (ap_id p) d) \<noteq> Inr None) (PeNotFound (ap_id p))) (fst (approval_update L c p d))"
proof -
  note fk = db_okD(2) [OF assms(1)]
  have run: "case fst (run_get_active L ConnOk (r_session r) d) of
       Inl _ \<Rightarrow> False
     | Inr None \<Rightarrow> verdict c 2 (is_ok (write_json (sl_trigger L) (r_trigger r)) \<and> is_ok (run_texts L r))
         (insert_refusal L (fst (run_get L ConnOk (r_id r) d) \<noteq> Inr None) (fst (session_get L ConnOk (r_session r) d) \<noteq> Inr None))
         (fst (run_create L c r d))
     | Inr (Some b) \<Rightarrow> \<exists>i a. verdict c 2 True (Some (PeActiveRunConflict (r_session r) i)) (fst (run_create L c r d)) \<and>
         fst (run_get L ConnOk i d) = Inr (Some a) \<and> r_session a = r_session r \<and> run_state_active (r_state a)"
    using get_active_reads [OF assms, of "r_session r"] run_create_verdict [OF assms, of r c]
      run_create_conflict_verdict [OF assms, of r _ c]
    by (cases "fst (run_get_active L ConnOk (r_session r) d)") (auto split: option.splits)
  show ?thesis
    by (intro conjI session_create_verdict session_update_verdict [OF assms(1)] message_append_verdict [OF fk] run
        run_update_verdict action_create_verdict [OF fk] action_update_verdict approval_create_verdict [OF fk]
        approval_update_verdict)
qed

text \<open>A session with an active run, an action that is not stored, and a database that is full.\<close>

theorem store_errors_exact_witness:
  "(\<exists>i. fst (run_create demo_libs ConnOk (demo_run ''r2'') demo_db) = Inl (PeActiveRunConflict ''s1'' i)) \<and>
   fst (action_update demo_libs ConnOk (new_action ''a1'' 1 ''r1'' ''s1'' ''shell'' ''list'' JNull) demo_db) = Inl (PeNotFound ''a1'') \<and>
   fst (run_update demo_libs (ConnSqlFails 0 ''database or disk is full'') (demo_run ''r1'') demo_db) =
     Inl (PeSqlite ''database or disk is full'')"
proof -
  let ?a = "new_action ''a1'' 1 ''r1'' ''s1'' ''shell'' ''list'' JNull"
  have s: "r_session (demo_run x) = ''s1''" for x by (simp add: demo_run_def new_run_def)
  have i: "ac_id ?a = ''a1''" "ac_receipt ?a = None" by (simp_all add: new_action_def)
  have "active_count ''s1'' demo_db \<noteq> 0"
    by (simp add: active_count_def demo_db_eval run_row_active_def run_row_of_def demo_run_def new_run_def)
  then obtain b where b: "fst (run_get_active demo_libs ConnOk ''s1'' demo_db) = Inr (Some b)"
    using get_active_reads [OF demo_db_ok(2) demo_libs_ok(2), of "''s1''"] by (auto split: sum.splits option.splits)
  have a: "fst (action_get demo_libs ConnOk ''a1'' demo_db) = Inr None" by (simp add: get_None demo_db_eval)
  have t: "is_ok (run_texts demo_libs (demo_run ''r1''))"
    by (simp add: run_texts_def write_json_def demo_libs_def list_codec_def demo_run_def new_run_def)
  note x = store_errors_exact [OF demo_db_ok(2) demo_libs_ok(2)]
  have "\<exists>i. fst (run_create demo_libs ConnOk (demo_run ''r2'') demo_db) = Inl (PeActiveRunConflict ''s1'' i)"
    using x [where c = ConnOk and r = "demo_run ''r2''", THEN conjunct2, THEN conjunct2, THEN conjunct2, THEN conjunct1] b
    unfolding s by (auto simp: verdict_def)
  moreover have "verdict ConnOk 1 (is_ok (transpose_opt (write_json (sl_receipt demo_libs)) (ac_receipt ?a)))
      (update_refusal (fst (action_get demo_libs ConnOk (ac_id ?a) demo_db) \<noteq> Inr None) (PeNotFound (ac_id ?a)))
      (fst (action_update demo_libs ConnOk ?a demo_db))"
    by (rule x [where c = ConnOk and a = ?a, THEN conjunct2, THEN conjunct2, THEN conjunct2, THEN conjunct2, THEN conjunct2, THEN conjunct2, THEN conjunct1])
  then have "fst (action_update demo_libs ConnOk ?a demo_db) = Inl (PeNotFound ''a1'')"
    using a unfolding i by (simp add: verdict_def update_refusal_def)
  moreover have "verdict (ConnSqlFails 0 ''database or disk is full'') 1 (is_ok (run_texts demo_libs (demo_run ''r1'')))
      (update_refusal (fst (run_get demo_libs ConnOk (r_id (demo_run ''r1'')) demo_db) \<noteq> Inr None) (PeNotFound (r_id (demo_run ''r1''))))
      (fst (run_update demo_libs (ConnSqlFails 0 ''database or disk is full'') (demo_run ''r1'') demo_db))"
    by (rule x [where c = "ConnSqlFails 0 ''database or disk is full''" and r = "demo_run ''r1''",
        THEN conjunct2, THEN conjunct2, THEN conjunct2, THEN conjunct2, THEN conjunct1])
  then have "fst (run_update demo_libs (ConnSqlFails 0 ''database or disk is full'') (demo_run ''r1'') demo_db) =
     Inl (PeSqlite ''database or disk is full'')" using t by (simp add: verdict_def)
  ultimately show ?thesis by blast
qed

end
