(* ===== verification/PulseDrain.thy ===== *)
theory PulseDrain
  imports Heartbeat
begin

text \<open>
  A pulse that nothing disturbs runs every pending task. What an undisturbed pulse is differs: \<open>pulse_run\<close> keeps the
  surroundings fixed, the gateway's pulse changes the world as it runs. The locale \<open>pulse_system\<close> states what both
  have in common, that each step is one of \<open>pulse_step\<close> in some surroundings, and the drain is proved once in it
  for surroundings whose database calls succeed.
\<close>

section \<open>Steps one after the other\<close>

text \<open>\<open>adv n\<close> is one step of a pulse with \<open>n\<close> more to come at most.\<close>

fun pulse_iter :: "(nat \<Rightarrow> pulse \<Rightarrow> 's \<Rightarrow> pulse \<times> 's) \<Rightarrow> nat \<Rightarrow> pulse \<Rightarrow> 's \<Rightarrow> pulse \<times> 's" where
  "pulse_iter adv 0 p s = (p, s)"
| "pulse_iter adv (Suc n) p s =
     (if pulse_over (pu_phase p) then (p, s)
      else (case adv n p s of (p', s') \<Rightarrow> pulse_iter adv n p' s'))"

text \<open>What a task's row becomes: completed, with the result of running it, in surroundings that \<open>ok\<close> admits.\<close>

definition row_done :: "('w host \<Rightarrow> call_env \<Rightarrow> bool) \<Rightarrow> u64 \<Rightarrow> task_record \<Rightarrow> task_record \<Rightarrow> bool" where
  "row_done ok tick x y \<longleftrightarrow> (\<exists>H E H' E' res. ok H E \<and> ok H' E' \<and> task_text H E tick x = Some res \<and>
     y = x\<lparr>tk_status := ''completed'', tk_result := Some res, tk_completed_at := Some (ce_now E')\<rparr>)"

definition rows_done :: "('w host \<Rightarrow> call_env \<Rightarrow> bool) \<Rightarrow> u64 \<Rightarrow> task_record set \<Rightarrow> task_record list \<Rightarrow> task_record list \<Rightarrow> bool" where
  "rows_done ok tick S xs ys \<longleftrightarrow> list_all2 (\<lambda>x y. if x \<in> S then row_done ok tick x y else y = x) xs ys"

lemma row_done_fields: "row_done ok tick x y \<Longrightarrow> tk_id y = tk_id x \<and> tk_status y = ''completed'' \<and> tk_result y \<noteq> None"
  by (auto simp: row_done_def)

lemma rows_done_one:
  assumes "row_done ok tick t y" "rows_done ok tick S (map (\<lambda>x. if x = t then y else x) xs) zs" "y \<notin> S" "t \<notin> S"
  shows "rows_done ok tick (insert t S) xs zs"
  using assms(2) unfolding rows_done_def
  by (auto simp: list_all2_map1 assms(1,3,4) elim!: list_all2_mono split: if_splits)

lemma one_pending:
  "distinct (map tk_id ts) \<Longrightarrow> t \<in> set ts \<Longrightarrow> tk_status t = ''pending'' \<Longrightarrow>
   filter (\<lambda>x. tk_id x = tk_id t \<and> tk_status x = ''pending'') ts = [t]"
proof (induction ts)
  case (Cons x ts)
  show ?case
  proof (cases "x = t")
    case True
    with Cons.prems(1) have "filter (\<lambda>x. tk_id x = tk_id t \<and> tk_status x = ''pending'') ts = []"
      by (auto simp: filter_empty_conv image_iff)
    with True Cons.prems show ?thesis by simp
  next
    case False
    with Cons.prems have "t \<in> set ts" "tk_id x \<noteq> tk_id t" by (auto simp: image_iff)
    with Cons show ?thesis by simp
  qed
qed simp

section \<open>Pulses as a system\<close>

locale pulse_system =
  fixes adv :: "nat \<Rightarrow> pulse \<Rightarrow> 's \<Rightarrow> pulse \<times> 's"
    and db :: "'s \<Rightarrow> legacy_db"
    and ok :: "'w host \<Rightarrow> call_env \<Rightarrow> bool"
    and L :: legacy_libs
  assumes adv_step: "adv n p s = (p', s') \<Longrightarrow>
      \<exists>H E launched. ok H E \<and> pulse_step H L E p (db s) = ((p', launched), db s')"
begin

text \<open>Three steps take the next task through.\<close>

lemma three_steps:
  assumes calm: "\<forall>H E. ok H E \<longrightarrow> ce_conn E = LcOk" and rows: "tasks_ok (db s)" and ph: "pu_phase p = Claiming (t # ts)"
    and t: "t \<in> set (lg_tasks (db s))" "tk_status t = ''pending''"
  obtains y s' where "pulse_iter adv (Suc (Suc (Suc n))) p s =
      pulse_iter adv n (p\<lparr>pu_actions := Suc (pu_actions p), pu_phase := Claiming ts\<rparr>) s'"
    "row_done ok (pu_tick p) t y" "lg_tasks (db s') = map (\<lambda>x. if x = t then y else x) (lg_tasks (db s))"
proof -
  let ?P = "\<lambda>x. tk_id x = tk_id t \<and> tk_status x = ''pending''"
  have one: "filter ?P (lg_tasks (db s)) = [t]" using one_pending rows t unfolding tasks_ok_def by blast
  have key: "x = t" if "x \<in> set (lg_tasks (db s))" "tk_id x = tk_id t" for x
    using tasks_ok_key [OF rows that(1) t(1) that(2)] .
  obtain p1 s1 where a1: "adv (Suc (Suc n)) p s = (p1, s1)" by force
  then obtain H1 E1 l1 where st1: "ok H1 E1" "pulse_step H1 L E1 p (db s) = ((p1, l1), db s1)" using adv_step by blast
  have p1: "p1 = p\<lparr>pu_phase := Working t ts\<rparr>"
    and "db s1 = (db s)\<lparr>lg_tasks := map (\<lambda>x. if ?P x then x\<lparr>tk_status := ''running''\<rparr> else x) (lg_tasks (db s))\<rparr>"
    using st1(2) [symmetric] calm [rule_format, OF st1(1)] by (simp_all add: pulse_step_def ph claim_task_def sql_update_def one)
  then have d1: "lg_tasks (db s1) = map (\<lambda>x. if ?P x then x\<lparr>tk_status := ''running''\<rparr> else x) (lg_tasks (db s))"
    by simp
  obtain p2 s2 where a2: "adv (Suc n) p1 s1 = (p2, s2)" by force
  then obtain H2 E2 l2 where st2: "ok H2 E2" "pulse_step H2 L E2 p1 (db s1) = ((p2, l2), db s2)" using adv_step by blast
  obtain res launched d2 where r: "run_task H2 E2 (pu_tick p) t (db s1) = ((Some res, launched), d2)"
      "task_text H2 E2 (pu_tick p) t = Some res" "lg_tasks d2 = lg_tasks (db s1)"
    by (rule run_task_undisturbed [OF calm [rule_format, OF st2(1)]])
  have p2: "p2 = p\<lparr>pu_phase := Completing t res ts\<rparr>" and d2: "lg_tasks (db s2) = lg_tasks (db s1)"
    using st2(2) r by (simp_all add: p1 pulse_step_def)
  obtain p3 s3 where a3: "adv n p2 s2 = (p3, s3)" by force
  then obtain H3 E3 l3 where st3: "ok H3 E3" "pulse_step H3 L E3 p2 (db s2) = ((p3, l3), db s3)" using adv_step by blast
  let ?done = "\<lambda>x. x\<lparr>tk_status := ''completed'', tk_result := Some res, tk_completed_at := Some (ce_now E3)\<rparr>"
  obtain d3 where c: "complete_task E3 (tk_id t) res (db s2) = (Returned (Inr ()), d3)"
      "lg_tasks d3 = map (\<lambda>x. if tk_id x = tk_id t then ?done x else x) (lg_tasks (db s2))"
    by (rule complete_undisturbed [OF calm [rule_format, OF st3(1)]])
  have p3: "p3 = p\<lparr>pu_actions := Suc (pu_actions p), pu_phase := Claiming ts\<rparr>" and d3: "db s3 = d3"
    using st3(2) c(1) by (simp_all add: p2 pulse_step_def)
  have "lg_tasks (db s3) = map (\<lambda>x. if x = t then ?done t else x) (lg_tasks (db s))"
    unfolding d3 c(2) d2 d1 using key t(2) by auto
  moreover have "row_done ok (pu_tick p) t (?done t)"
    unfolding row_done_def using st2(1) st3(1) r(2) by blast
  moreover have "pulse_iter adv (Suc (Suc (Suc n))) p s =
      pulse_iter adv n (p\<lparr>pu_actions := Suc (pu_actions p), pu_phase := Claiming ts\<rparr>) s3"
    using a1 a2 a3 by (simp add: ph p1 p2 p3)
  ultimately show ?thesis using that by blast
qed

lemma drain:
  assumes calm: "\<forall>H E. ok H E \<longrightarrow> ce_conn E = LcOk"
  shows "tasks_ok (db s) \<Longrightarrow> pu_phase p = Claiming ts \<Longrightarrow> distinct ts \<Longrightarrow>
    (\<forall>t\<in>set ts. t \<in> set (lg_tasks (db s)) \<and> tk_status t = ''pending'') \<Longrightarrow>
    \<exists>p' s'. pulse_iter adv (3 * length ts + n) p s = pulse_iter adv n p' s' \<and> pu_phase p' = Claiming [] \<and>
      pu_actions p' = pu_actions p + length ts \<and> pu_scanned p' = pu_scanned p \<and> pu_tick p' = pu_tick p \<and>
      rows_done ok (pu_tick p) (set ts) (lg_tasks (db s)) (lg_tasks (db s'))"
proof (induction ts arbitrary: p s)
  case Nil
  then show ?case by (intro exI [of _ p] exI [of _ s]) (simp add: rows_done_def list_all2_refl)
next
  case (Cons t ts)
  from Cons.prems(4) have t: "t \<in> set (lg_tasks (db s))" "tk_status t = ''pending''" by simp_all
  let ?p = "p\<lparr>pu_actions := Suc (pu_actions p), pu_phase := Claiming ts\<rparr>"
  obtain y s1 where s1: "pulse_iter adv (Suc (Suc (Suc (3 * length ts + n)))) p s = pulse_iter adv (3 * length ts + n) ?p s1"
      "row_done ok (pu_tick p) t y" "lg_tasks (db s1) = map (\<lambda>x. if x = t then y else x) (lg_tasks (db s))"
    by (rule three_steps [OF calm Cons.prems(1,2) t])
  note y = row_done_fields [OF s1(2)]
  have "map tk_id (lg_tasks (db s1)) = map tk_id (lg_tasks (db s))" unfolding s1(3) using y by simp
  then have "tasks_ok (db s1)" using Cons.prems(1) by (simp add: tasks_ok_def)
  moreover have "\<forall>x\<in>set ts. x \<in> set (lg_tasks (db s1)) \<and> tk_status x = ''pending''"
    using Cons.prems(3,4) unfolding s1(3) by force
  ultimately obtain p' s' where r: "pulse_iter adv (3 * length ts + n) ?p s1 = pulse_iter adv n p' s'"
      "pu_phase p' = Claiming []" "pu_actions p' = Suc (pu_actions p) + length ts" "pu_scanned p' = pu_scanned p"
      "pu_tick p' = pu_tick p" "rows_done ok (pu_tick p) (set ts) (lg_tasks (db s1)) (lg_tasks (db s'))"
    using Cons.IH [of s1 ?p] Cons.prems(3) by auto
  have "y \<notin> set ts" using Cons.prems(4) y by force
  then have rows: "rows_done ok (pu_tick p) (set (t # ts)) (lg_tasks (db s)) (lg_tasks (db s'))"
    using rows_done_one [OF s1(2) r(6) [unfolded s1(3)]] Cons.prems(3) by simp
  have n3: "3 * length (t # ts) + n = Suc (Suc (Suc (3 * length ts + n)))" by simp
  have "pulse_iter adv (3 * length (t # ts) + n) p s = pulse_iter adv n p' s'" unfolding n3 s1(1) by (rule r(1))
  with r(2-5) rows show ?case by (intro exI [of _ p'] exI [of _ s']) simp
qed

text \<open>From the first step, which reads the list, to the receipt.\<close>

lemma listing:
  assumes "adv k (pulse_start tick now) s = (p, s')" "tasks_ok (db s)"
    and calm: "\<forall>H E. ok H E \<longrightarrow> ce_conn E = LcOk" and scan: "\<And>rs. mset (ll_scan_tasks L rs) = mset rs"
  obtains ts where "p = (pulse_start tick now)\<lparr>pu_scanned := length ts, pu_phase := Claiming ts\<rparr>" "db s' = db s"
    "distinct ts" "set ts = {t \<in> set (lg_tasks (db s)). tk_status t = ''pending''}"
    "length ts = length (filter (\<lambda>t. tk_status t = ''pending'') (lg_tasks (db s)))"
proof -
  let ?sel = "filter (\<lambda>t. tk_status t = ''pending'') (lg_tasks (db s))"
  let ?ts = "sort_key tk_created_at (ll_scan_tasks L ?sel)"
  obtain H E launched where st: "ok H E" "pulse_step H L E (pulse_start tick now) (db s) = ((p, launched), db s')"
    using adv_step [OF assms(1)] by blast
  have ms: "mset ?ts = mset ?sel" using scan by simp
  have "p = (pulse_start tick now)\<lparr>pu_scanned := length ?ts, pu_phase := Claiming ?ts\<rparr>" "db s' = db s"
    using st(2) [symmetric] calm [rule_format, OF st(1)] by (simp_all add: pulse_step_def pulse_start_def list_pending_tasks_def)
  moreover have "set ?ts = set ?sel" using ms by (rule mset_eq_setD)
  moreover have "length ?ts = length ?sel" using ms by (rule mset_eq_length)
  moreover have "distinct ?sel" using assms(2) by (simp add: tasks_ok_def distinct_map)
  then have "distinct ?ts" using ms mset_eq_imp_distinct_iff by blast
  ultimately show ?thesis by (intro that [of ?ts]) simp_all
qed

lemma drained:
  assumes "adv k (pulse_start tick now) s = (p, s')" "tasks_ok (db s)"
    and calm: "\<forall>H E. ok H E \<longrightarrow> ce_conn E = LcOk" and scan: "\<And>rs. mset (ll_scan_tasks L rs) = mset rs"
  defines "m \<equiv> length (filter (\<lambda>t. tk_status t = ''pending'') (lg_tasks (db s)))"
  shows "phase_left (pu_phase p) = 3 * m + 1 \<and>
    (\<exists>q r u. pulse_iter adv (3 * m + 1) p s' = (q, u) \<and> pu_phase q = Finished r \<and> pc_tick r = tick \<and>
       pc_tasks_scanned r = of_nat m \<and> pc_actions_dispatched r = of_nat m \<and>
       rows_done ok tick {t. tk_status t = ''pending''} (lg_tasks (db s)) (lg_tasks (db u)))"
proof -
  obtain ts where ts: "p = (pulse_start tick now)\<lparr>pu_scanned := length ts, pu_phase := Claiming ts\<rparr>" "db s' = db s"
      "distinct ts" "set ts = {t \<in> set (lg_tasks (db s)). tk_status t = ''pending''}" "length ts = m"
    unfolding m_def by (rule listing [OF assms(1-4)])
  have "pu_phase p = Claiming ts" by (simp add: ts(1))
  from drain [OF calm _ this ts(3), where s = s' and n = 1] obtain p' u where
    r: "pulse_iter adv (3 * m + 1) p s' = pulse_iter adv 1 p' u" "pu_phase p' = Claiming []"
      "pu_actions p' = m" "pu_scanned p' = m" "pu_tick p' = tick"
      "rows_done ok tick (set ts) (lg_tasks (db s)) (lg_tasks (db u))"
    using assms(2) ts(2,4,5) by (auto simp: ts(1) pulse_start_def)
  obtain q v where a: "adv 0 p' u = (q, v)" by force
  then obtain H E l where st: "ok H E" "pulse_step H L E p' (db u) = ((q, l), db v)" using adv_step by blast
  let ?r = "pulse_receipt_of (ho_show_int H) p'"
  obtain d2 where op: "record_heartbeat_tick E ?r (db u) = (Returned (Inr ()), d2)" "lg_tasks d2 = lg_tasks (db u)"
    by (rule tick_undisturbed [OF calm [rule_format, OF st(1)]])
  have q: "pu_phase q = Finished ?r" and v: "lg_tasks (db v) = lg_tasks (db u)"
    using st(2) op r(2) by (auto simp: pulse_step_def)
  have "rows_done ok tick {t. tk_status t = ''pending''} (lg_tasks (db s)) (lg_tasks (db v))"
    using r(6) unfolding v rows_done_def ts(4) by (auto simp: list_all2_conv_all_nth)
  moreover have "pulse_iter adv (3 * m + 1) p s' = (q, v)" unfolding r(1) using a r(2) by simp
  ultimately show ?thesis using q r(3-5) ts(5) by (auto simp: pulse_receipt_of_def ts(1))
qed

end

section \<open>With the surroundings fixed\<close>

definition run_step :: "'w host \<Rightarrow> legacy_libs \<Rightarrow> call_env \<Rightarrow> nat \<Rightarrow> pulse \<Rightarrow> legacy_db \<Rightarrow> pulse \<times> legacy_db" where
  "run_step H L E n p d = (case pulse_step H L E p d of ((p', _), d') \<Rightarrow> (p', d'))"

lemma pulse_run_iter: "pulse_run H L E n p d = pulse_iter (run_step H L E) n p d"
  by (induction n arbitrary: p d) (auto simp: run_step_def split: prod.splits)


definition ran_row :: "'w host \<Rightarrow> call_env \<Rightarrow> u64 \<Rightarrow> task_record \<Rightarrow> task_record" where
  "ran_row H E tick t = t\<lparr>tk_status := ''completed'', tk_result := task_text H E tick t,
     tk_completed_at := Some (ce_now E)\<rparr>"

lemma row_done_fixed: "row_done (\<lambda>H' E'. H' = H \<and> E' = E) tick x y \<Longrightarrow> y = ran_row H E tick x"
  by (auto simp: row_done_def ran_row_def)

interpretation fixed_pulse: pulse_system "run_step H L E" "\<lambda>d. d" "\<lambda>H' E'. H' = H \<and> E' = E" L
  for H :: "'w host" and L :: legacy_libs and E :: call_env
  by unfold_locales (auto simp: run_step_def split: prod.splits)

text \<open>
  C36: A pulse that nothing disturbs empties the queue: it ends after three steps per pending task and two more,
  every task that was pending is completed with its result and the time, no other task changes, none is
  pending, and the receipt counts every one of them as scanned and as dispatched.
\<close>

theorem undisturbed_pulse_drains:
  assumes "ce_conn E = LcOk" "tasks_ok d" "\<And>rs. mset (ll_scan_tasks L rs) = mset rs"
  defines "n \<equiv> length (filter (\<lambda>t. tk_status t = ''pending'') (lg_tasks d))"
  shows "\<exists>p r d'. pulse_run H L E (3 * n + 2) (pulse_start tick now) d = (p, d') \<and> pu_phase p = Finished r \<and>
    pc_tick r = tick \<and> pc_tasks_scanned r = of_nat n \<and> pc_actions_dispatched r = of_nat n \<and>
    lg_tasks d' = map (\<lambda>t. if tk_status t = ''pending'' then ran_row H E tick t else t) (lg_tasks d) \<and>
    (\<forall>t\<in>set (lg_tasks d'). tk_status t \<noteq> ''pending'')"
proof -
  let ?ok = "\<lambda>H' E'. H' = H \<and> E' = E"
  obtain p s where a: "run_step H L E (3 * n + 1) (pulse_start tick now) d = (p, s)" by force
  obtain q r u where q: "pulse_iter (run_step H L E) (3 * n + 1) p s = (q, u)" "pu_phase q = Finished r"
      "pc_tick r = tick" "pc_tasks_scanned r = of_nat n" "pc_actions_dispatched r = of_nat n"
      "rows_done ?ok tick {t. tk_status t = ''pending''} (lg_tasks d) (lg_tasks u)"
    using fixed_pulse.drained [OF a assms(2) _ assms(3), folded n_def] assms(1) by auto
  have "pulse_run H L E (3 * n + 2) (pulse_start tick now) d = (q, u)"
    using a q(1) by (simp add: pulse_run_iter pulse_start_def)
  moreover have rows: "lg_tasks u = map (\<lambda>t. if tk_status t = ''pending'' then ran_row H E tick t else t) (lg_tasks d)"
    using q(6) by (auto simp: rows_done_def list_all2_conv_all_nth list_eq_iff_nth_eq dest: row_done_fixed split: if_splits)
  moreover have "\<forall>t\<in>set (lg_tasks u). tk_status t \<noteq> ''pending''" unfolding rows by (auto simp: ran_row_def)
  ultimately show ?thesis using q(2-5) by blast
qed

theorem undisturbed_pulse_drains_witness:
  "\<exists>p r d'. pulse_run demo_host demo_legacy demo_env 8 (pulse_start 1 ''now'') demo_queue = (p, d') \<and>
     pu_phase p = Finished r \<and> pc_actions_dispatched r = 2 \<and>
     map tk_result (lg_tasks d') = [Some ''System telemetry nominal: GB10 aarch64'', Some (health_text True)]"
proof -
  have e: "ce_conn demo_env = LcOk" by (simp add: demo_env_def)
  have s: "mset (ll_scan_tasks demo_legacy rs) = mset rs" for rs by (simp add: demo_legacy_def)
  from undisturbed_pulse_drains [OF e demo_queue_ok s, of demo_host 1 "''now''"] show ?thesis
    by (auto simp: demo_queue_def demo_task_def ran_row_def task_text_def run_task_def demo_host_def)
qed

end
