(* ===== verification/HeartLoop.thy ===== *)
theory HeartLoop
  imports Heartbeat
begin

text \<open>
  \<open>start_loop\<close> of \<open>src/heartbeat.rs\<close>: the background task that pulses once per period. Any number of callers may
  start it; the flag behind a mutex lets one of them through, which spawns the task. The callers, the task and
  everything else that uses the engine (\<open>heart_step\<close>) interleave. Time is not modelled: a tick of the interval
  may come at any moment. That \<open>tokio::time::interval\<close> accepts the period is a parameter of the steps.
\<close>

section \<open>Callers and the task\<close>

text \<open>A caller of \<open>start_loop\<close>: waiting for the mutex, let through but not yet spawning, or back (or dropped).\<close>

datatype caller_phase = AtLock | Spawning | Left

text \<open>
  The spawned task: before the interval is made, waiting for a tick, awaiting its pulse with the index \<open>n\<close>, or
  ended by a panic.
\<close>

datatype loop_phase = Entered | Ticking | Pulsing nat | Dead

text \<open>\<open>le_own\<close> is a ghost field: the indices of the pulses the tasks have started.\<close>

record loop_engine =
  le_heart :: heart
  le_running :: bool
  le_callers :: "caller_phase list"
  le_loops :: "loop_phase list"
  le_own :: "nat list"

definition new_loop_engine :: "legacy_db \<Rightarrow> loop_engine" where
  "new_loop_engine d = \<lparr>le_heart = new_heart d, le_running = False, le_callers = [], le_loops = [], le_own = []\<rparr>"

text \<open>What the caller does while it holds the mutex.\<close>

definition start_locked :: "bool \<Rightarrow> caller_phase \<times> bool" where
  "start_locked running = (if running then (Left, running) else (Spawning, True))"

text \<open>The start of \<open>pulse_once\<close>, which the tick of the interval leads to.\<close>

definition begin_pulse :: "string \<Rightarrow> heart \<Rightarrow> heart" where
  "begin_pulse now h = h\<lparr>ht_ticks := ht_ticks h + 1, ht_pulses := ht_pulses h @ [pulse_start (ht_ticks h + 1) now]\<rparr>"

text \<open>
  The task's own next step, \<open>None\<close> while it awaits its pulse or when it has ended: the interval, a tick, and the
  end of the pulse. A panic in the pulse ends the task.
\<close>

fun loop_next :: "bool \<Rightarrow> string \<Rightarrow> heart \<Rightarrow> loop_phase \<Rightarrow> (loop_phase \<times> heart) option" where
  "loop_next accepted now h Entered = Some (if accepted then Ticking else Dead, h)"
| "loop_next accepted now h Ticking = Some (Pulsing (length (ht_pulses h)), begin_pulse now h)"
| "loop_next accepted now h (Pulsing n) = (case pu_phase (ht_pulses h ! n) of
     Finished _ \<Rightarrow> Some (Ticking, h) | Crashed \<Rightarrow> Some (Dead, h) | _ \<Rightarrow> None)"
| "loop_next accepted now h Dead = None"

fun started :: "heart \<Rightarrow> loop_phase \<Rightarrow> nat list" where
  "started h Ticking = [length (ht_pulses h)]"
| "started h _ = []"

inductive loop_step :: "'w host \<Rightarrow> legacy_libs \<Rightarrow> bool \<Rightarrow> loop_engine \<Rightarrow> loop_engine \<Rightarrow> bool"
  for H :: "'w host" and L :: legacy_libs and accepted :: bool where
  lo_call: "loop_step H L accepted s (s\<lparr>le_callers := le_callers s @ [AtLock]\<rparr>)"
| lo_drop: "i < length (le_callers s) \<Longrightarrow> le_callers s ! i = AtLock \<Longrightarrow>
     loop_step H L accepted s (s\<lparr>le_callers := (le_callers s)[i := Left]\<rparr>)"
| lo_lock: "i < length (le_callers s) \<Longrightarrow> le_callers s ! i = AtLock \<Longrightarrow> start_locked (le_running s) = (p, r) \<Longrightarrow>
     loop_step H L accepted s (s\<lparr>le_running := r, le_callers := (le_callers s)[i := p]\<rparr>)"
| lo_spawn: "i < length (le_callers s) \<Longrightarrow> le_callers s ! i = Spawning \<Longrightarrow>
     loop_step H L accepted s (s\<lparr>le_callers := (le_callers s)[i := Left], le_loops := le_loops s @ [Entered]\<rparr>)"
| lo_loop: "i < length (le_loops s) \<Longrightarrow> loop_next accepted now (le_heart s) (le_loops s ! i) = Some (q, h) \<Longrightarrow>
     loop_step H L accepted s (s\<lparr>le_heart := h, le_loops := (le_loops s)[i := q],
       le_own := le_own s @ started (le_heart s) (le_loops s ! i)\<rparr>)"
| lo_other: "heart_step H L (le_heart s) h \<Longrightarrow> loop_step H L accepted s (s\<lparr>le_heart := h\<rparr>)"

section \<open>One task\<close>

definition spawners :: "loop_engine \<Rightarrow> nat" where
  "spawners s = length (filter (\<lambda>c. c = Spawning) (le_callers s))"

definition loop_inv :: "bool \<Rightarrow> loop_engine \<Rightarrow> bool" where
  "loop_inv accepted s \<longleftrightarrow> heart_inv (le_heart s) \<and>
     length (le_loops s) + spawners s = (if le_running s then 1 else 0) \<and>
     (\<forall>n\<in>set (le_own s). n < length (ht_pulses (le_heart s)) \<and>
        (pulse_over (pu_phase (ht_pulses (le_heart s) ! n)) \<or> le_loops s = [Pulsing n])) \<and>
     (\<forall>n. Pulsing n \<in> set (le_loops s) \<longrightarrow> n \<in> set (le_own s)) \<and>
     (\<not> accepted \<longrightarrow> le_own s = [] \<and> Ticking \<notin> set (le_loops s)) \<and>
     (Dead \<in> set (le_loops s) \<longrightarrow>
        \<not> accepted \<or> (\<exists>n\<in>set (le_own s). pu_phase (ht_pulses (le_heart s) ! n) = Crashed))"

lemma spawners_update:
  assumes "i < length (le_callers s)"
  shows "length (filter (\<lambda>c. c = Spawning) ((le_callers s)[i := p])) + (if le_callers s ! i = Spawning then 1 else 0) =
    spawners s + (if p = Spawning then 1 else 0)"
proof -
  have "le_callers s = take i (le_callers s) @ le_callers s ! i # drop (Suc i) (le_callers s)"
    using assms by (simp add: id_take_nth_drop)
  then have "spawners s = length (filter (\<lambda>c. c = Spawning) (take i (le_callers s) @ le_callers s ! i # drop (Suc i) (le_callers s)))"
    unfolding spawners_def by metis
  then show ?thesis using assms by (simp add: upd_conv_take_nth_drop)
qed

text \<open>Steps of the others keep the pulses there are, and those that are over.\<close>

definition pulses_stay :: "heart \<Rightarrow> heart \<Rightarrow> bool" where
  "pulses_stay h h' \<longleftrightarrow> length (ht_pulses h) \<le> length (ht_pulses h') \<and>
     (\<forall>n<length (ht_pulses h). pulse_over (pu_phase (ht_pulses h ! n)) \<longrightarrow> ht_pulses h' ! n = ht_pulses h ! n)"

lemma begin_pulse_stays: "pulses_stay h (begin_pulse now h)"
  by (simp add: pulses_stay_def begin_pulse_def nth_append)

lemma heart_step_stays: "heart_step H L h h' \<Longrightarrow> pulses_stay h h'"
  by (induction rule: heart_step.induct)
    (auto simp: pulses_stay_def nth_append nth_list_update pulse_step_over)

lemma loop_inv_heart:
  assumes "loop_inv accepted s" "pulses_stay (le_heart s) h" "heart_inv h"
  shows "loop_inv accepted (s\<lparr>le_heart := h\<rparr>)"
proof -
  have "n < length (ht_pulses h) \<and> (pulse_over (pu_phase (ht_pulses h ! n)) \<or> le_loops s = [Pulsing n]) \<and>
      (pu_phase (ht_pulses (le_heart s) ! n) = Crashed \<longrightarrow> pu_phase (ht_pulses h ! n) = Crashed)"
    if "n \<in> set (le_own s)" for n
  proof -
    have n: "n < length (ht_pulses (le_heart s))"
        "pulse_over (pu_phase (ht_pulses (le_heart s) ! n)) \<or> le_loops s = [Pulsing n]"
      using assms(1) that unfolding loop_inv_def by blast+
    then show ?thesis using assms(2) unfolding pulses_stay_def by auto
  qed
  with assms(1,3) show ?thesis unfolding loop_inv_def spawners_def by auto
qed

lemma loop_inv_one: "loop_inv accepted s \<Longrightarrow> i < length (le_loops s) \<Longrightarrow> le_loops s = [le_loops s ! i] \<and> i = 0"
  unfolding loop_inv_def by (cases "le_loops s") (auto split: if_splits)

lemma loop_inv_loop:
  assumes inv: "loop_inv accepted s" and i: "i < length (le_loops s)"
    and nx: "loop_next accepted now (le_heart s) (le_loops s ! i) = Some (q, h)"
  shows "loop_inv accepted (s\<lparr>le_heart := h, le_loops := (le_loops s)[i := q],
    le_own := le_own s @ started (le_heart s) (le_loops s ! i)\<rparr>)"
proof -
  obtain p where p: "le_loops s = [p]" "i = 0" using loop_inv_one [OF inv i] by blast
  note inv' = inv [unfolded loop_inv_def spawners_def p(1)]
  show ?thesis
  proof (cases p)
    case Entered
    with nx p have "h = le_heart s" "q = (if accepted then Ticking else Dead)" by auto
    with inv' show ?thesis unfolding loop_inv_def spawners_def p by (auto simp: Entered)
  next
    case Ticking
    with nx p have h: "h = begin_pulse now (le_heart s)" "q = Pulsing (length (ht_pulses (le_heart s)))" by auto
    have "heart_inv h" unfolding h(1) begin_pulse_def using inv' by (intro heart_inv_start) simp
    have stay: "loop_inv accepted (s\<lparr>le_heart := h\<rparr>)"
      using loop_inv_heart [OF inv begin_pulse_stays] \<open>heart_inv h\<close> unfolding h(1) by blast
    have len: "length (ht_pulses h) = Suc (length (ht_pulses (le_heart s)))" by (simp add: h begin_pulse_def)
    show ?thesis using stay unfolding loop_inv_def spawners_def by (auto simp: p Ticking h(2) len)
  next
    case (Pulsing n)
    with nx p have h: "h = le_heart s" "pulse_over (pu_phase (ht_pulses h ! n))"
      "q = Ticking \<or> q = Dead \<and> pu_phase (ht_pulses h ! n) = Crashed"
      by (auto split: pulse_phase.splits)
    have "n \<in> set (le_own s)" using inv' Pulsing by simp
    then have "accepted" using inv' by auto
    show ?thesis using inv' h \<open>n \<in> set (le_own s)\<close> \<open>accepted\<close>
      unfolding loop_inv_def spawners_def p by (auto simp: Pulsing)
  qed (use nx p in simp)
qed

interpretation heart_loop: invariant_system "\<lambda>s. \<exists>d. tasks_ok d \<and> s = new_loop_engine d" "loop_step H L accepted"
    "loop_inv accepted" for H :: "'w host" and L :: legacy_libs and accepted :: bool
proof
  fix s
  assume "\<exists>d. tasks_ok d \<and> s = new_loop_engine d"
  then show "loop_inv accepted s"
    by (auto simp: loop_inv_def new_loop_engine_def spawners_def heart_inv_def new_heart_def)
next
  fix s t
  assume st: "loop_step H L accepted s t" and inv: "loop_inv accepted s"
  from st show "loop_inv accepted t"
  proof (cases rule: loop_step.cases)
    case lo_call
    with inv show ?thesis by (simp add: loop_inv_def spawners_def)
  next
    case (lo_drop i)
    with inv spawners_update [OF lo_drop(2), of Left] show ?thesis by (simp add: loop_inv_def spawners_def)
  next
    case (lo_lock i p r)
    with inv spawners_update [OF lo_lock(2), of p] show ?thesis
      by (auto simp: loop_inv_def spawners_def start_locked_def split: if_splits)
  next
    case (lo_spawn i)
    then have n: "spawners s = Suc (length (filter (\<lambda>c. c = Spawning) ((le_callers s)[i := Left])))"
      using spawners_update [OF lo_spawn(2), of Left] by simp
    with inv have "le_loops s = []" unfolding loop_inv_def by (auto split: if_splits)
    with inv n lo_spawn show ?thesis by (auto simp: loop_inv_def spawners_def)
  next
    case (lo_loop i now q h)
    with inv loop_inv_loop show ?thesis by blast
  next
    case (lo_other h)
    moreover have "heart_inv h" using lo_other(2) inv heart.step_inv unfolding loop_inv_def by blast
    ultimately show ?thesis using loop_inv_heart [OF inv heart_step_stays] by blast
  qed
qed

section \<open>The task goes on\<close>

text \<open>While the lock of the database is intact and its calls succeed, no step of a pulse panics.\<close>

lemma calm_step:
  assumes "ce_conn E = LcOk" "pulse_step H L E p d = ((p', launched), d')" "\<not> pulse_over (pu_phase p)"
  shows "pu_phase p' \<noteq> Crashed \<and> pu_phase p' \<noteq> Listing"
proof (cases "pu_phase p")
  case (Working t ts)
  obtain res l e where "run_task H E (pu_tick p) t d = ((Some res, l), e)"
    using run_task_undisturbed [OF assms(1)] by metis
  with assms(2) Working show ?thesis by (auto simp: pulse_step_def)
qed (use assms in \<open>auto simp: pulse_step_def list_pending_tasks_def record_heartbeat_tick_def claim_task_def
      complete_task_def sql_update_def Let_def split: list.splits prod.splits bool.splits\<close>)

definition ok_env :: call_env where
  "ok_env = \<lparr>ce_conn = LcOk, ce_now = [], ce_transcript_now = [], ce_file_ok = True\<rparr>"

lemma calm_heart_step:
  assumes "n < length (ht_pulses h)" "\<not> pulse_over (pu_phase (ht_pulses h ! n))"
  obtains h' where "heart_step H L h h'" "length (ht_pulses h') = length (ht_pulses h)"
    "pu_phase (ht_pulses h' ! n) \<noteq> Crashed" "pu_phase (ht_pulses h' ! n) \<noteq> Listing"
    "pu_phase (ht_pulses h ! n) \<noteq> Listing \<Longrightarrow>
       phase_left (pu_phase (ht_pulses h' ! n)) < phase_left (pu_phase (ht_pulses h ! n))"
proof -
  obtain p launched d where st: "pulse_step H L ok_env (ht_pulses h ! n) (ht_db h) = ((p, launched), d)"
    by (metis prod.collapse)
  let ?h = "h\<lparr>ht_db := d, ht_pulses := (ht_pulses h)[n := p], ht_ran := ht_ran h @ ran_now (ht_pulses h ! n),
    ht_launched := ht_launched h @ launched\<rparr>"
  have "heart_step H L h ?h" using assms(1) st by (rule pulse_heart_step)
  moreover have "pu_phase p \<noteq> Crashed \<and> pu_phase p \<noteq> Listing"
    using calm_step [OF _ st assms(2)] by (simp add: ok_env_def)
  ultimately show ?thesis using that [of ?h] pulse_step_left [OF st assms(2)] assms(1) by simp
qed

lemma pulse_can_finish:
  assumes "n < length (ht_pulses h)" "pu_phase (ht_pulses h ! n) \<noteq> Crashed"
  shows "\<exists>h' r. (heart_step H L)\<^sup>*\<^sup>* h h' \<and> pu_phase (ht_pulses h' ! n) = Finished r"
proof -
  have listed: "\<exists>h' r. (heart_step H L)\<^sup>*\<^sup>* h h' \<and> pu_phase (ht_pulses h' ! n) = Finished r"
    if "n < length (ht_pulses h)" "pu_phase (ht_pulses h ! n) \<noteq> Crashed" "pu_phase (ht_pulses h ! n) \<noteq> Listing" for h
    using that
  proof (induction "phase_left (pu_phase (ht_pulses h ! n))" arbitrary: h rule: less_induct)
    case less
    show ?case
    proof (cases "pulse_over (pu_phase (ht_pulses h ! n))")
      case True
      with less.prems(2) show ?thesis by (cases "pu_phase (ht_pulses h ! n)") auto
    next
      case False
      obtain h1 where h1: "heart_step H L h h1" "length (ht_pulses h1) = length (ht_pulses h)"
        "pu_phase (ht_pulses h1 ! n) \<noteq> Crashed" "pu_phase (ht_pulses h1 ! n) \<noteq> Listing"
        "phase_left (pu_phase (ht_pulses h1 ! n)) < phase_left (pu_phase (ht_pulses h ! n))"
        using calm_heart_step [OF less.prems(1) False, of H L] less.prems(3) by metis
      from less.hyps [OF h1(5)] h1(2-4) less.prems(1) obtain h' r where
        "(heart_step H L)\<^sup>*\<^sup>* h1 h'" "pu_phase (ht_pulses h' ! n) = Finished r" by auto
      with h1(1) show ?thesis by (meson converse_rtranclp_into_rtranclp)
    qed
  qed
  show ?thesis
  proof (cases "pu_phase (ht_pulses h ! n) = Listing")
    case True
    then obtain h1 where h1: "heart_step H L h h1" "length (ht_pulses h1) = length (ht_pulses h)"
      "pu_phase (ht_pulses h1 ! n) \<noteq> Crashed" "pu_phase (ht_pulses h1 ! n) \<noteq> Listing"
      using calm_heart_step [OF assms(1), of H L] by (metis pulse_over.simps(3))
    with listed [of h1] assms(1) show ?thesis by (metis converse_rtranclp_into_rtranclp)
  qed (use listed assms in blast)
qed

lemma others_run: "(heart_step H L)\<^sup>*\<^sup>* (le_heart s) h \<Longrightarrow> (loop_step H L accepted)\<^sup>*\<^sup>* s (s\<lparr>le_heart := h\<rparr>)"
proof (induction rule: rtranclp_induct)
  case (step h h')
  have "loop_step H L accepted (s\<lparr>le_heart := h\<rparr>) (s\<lparr>le_heart := h, le_heart := h'\<rparr>)"
    using step.hyps(2) by (intro lo_other) simp
  with step.IH show ?case by simp
qed simp

text \<open>From each of its phases but the last the task gets to its next tick, and from there to its next pulse.\<close>

lemma reaches_tick:
  assumes "loop_inv True s" "le_loops s = [p]" "p \<noteq> Dead"
    "\<And>n. p = Pulsing n \<Longrightarrow> pu_phase (ht_pulses (le_heart s) ! n) \<noteq> Crashed"
  shows "\<exists>h. (loop_step H L True)\<^sup>*\<^sup>* s (s\<lparr>le_heart := h, le_loops := [Ticking]\<rparr>)"
proof (cases p)
  case Entered
  have "loop_step H L True s (s\<lparr>le_heart := le_heart s, le_loops := (le_loops s)[0 := Ticking],
      le_own := le_own s @ started (le_heart s) (le_loops s ! 0)\<rparr>)"
    by (rule lo_loop) (simp_all add: assms(2) Entered)
  then show ?thesis by (intro exI [of _ "le_heart s"]) (simp add: assms(2) Entered)
next
  case Ticking
  with assms(2) have "s\<lparr>le_heart := le_heart s, le_loops := [Ticking]\<rparr> = s" by (cases s) simp
  then show ?thesis by (metis rtranclp.rtrancl_refl)
next
  case (Pulsing n)
  have "n < length (ht_pulses (le_heart s))" using assms(1,2) Pulsing by (auto simp: loop_inv_def)
  from pulse_can_finish [OF this assms(4) [OF Pulsing], of H L] obtain h r where
    h: "(heart_step H L)\<^sup>*\<^sup>* (le_heart s) h" "pu_phase (ht_pulses h ! n) = Finished r" by blast
  let ?s = "s\<lparr>le_heart := h\<rparr>"
  have "loop_step H L True ?s (?s\<lparr>le_heart := le_heart ?s, le_loops := (le_loops ?s)[0 := Ticking],
      le_own := le_own ?s @ started (le_heart ?s) (le_loops ?s ! 0)\<rparr>)"
    by (rule lo_loop) (simp_all add: assms(2) Pulsing h(2))
  then have "loop_step H L True ?s (s\<lparr>le_heart := h, le_loops := [Ticking]\<rparr>)" by (simp add: assms(2) Pulsing)
  with others_run [OF h(1)] show ?thesis by (meson rtranclp.rtrancl_into_rtrancl)
qed (use assms(3) in simp)

lemma next_pulse:
  assumes "le_loops s = [Ticking]"
  shows "loop_step H L True s (s\<lparr>le_heart := begin_pulse now (le_heart s),
    le_loops := [Pulsing (length (ht_pulses (le_heart s)))], le_own := le_own s @ [length (ht_pulses (le_heart s))]\<rparr>)"
  using lo_loop [of 0 s True now "Pulsing (length (ht_pulses (le_heart s)))" "begin_pulse now (le_heart s)" H L] assms
  by simp

lemma running_stays: "loop_step H L accepted s t \<Longrightarrow> le_running s \<Longrightarrow> le_running t"
  by (induction rule: loop_step.induct) (auto simp: start_locked_def split: if_splits)

lemma running_stays_run: "(loop_step H L accepted)\<^sup>*\<^sup>* s t \<Longrightarrow> le_running s \<Longrightarrow> le_running t"
  by (induction rule: rtranclp_induct) (auto intro: running_stays)

text \<open>
  C16: However many callers start the loop of the heartbeat, and however they interleave with it and with the
  other pulses, at most one task is ever spawned, and once the flag is set it stays set: the task is never
  replaced. The task's pulses never overlap each other. It ends only by a panic: because the interval refused the
  period, and then it never pulses, or because one of its pulses panicked; otherwise, in every reachable state, it
  can still go on to its next pulse.
\<close>

theorem heartbeat_loop_beats:
  assumes "tasks_ok d" "(loop_step H L accepted)\<^sup>*\<^sup>* (new_loop_engine d) s"
  shows "length (le_loops s) \<le> 1 \<and>
    (le_loops s \<noteq> [] \<longrightarrow> (\<forall>t. (loop_step H L accepted)\<^sup>*\<^sup>* s t \<longrightarrow> le_running t)) \<and>
    (\<forall>n\<in>set (le_own s). pulse_over (pu_phase (ht_pulses (le_heart s) ! n)) \<or> le_loops s = [Pulsing n]) \<and>
    (\<not> accepted \<longrightarrow> le_own s = []) \<and>
    (le_loops s = [] \<or> (\<not> accepted \<or> (\<exists>n\<in>set (le_own s). pu_phase (ht_pulses (le_heart s) ! n) = Crashed)) \<or>
       (\<exists>t k. (loop_step H L accepted)\<^sup>*\<^sup>* s t \<and> le_own t = le_own s @ [k]))"
proof (intro conjI)
  have inv: "loop_inv accepted s" using heart_loop.reached_inv [of "new_loop_engine d"] assms by blast
  note inv' = inv [unfolded loop_inv_def]
  show "length (le_loops s) \<le> 1" using inv' by (auto split: if_splits)
  have "le_loops s \<noteq> [] \<Longrightarrow> le_running s" using inv' by (auto split: if_splits)
  then show "le_loops s \<noteq> [] \<longrightarrow> (\<forall>t. (loop_step H L accepted)\<^sup>*\<^sup>* s t \<longrightarrow> le_running t)"
    using running_stays_run by blast
  show "\<forall>n\<in>set (le_own s). pulse_over (pu_phase (ht_pulses (le_heart s) ! n)) \<or> le_loops s = [Pulsing n]"
    "\<not> accepted \<longrightarrow> le_own s = []" using inv' by blast+
  show "le_loops s = [] \<or> (\<not> accepted \<or> (\<exists>n\<in>set (le_own s). pu_phase (ht_pulses (le_heart s) ! n) = Crashed)) \<or>
       (\<exists>t k. (loop_step H L accepted)\<^sup>*\<^sup>* s t \<and> le_own t = le_own s @ [k])"
  proof (cases "le_loops s = [] \<or> \<not> accepted \<or> (\<exists>n\<in>set (le_own s). pu_phase (ht_pulses (le_heart s) ! n) = Crashed)")
    case False
    then obtain p where p: "le_loops s = [p]" using loop_inv_one [OF inv, of 0] by auto
    have alive: "p \<noteq> Dead" "\<And>n. p = Pulsing n \<Longrightarrow> pu_phase (ht_pulses (le_heart s) ! n) \<noteq> Crashed"
      using inv' p False by auto
    then obtain h where h: "(loop_step H L True)\<^sup>*\<^sup>* s (s\<lparr>le_heart := h, le_loops := [Ticking]\<rparr>)"
      using reaches_tick [OF _ p alive, of H L] inv False by auto
    have "loop_step H L True (s\<lparr>le_heart := h, le_loops := [Ticking]\<rparr>)
        (s\<lparr>le_heart := begin_pulse [] h, le_loops := [Pulsing (length (ht_pulses h))], le_own := le_own s @ [length (ht_pulses h)]\<rparr>)"
      using next_pulse [of "s\<lparr>le_heart := h, le_loops := [Ticking]\<rparr>" H L "[]"] by simp
    with h have "(loop_step H L True)\<^sup>*\<^sup>* s (s\<lparr>le_heart := begin_pulse [] h, le_loops := [Pulsing (length (ht_pulses h))],
        le_own := le_own s @ [length (ht_pulses h)]\<rparr>)" by (rule rtranclp.rtrancl_into_rtrancl)
    moreover have "accepted = True" using False by blast
    ultimately show ?thesis
      by (intro disjI2 exI [of _ "s\<lparr>le_heart := begin_pulse [] h, le_loops := [Pulsing (length (ht_pulses h))],
        le_own := le_own s @ [length (ht_pulses h)]\<rparr>"] exI [of _ "length (ht_pulses h)"]) simp
  qed blast
qed

text \<open>Two callers, of which the second comes between the first one's release of the mutex and its spawn.\<close>

definition loop_at :: "bool \<Rightarrow> caller_phase list \<Rightarrow> loop_phase list \<Rightarrow> loop_engine" where
  "loop_at running cs ls = \<lparr>le_heart = new_heart demo_queue, le_running = running, le_callers = cs, le_loops = ls, le_own = []\<rparr>"

lemma two_callers: "(loop_step demo_host demo_legacy True)\<^sup>*\<^sup>* (new_loop_engine demo_queue) (loop_at True [Left, Left] [Entered])"
proof -
  have s: "new_loop_engine demo_queue = loop_at False [] []" by (simp add: loop_at_def new_loop_engine_def)
  have "loop_step demo_host demo_legacy True (loop_at False [] []) (loop_at False [AtLock] [])"
    using lo_call [of demo_host demo_legacy True "loop_at False [] []"] by (simp add: loop_at_def)
  moreover have "loop_step demo_host demo_legacy True (loop_at False [AtLock] []) (loop_at False [AtLock, AtLock] [])"
    using lo_call [of demo_host demo_legacy True "loop_at False [AtLock] []"] by (simp add: loop_at_def)
  moreover have "loop_step demo_host demo_legacy True (loop_at False [AtLock, AtLock] []) (loop_at True [Spawning, AtLock] [])"
    using lo_lock [of 0 "loop_at False [AtLock, AtLock] []" _ _ demo_host demo_legacy True]
    by (simp add: loop_at_def start_locked_def)
  moreover have "loop_step demo_host demo_legacy True (loop_at True [Spawning, AtLock] []) (loop_at True [Spawning, Left] [])"
    using lo_lock [of 1 "loop_at True [Spawning, AtLock] []" _ _ demo_host demo_legacy True]
    by (simp add: loop_at_def start_locked_def)
  moreover have "loop_step demo_host demo_legacy True (loop_at True [Spawning, Left] []) (loop_at True [Left, Left] [Entered])"
    using lo_spawn [of 0 "loop_at True [Spawning, Left] []" demo_host demo_legacy True] by (simp add: loop_at_def)
  ultimately show ?thesis unfolding s by (meson rtranclp.rtrancl_refl rtranclp.rtrancl_into_rtrancl)
qed

theorem heartbeat_loop_beats_witness:
  "\<exists>t k. (loop_step demo_host demo_legacy True)\<^sup>*\<^sup>* (loop_at True [Left, Left] [Entered]) t \<and> le_own t = [k]"
  using heartbeat_loop_beats [OF demo_queue_ok two_callers] by (simp add: loop_at_def new_loop_engine_def)

end
