(* ===== verification/TaskRow.thy ===== *)
theory TaskRow
  imports PulseDrain
begin

text \<open>
  One task's row: what creating, claiming and completing do to it when the database answers, and what a step of a pulse
  does to a task that the pulse works on or does not.
\<close>

lemma rows_done_ids: "rows_done ok tick S xs ys \<Longrightarrow> map tk_id ys = map tk_id xs"
  by (auto simp: rows_done_def list_all2_conv_all_nth list_eq_iff_nth_eq row_done_def split: if_splits)

lemma rows_done_none_pending:
  assumes "rows_done ok tick {t. tk_status t = ''pending''} xs ys" "y \<in> set ys"
  shows "tk_status y \<noteq> ''pending''"
proof -
  obtain k where "k < length xs" "if tk_status (xs ! k) = ''pending'' then row_done ok tick (xs ! k) y else y = xs ! k"
    using assms by (auto simp: rows_done_def list_all2_conv_all_nth in_set_conv_nth)
  then show ?thesis by (cases "tk_status (xs ! k) = ''pending''") (auto dest: row_done_fields)
qed

section \<open>A task's row\<close>

definition task_row :: "string \<Rightarrow> legacy_db \<Rightarrow> task_record option" where
  "task_row i d = find (\<lambda>t. tk_id t = i) (lg_tasks d)"

lemma task_row_mem: "task_row i d = Some t \<Longrightarrow> t \<in> set (lg_tasks d) \<and> tk_id t = i"
  by (auto simp: task_row_def find_Some_iff)

lemma task_row_same: "lg_tasks d' = lg_tasks d \<Longrightarrow> task_row i d' = task_row i d"
  by (simp add: task_row_def)

lemma task_rowI:
  assumes "tasks_ok d" "t \<in> set (lg_tasks d)" "tk_id t = i"
  shows "task_row i d = Some t"
proof (cases "task_row i d")
  case None
  with assms(2,3) show ?thesis by (auto simp: task_row_def find_None_iff)
next
  case (Some x)
  with tasks_ok_key [OF assms(1) _ assms(2)] task_row_mem [OF Some] assms(3) show ?thesis by simp
qed

lemma find_changed:
  "(\<And>t. tk_id (g t) = tk_id t) \<Longrightarrow> find (\<lambda>t. tk_id t = i) (map (\<lambda>t. if c t then g t else t) ts) =
   map_option (\<lambda>t. if c t then g t else t) (find (\<lambda>t. tk_id t = i) ts)"
  by (induction ts) auto

lemma find_appended: "find P xs = Some x \<Longrightarrow> find P (xs @ ys) = Some x"
  by (induction xs) (auto split: if_splits)

lemma create_row:
  assumes "create_task L E k ty payload d = (r, d')" "task_row i d = Some t"
  shows "task_row i d' = Some t"
  using assms unfolding create_task_def by (elim locked_cases) (auto simp: task_row_def find_appended split: if_splits)

lemma rows_done_row:
  assumes "rows_done ok tick S (lg_tasks d) (lg_tasks d')" "task_row i d = Some t"
  obtains y where "task_row i d' = Some y" "if t \<in> S then row_done ok tick t y else y = t"
proof -
  have "\<exists>y. find (\<lambda>t. tk_id t = i) ys = Some y \<and> (if t \<in> S then row_done ok tick t y else y = t)"
    if "list_all2 (\<lambda>x y. if x \<in> S then row_done ok tick x y else y = x) xs ys" "find (\<lambda>t. tk_id t = i) xs = Some t" for xs ys
    using that by (induction rule: list_all2_induct) (auto dest: row_done_fields split: if_splits)
  with assms that show ?thesis unfolding rows_done_def task_row_def by blast
qed

text \<open>The two calls that change a row, when the database answers.\<close>

lemma claim_calm:
  assumes "ce_conn E = LcOk" "tasks_ok d"
  obtains d' where "claim_task E j d = (Returned (Inr (\<exists>t. task_row j d = Some t \<and> tk_status t = ''pending'')), d')"
    "\<And>i. task_row i d' = (if i = j then map_option (\<lambda>t. if tk_status t = ''pending'' then t\<lparr>tk_status := ''running''\<rparr> else t)
       (task_row j d) else task_row i d)"
proof -
  let ?P = "\<lambda>t. tk_id t = j \<and> tk_status t = ''pending''" and ?g = "\<lambda>t. t\<lparr>tk_status := ''running''\<rparr>"
  let ?d = "d\<lparr>lg_tasks := map (\<lambda>t. if ?P t then ?g t else t) (lg_tasks d)\<rparr>"
  have "length (filter ?P (lg_tasks d)) = 1 \<longleftrightarrow> (\<exists>t. task_row j d = Some t \<and> tk_status t = ''pending'')"
  proof
    assume "length (filter ?P (lg_tasks d)) = 1"
    then have "filter ?P (lg_tasks d) \<noteq> []" by auto
    then obtain t where "t \<in> set (lg_tasks d)" "?P t" by (auto simp: filter_empty_conv)
    with task_rowI [OF assms(2)] show "\<exists>t. task_row j d = Some t \<and> tk_status t = ''pending''" by blast
  next
    assume "\<exists>t. task_row j d = Some t \<and> tk_status t = ''pending''"
    then obtain t where "t \<in> set (lg_tasks d)" "tk_id t = j" "tk_status t = ''pending''" by (auto dest: task_row_mem)
    with one_pending [of "lg_tasks d" t] assms(2) show "length (filter ?P (lg_tasks d)) = 1" by (simp add: tasks_ok_def)
  qed
  then have "claim_task E j d = (Returned (Inr (\<exists>t. task_row j d = Some t \<and> tk_status t = ''pending'')), ?d)"
    using assms(1) by (simp add: claim_task_def sql_update_def)
  moreover have "task_row i ?d = (if i = j then map_option (\<lambda>t. if tk_status t = ''pending'' then ?g t else t) (task_row j d)
      else task_row i d)" for i
  proof -
    have "task_row i ?d = map_option (\<lambda>t. if ?P t then ?g t else t) (task_row i d)"
      by (simp add: task_row_def find_changed)
    then show ?thesis by (cases "task_row i d") (auto dest: task_row_mem)
  qed
  ultimately show ?thesis by (rule that)
qed

lemma complete_calm:
  assumes "ce_conn E = LcOk"
  obtains d' where "complete_task E j res d = (Returned (Inr ()), d')"
    "\<And>i. task_row i d' = (if i = j then map_option (\<lambda>t. t\<lparr>tk_status := ''completed'', tk_result := Some res,
       tk_completed_at := Some (ce_now E)\<rparr>) (task_row j d) else task_row i d)"
proof -
  let ?g = "\<lambda>t. t\<lparr>tk_status := ''completed'', tk_result := Some res, tk_completed_at := Some (ce_now E)\<rparr>"
  obtain d' where c: "complete_task E j res d = (Returned (Inr ()), d')"
      "lg_tasks d' = map (\<lambda>t. if tk_id t = j then ?g t else t) (lg_tasks d)"
    by (rule complete_undisturbed [OF assms])
  have "task_row i d' = (if i = j then map_option ?g (task_row j d) else task_row i d)" for i
  proof -
    have "task_row i d' = map_option (\<lambda>t. if tk_id t = j then ?g t else t) (task_row i d)"
      by (simp add: task_row_def c(2) find_changed)
    then show ?thesis by (cases "task_row i d") (auto dest: task_row_mem)
  qed
  with c(1) show ?thesis by (rule that)
qed

section \<open>What a step of a pulse does to a task\<close>

text \<open>A pulse that will still come to the task: it has not read its list, or the task is on what is left of it.\<close>

fun still_comes :: "string \<Rightarrow> pulse_phase \<Rightarrow> bool" where
  "still_comes i Listing \<longleftrightarrow> True"
| "still_comes i (Claiming ts) \<longleftrightarrow> i \<in> tk_id ` set ts"
| "still_comes i (Working _ ts) \<longleftrightarrow> i \<in> tk_id ` set ts"
| "still_comes i (Completing _ _ ts) \<longleftrightarrow> i \<in> tk_id ` set ts"
| "still_comes i _ \<longleftrightarrow> False"

lemma list_calm:
  assumes "ce_conn E = LcOk" "\<And>rs. mset (ll_scan_tasks L rs) = mset rs"
  obtains ts where "list_pending_tasks L E d = (Returned (Inr ts), d)" "set ts = {t \<in> set (lg_tasks d). tk_status t = ''pending''}"
proof -
  let ?sel = "filter (\<lambda>t. tk_status t = ''pending'') (lg_tasks d)"
  have "mset (sort_key tk_created_at (ll_scan_tasks L ?sel)) = mset ?sel" using assms(2) by simp
  then have "set (sort_key tk_created_at (ll_scan_tasks L ?sel)) = set ?sel" by (rule mset_eq_setD)
  with that [of "sort_key tk_created_at (ll_scan_tasks L ?sel)"] assms(1) show ?thesis
    by (simp add: list_pending_tasks_def)
qed

text \<open>A pulse that does not work on the task leaves its row alone, except that it claims it, which it does if it comes to it.\<close>

lemma idle_step:
  assumes st: "pulse_step H L E p d = ((p', launched), d')" and calm: "ce_conn E = LcOk" "\<And>rs. mset (ll_scan_tasks L rs) = mset rs"
    and ok: "tasks_ok d" and r: "task_row i d = Some t" and idle: "\<not> works_on i (pu_phase p)"
  shows "task_row i d' = Some t \<and> \<not> works_on i (pu_phase p') \<and>
      (tk_status t = ''pending'' \<longrightarrow> still_comes i (pu_phase p) \<longrightarrow> still_comes i (pu_phase p')) \<or>
    tk_status t = ''pending'' \<and> task_row i d' = Some (t\<lparr>tk_status := ''running''\<rparr>) \<and> works_on i (pu_phase p')"
proof (cases "pu_phase p")
  case Listing
  obtain ts where l: "list_pending_tasks L E d = (Returned (Inr ts), d)" "set ts = {t \<in> set (lg_tasks d). tk_status t = ''pending''}"
    by (rule list_calm [OF calm])
  have "pu_phase p' = Claiming ts" "d' = d" using st l(1) Listing by (auto simp: pulse_step_def)
  moreover have "tk_status t = ''pending'' \<Longrightarrow> i \<in> tk_id ` set ts"
    unfolding l(2) using task_row_mem [OF r] by force
  ultimately show ?thesis using r by simp
next
  case (Claiming ts)
  show ?thesis
  proof (cases ts)
    case Nil
    obtain d2 where c: "record_heartbeat_tick E (pulse_receipt_of (ho_show_int H) p) d = (Returned (Inr ()), d2)" "lg_tasks d2 = lg_tasks d"
      by (rule tick_undisturbed [OF calm(1)])
    have "pu_phase p' = Finished (pulse_receipt_of (ho_show_int H) p)" "d' = d2"
      using st c(1) Claiming Nil by (auto simp: pulse_step_def)
    with r task_row_same [OF c(2)] Claiming Nil show ?thesis by simp
  next
    case (Cons x xs)
    obtain d2 where c: "claim_task E (tk_id x) d = (Returned (Inr (\<exists>t. task_row (tk_id x) d = Some t \<and> tk_status t = ''pending'')), d2)"
      "task_row i d2 = (if i = tk_id x then map_option (\<lambda>t. if tk_status t = ''pending'' then t\<lparr>tk_status := ''running''\<rparr> else t)
         (task_row (tk_id x) d) else task_row i d)"
      by (rule claim_calm [OF calm(1) ok]) blast
    have d': "d' = d2" and p': "pu_phase p' = (if \<exists>t. task_row (tk_id x) d = Some t \<and> tk_status t = ''pending'' then Working x xs else Claiming xs)"
      using st c(1) Claiming Cons by (auto simp: pulse_step_def split: bool.splits)
    show ?thesis
    proof (cases "i = tk_id x")
      case True
      with r c(2) show ?thesis unfolding d' p' Claiming Cons by simp
    next
      case False
      with r c(2) show ?thesis unfolding d' p' Claiming Cons by simp
    qed
  qed
next
  case (Working x xs)
  obtain res l d2 where c: "run_task H E (pu_tick p) x d = ((Some res, l), d2)" "lg_tasks d2 = lg_tasks d"
    by (rule run_task_undisturbed [OF calm(1)])
  have "pu_phase p' = Completing x res xs" "d' = d2" using st c(1) Working by (auto simp: pulse_step_def)
  with r task_row_same [OF c(2)] Working idle show ?thesis by simp
next
  case (Completing x res xs)
  obtain d2 where c: "complete_task E (tk_id x) res d = (Returned (Inr ()), d2)"
      "task_row i d2 = (if i = tk_id x then map_option (\<lambda>t. t\<lparr>tk_status := ''completed'', tk_result := Some res,
       tk_completed_at := Some (ce_now E)\<rparr>) (task_row (tk_id x) d) else task_row i d)"
    by (rule complete_calm [OF calm(1)]) blast
  have "pu_phase p' = Claiming xs" "d' = d2" using st c(1) Completing by (auto simp: pulse_step_def)
  with c(2) r Completing idle show ?thesis by simp
qed (use st r idle in \<open>auto simp: pulse_step_def\<close>)

text \<open>The pulse that works on it keeps at it or completes it.\<close>

lemma working_step:
  assumes st: "pulse_step H L E p d = ((p', launched), d')" and calm: "ce_conn E = LcOk"
    and r: "task_row i d = Some t" and works: "works_on i (pu_phase p)"
  shows "(\<exists>x xs. pu_phase p = Working x xs) \<and> (\<exists>x res xs. pu_phase p' = Completing x res xs) \<and> task_row i d' = Some t \<and> works_on i (pu_phase p') \<or>
    (\<exists>y. task_row i d' = Some y \<and> tk_type y = tk_type t \<and> tk_payload y = tk_payload t \<and> tk_status y = ''completed'' \<and>
       tk_result y \<noteq> None \<and> \<not> works_on i (pu_phase p'))"
proof (cases "pu_phase p")
  case (Working x xs)
  obtain res l d2 where c: "run_task H E (pu_tick p) x d = ((Some res, l), d2)" "lg_tasks d2 = lg_tasks d"
    by (rule run_task_undisturbed [OF calm])
  have "pu_phase p' = Completing x res xs" "d' = d2" using st c(1) Working by (auto simp: pulse_step_def)
  with r task_row_same [OF c(2)] Working works show ?thesis by simp
next
  case (Completing x res xs)
  obtain d2 where c: "complete_task E (tk_id x) res d = (Returned (Inr ()), d2)"
      "task_row i d2 = (if i = tk_id x then map_option (\<lambda>t. t\<lparr>tk_status := ''completed'', tk_result := Some res,
       tk_completed_at := Some (ce_now E)\<rparr>) (task_row (tk_id x) d) else task_row i d)"
    by (rule complete_calm [OF calm]) blast
  have "pu_phase p' = Claiming xs" "d' = d2" using st c(1) Completing by (auto simp: pulse_step_def)
  with c(2) r Completing works show ?thesis by simp
qed (use works in auto)

end
