(* ===== verification/TaskLife.thy ===== *)
theory TaskLife
  imports GatewayProps TaskRow
begin

text \<open>
  The life of a queued task, from the route that creates it to the pulse that completes it. The gateway serves requests
  and messages while any number of pulses are under way, each step of each at any moment (\<open>live_step\<close>). The invariant
  follows one task through all of it: it waits for every pulse that started since, or exactly one pulse works on
  it, or it is completed.
\<close>

section \<open>The gateway's pulse drains the queue\<close>

text \<open>A gateway whose database calls succeed; SQLite yields each selected row once, in an order of its own.\<close>

definition calm_gateway :: "'v gateway \<Rightarrow> bool" where
  "calm_gateway G \<longleftrightarrow> (\<forall>v n. ce_conn (gw_calls G v n) = LcOk) \<and> (\<forall>rs. mset (ll_scan_tasks (gw_ldb G) rs) = mset rs)"

definition gateway_hosts :: "'v gateway \<Rightarrow> 'v host \<Rightarrow> call_env \<Rightarrow> bool" where
  "gateway_hosts G H E \<longleftrightarrow> (\<exists>v n. H = gw_host G v \<and> E = gw_calls G v n)"

interpretation gateway_pulse: pulse_system "pulse_advance G" wo_db "gateway_hosts G" "gw_ldb G" for G :: "'v gateway"
proof
  fix n p and w :: "'v world" and p' w'
  assume a: "pulse_advance G n p w = (p', w')"
  obtain launched where "pulse_step (gw_host G (wo_env w)) (gw_ldb G) (gw_calls G (wo_env w) n) p (wo_db w) = ((p', launched), wo_db w')"
    using a by (auto simp: pulse_advance_def split: prod.splits)
  moreover have "gateway_hosts G (gw_host G (wo_env w)) (gw_calls G (wo_env w) n)" by (auto simp: gateway_hosts_def)
  ultimately show "\<exists>H E launched. gateway_hosts G H E \<and> pulse_step H (gw_ldb G) E p (wo_db w) = ((p', launched), wo_db w')"
    by blast
qed

lemma pulse_go_iter: "pulse_go G n p w = pulse_iter (pulse_advance G) n p w"
  by (induction n arbitrary: p w) (auto split: prod.splits)

lemma gw_pulse_drains:
  assumes "calm_gateway G" "tasks_ok (wo_db w)"
  defines "m \<equiv> length (filter (\<lambda>t. tk_status t = ''pending'') (lg_tasks (wo_db w)))"
  obtains rc w' where "gw_pulse_once G w = (Some rc, w')" "pc_tasks_scanned rc = of_nat m" "pc_actions_dispatched rc = of_nat m"
    "rows_done (gateway_hosts G) (wo_ticks w + 1) {t. tk_status t = ''pending''} (lg_tasks (wo_db w)) (lg_tasks (wo_db w'))"
proof -
  let ?w = "w\<lparr>wo_ticks := wo_ticks w + 1\<rparr>"
  obtain p1 w1 where one: "pulse_advance G 0 (pulse_start (wo_ticks w + 1) (gw_now_text G (wo_env w))) ?w = (p1, w1)"
    by force
  have ok: "tasks_ok (wo_db ?w)" using assms(2) by simp
  have calm: "\<forall>H E. gateway_hosts G H E \<longrightarrow> ce_conn E = LcOk" "\<And>rs. mset (ll_scan_tasks (gw_ldb G) rs) = mset rs"
    using assms(1) by (auto simp: calm_gateway_def gateway_hosts_def)
  obtain q r u where d: "phase_left (pu_phase p1) = 3 * m + 1" "pulse_go G (3 * m + 1) p1 w1 = (q, u)"
      "pu_phase q = Finished r" "pc_tasks_scanned r = of_nat m" "pc_actions_dispatched r = of_nat m"
      "rows_done (gateway_hosts G) (wo_ticks w + 1) {t. tk_status t = ''pending''} (lg_tasks (wo_db w)) (lg_tasks (wo_db u))"
    using gateway_pulse.drained [OF one ok calm] by (auto simp: m_def pulse_go_iter)
  have "gw_pulse_once G w = (Some r, u\<lparr>wo_pulses := wo_pulses u @ [r]\<rparr>)"
    using one d(1-3) by (simp add: gw_pulse_once_def Let_def)
  then show ?thesis by (rule that) (use d(4-6) in simp_all)
qed

section \<open>The gateway with pulses under way\<close>

text \<open>
  The world and the pulses started so far. A request, a round of a socket, a tool call of an agent's task, the
  recording of a turn and a change of the outside are steps of \<open>GatewayProps\<close>; the pulse of a request may be part of
  it, without interruption, or one of those under way: a pulse is started and moves a step at a time, in any order
  with everything else. One that is never moved again was dropped with its request, or hangs.
\<close>

inductive live_step :: "'v gateway \<Rightarrow> 'v world \<times> pulse list \<Rightarrow> 'v world \<times> pulse list \<Rightarrow> bool" for G :: "'v gateway" where
  lv_request: "serve_request G req w = (rp, w') \<Longrightarrow> live_step G (w, ps) (w', ps)"
| lv_socket: "live_step G (sk_world s, ps) (sk_world (ws_step G ev s), ps)"
| lv_dispatch: "live_step G (w, ps) (snd (ae_dispatch (gateway_agent G v) name args w), ps)"
| lv_turn: "gw_record_turn G rl prompt a ms w = (r, w') \<Longrightarrow> live_step G (w, ps) (w', ps)"
| lv_outside: "live_step G (w, ps) (w\<lparr>wo_env := v\<rparr>, ps)"
| lv_start: "live_step G (w, ps) (w\<lparr>wo_ticks := wo_ticks w + 1\<rparr>,
    ps @ [pulse_start (wo_ticks w + 1) (gw_now_text G (wo_env w))])"
| lv_advance: "k < length ps \<Longrightarrow> pulse_advance G n (ps ! k) w = (p, w') \<Longrightarrow> live_step G (w, ps) (w', ps[k := p])"

text \<open>What of a property that the gateway keeps, for any list of pulses, its steps other than those of the pulses keep.\<close>

lemma live_cases:
  assumes "live_step G s s'" "\<And>ps. gateway_keeps G (\<lambda>w. I (w, ps))" "I s"
    and start: "\<And>w ps. s = (w, ps) \<Longrightarrow> I (w\<lparr>wo_ticks := wo_ticks w + 1\<rparr>, ps @ [pulse_start (wo_ticks w + 1) (gw_now_text G (wo_env w))])"
    and adv: "\<And>w ps k n p w'. s = (w, ps) \<Longrightarrow> k < length ps \<Longrightarrow> pulse_advance G n (ps ! k) w = (p, w') \<Longrightarrow> I (w', ps[k := p])"
  shows "I s'"
  using assms(1)
proof (cases rule: live_step.cases)
  case (lv_request req w rp w' ps)
  with assms(3) show ?thesis using gateway_keeps.request_ok [OF assms(2)] by blast
next
  case (lv_socket t ps ev)
  with assms(3) show ?thesis using gateway_keeps.ws_step_ok [OF assms(2)] by blast
next
  case (lv_dispatch w ps v name args)
  with assms(3) show ?thesis using gateway_keeps.dispatch_ok [OF assms(2)] by blast
next
  case (lv_turn rl prompt a ms w r w' ps)
  with assms(3) show ?thesis using gateway_keeps.record_turn_ok [OF assms(2)] by blast
next
  case (lv_outside w ps v)
  with assms(3) show ?thesis using gateway_keeps.env_law [OF assms(2)] by blast
qed (use start adv in blast)+

section \<open>Before the post\<close>

text \<open>The tasks that a pulse knows of are in the table.\<close>

fun task_names :: "pulse_phase \<Rightarrow> string list" where
  "task_names (Claiming ts) = map tk_id ts"
| "task_names (Working t ts) = tk_id t # map tk_id ts"
| "task_names (Completing t _ ts) = tk_id t # map tk_id ts"
| "task_names _ = []"

definition known :: "'v gateway \<Rightarrow> 'v world \<times> pulse list \<Rightarrow> bool" where
  "known G s \<longleftrightarrow> calm_gateway G \<and> tasks_ok (wo_db (fst s)) \<and>
     (\<forall>p\<in>set (snd s). set (task_names (pu_phase p)) \<subseteq> tk_id ` set (lg_tasks (wo_db (fst s))))"

lemma works_on_named: "works_on i ph \<Longrightarrow> i \<in> set (task_names ph)"
  by (cases ph) auto

lemma claim_ids: "claim_task E i d = (r, d') \<Longrightarrow> map tk_id (lg_tasks d') = map tk_id (lg_tasks d)"
  unfolding claim_task_def by (elim locked_cases) (auto simp: sql_update_def)

lemma complete_ids: "complete_task E i res d = (r, d') \<Longrightarrow> map tk_id (lg_tasks d') = map tk_id (lg_tasks d)"
  unfolding complete_task_def by (elim locked_cases) (auto simp: sql_update_def)

lemma step_names:
  assumes "pulse_step H L E p d = ((p', launched), d')" "\<And>rs. mset (ll_scan_tasks L rs) = mset rs"
  shows "map tk_id (lg_tasks d') = map tk_id (lg_tasks d) \<and>
    set (task_names (pu_phase p')) \<subseteq> set (task_names (pu_phase p)) \<union> tk_id ` set (lg_tasks d)"
proof
  show "map tk_id (lg_tasks d') = map tk_id (lg_tasks d)"
    using assms(1) unfolding pulse_step_def
    by (auto dest: list_pending_same tick_tasks claim_ids run_task_tasks complete_ids
        split: pulse_phase.splits list.splits prod.splits called.splits sum.splits bool.splits option.splits)
  have "set ts \<subseteq> set (lg_tasks d)" if "list_pending_tasks L E d = (Returned (Inr ts), d2)" for ts d2
  proof -
    have "set (ll_scan_tasks L rs) = set rs" for rs using assms(2) by (rule mset_eq_setD)
    with that show ?thesis unfolding list_pending_tasks_def by (elim locked_cases) auto
  qed
  then show "set (task_names (pu_phase p')) \<subseteq> set (task_names (pu_phase p)) \<union> tk_id ` set (lg_tasks d)"
    using assms(1) unfolding pulse_step_def
    by (fastforce split: pulse_phase.splits list.splits prod.splits called.splits sum.splits bool.splits option.splits)
qed

lemma advance_parts:
  fixes G :: "'v gateway"
  assumes "pulse_advance G n p w = (p', w')" "calm_gateway G"
  obtains H :: "'v host" and E launched where "pulse_step H (gw_ldb G) E p (wo_db w) = ((p', launched), wo_db w')" "ce_conn E = LcOk"
proof -
  obtain H E launched where st: "gateway_hosts G H E" "pulse_step H (gw_ldb G) E p (wo_db w) = ((p', launched), wo_db w')"
    using gateway_pulse.adv_step [OF assms(1)] by blast
  have "ce_conn E = LcOk" using st(1) assms(2) by (auto simp: calm_gateway_def gateway_hosts_def)
  with st(2) show ?thesis by (rule that)
qed

lemma known_keeps: "gateway_keeps G (\<lambda>w. known G (w, ps))" for G :: "'v gateway"
proof
  show "known G (w\<lparr>wo_db := d\<rparr>, ps)"
    if "known G (w, ps)" "create_task (gw_ldb G) (gw_calls G (wo_env w) 0) i ty pl (wo_db w) = (r, d)" for w d i ty pl r
    using that create_grow [OF that(2)] create_adds [OF that(2)] by (fastforce simp: known_def tasks_grow_def)
  show "known G (w', ps)" if "known G (w, ps)" "gw_pulse_once G w = (rc, w')" for w rc w'
  proof -
    have ok: "calm_gateway G" "tasks_ok (wo_db w)" using that(1) by (simp_all add: known_def)
    obtain r u where d: "gw_pulse_once G w = (Some r, u)"
      "rows_done (gateway_hosts G) (wo_ticks w + 1) {t. tk_status t = ''pending''} (lg_tasks (wo_db w)) (lg_tasks (wo_db u))"
      by (rule gw_pulse_drains [OF ok])
    note ids = rows_done_ids [OF d(2)]
    have "tk_id ` set (lg_tasks (wo_db u)) = tk_id ` set (lg_tasks (wo_db w))" using arg_cong [OF ids, of set] by simp
    with that d(1) ids show ?thesis by (simp add: known_def tasks_ok_def)
  qed
qed (simp_all add: known_def tasks_ok_def)

lemma known_step: "live_step G s s' \<Longrightarrow> known G s \<Longrightarrow> known G s'" for G :: "'v gateway"
proof (erule live_cases [OF _ known_keeps])
  fix w ps
  assume "known G s" "s = (w, ps)"
  then show "known G (w\<lparr>wo_ticks := wo_ticks w + 1\<rparr>, ps @ [pulse_start (wo_ticks w + 1) (gw_now_text G (wo_env w))])"
    by (simp add: known_def pulse_start_def)
next
  fix w ps k n p w'
  assume k: "known G s" and s: "s = (w, ps)" "k < length ps" and a: "pulse_advance G n (ps ! k) w = (p, w')"
  have calm: "calm_gateway G" using k by (simp add: known_def)
  obtain H :: "'v host" and E launched where st: "pulse_step H (gw_ldb G) E (ps ! k) (wo_db w) = ((p, launched), wo_db w')"
    by (rule advance_parts [OF a calm])
  have "\<And>rs. mset (ll_scan_tasks (gw_ldb G) rs) = mset rs" using calm by (simp add: calm_gateway_def)
  from step_names [OF st this] have n: "map tk_id (lg_tasks (wo_db w')) = map tk_id (lg_tasks (wo_db w))"
    "set (task_names (pu_phase p)) \<subseteq> set (task_names (pu_phase (ps ! k))) \<union> tk_id ` set (lg_tasks (wo_db w))" by simp_all
  have ids: "tk_id ` set (lg_tasks (wo_db w')) = tk_id ` set (lg_tasks (wo_db w))" using arg_cong [OF n(1), of set] by simp
  have "set (task_names (pu_phase p)) \<subseteq> tk_id ` set (lg_tasks (wo_db w))"
    using n(2) k s nth_mem [OF s(2)] unfolding known_def by fastforce
  with k s ids n(1) show "known G (w', ps[k := p])"
    by (auto simp: known_def tasks_ok_def dest!: set_mp [OF set_update_subset_insert])
qed

section \<open>From the post\<close>

text \<open>
  How a task stands with the pulses: it waits, and every pulse started since the first \<open>n\<close> will still come to it; or
  one pulse works on it; or it is completed.
\<close>

definition standing :: "string \<Rightarrow> nat \<Rightarrow> pulse list \<Rightarrow> task_record \<Rightarrow> bool" where
  "standing i n ps t \<longleftrightarrow>
     tk_status t = ''pending'' \<and> (\<forall>k<length ps. \<not> works_on i (pu_phase (ps ! k))) \<and>
       (\<forall>k<length ps. n \<le> k \<longrightarrow> still_comes i (pu_phase (ps ! k))) \<or>
     tk_status t = ''running'' \<and> (\<exists>!k. k < length ps \<and> works_on i (pu_phase (ps ! k))) \<or>
     tk_status t = ''completed'' \<and> tk_result t \<noteq> None \<and> (\<forall>k<length ps. \<not> works_on i (pu_phase (ps ! k)))"

definition promised :: "string \<Rightarrow> string \<Rightarrow> string \<Rightarrow> nat \<Rightarrow> 'v gateway \<Rightarrow> 'v world \<times> pulse list \<Rightarrow> bool" where
  "promised i ty payload n G s \<longleftrightarrow> calm_gateway G \<and> tasks_ok (wo_db (fst s)) \<and> n \<le> length (snd s) \<and>
     (\<exists>t. task_row i (wo_db (fst s)) = Some t \<and> tk_type t = ty \<and> tk_payload t = payload \<and> standing i n (snd s) t)"

lemma standing_pending: "standing i n ps t \<Longrightarrow> tk_status t = ''pending'' \<Longrightarrow> \<forall>k<length ps. \<not> works_on i (pu_phase (ps ! k))"
  by (auto simp: standing_def)

text \<open>A pulse run to its end takes the task through if it waits.\<close>

lemma drained_row:
  fixes G :: "'v gateway"
  assumes "promised i ty payload n G (w, ps)"
  obtains rc u t where "gw_pulse_once G w = (Some rc, u)" "tasks_ok (wo_db u)" "\<forall>t\<in>set (lg_tasks (wo_db u)). tk_status t \<noteq> ''pending''"
    "task_row i (wo_db u) = Some t" "tk_type t = ty" "tk_payload t = payload" "standing i n ps t" "tk_status t \<noteq> ''pending''"
proof -
  have ok: "calm_gateway G" "tasks_ok (wo_db w)" using assms by (simp_all add: promised_def)
  obtain x where x: "task_row i (wo_db w) = Some x" "tk_type x = ty" "tk_payload x = payload" "standing i n ps x"
    using assms by (auto simp: promised_def)
  obtain rc u where d: "gw_pulse_once G w = (Some rc, u)"
    "rows_done (gateway_hosts G) (wo_ticks w + 1) {t. tk_status t = ''pending''} (lg_tasks (wo_db w)) (lg_tasks (wo_db u))"
    by (rule gw_pulse_drains [OF ok])
  have ids: "tasks_ok (wo_db u)" using rows_done_ids [OF d(2)] ok(2) by (simp add: tasks_ok_def)
  have none: "\<forall>t\<in>set (lg_tasks (wo_db u)). tk_status t \<noteq> ''pending''" using rows_done_none_pending [OF d(2)] by blast
  obtain y where y: "task_row i (wo_db u) = Some y" "if x \<in> {t. tk_status t = ''pending''} then row_done (gateway_hosts G) (wo_ticks w + 1) x y else y = x"
    by (rule rows_done_row [OF d(2) x(1)])
  have "tk_type y = ty \<and> tk_payload y = payload \<and> standing i n ps y"
  proof (cases "tk_status x = ''pending''")
    case True
    then show ?thesis using y(2) x standing_pending [OF x(4) True] by (auto simp: row_done_def standing_def)
  next
    case False
    then show ?thesis using y(2) x by simp
  qed
  moreover have "tk_status y \<noteq> ''pending''" using none task_row_mem [OF y(1)] by blast
  ultimately show ?thesis using that [OF d(1) ids none y(1)] by blast
qed

lemma promised_keeps: "gateway_keeps G (\<lambda>w. promised i ty payload n G (w, ps))" for G :: "'v gateway"
proof
  show "promised i ty payload n G (w\<lparr>wo_db := d\<rparr>, ps)"
    if "promised i ty payload n G (w, ps)" "create_task (gw_ldb G) (gw_calls G (wo_env w) 0) j ty' pl' (wo_db w) = (r, d)"
    for w d j ty' pl' r
    using that create_grow [OF that(2)] create_row [OF that(2)] by (auto simp: promised_def tasks_grow_def)
  show "promised i ty payload n G (w', ps)" if "promised i ty payload n G (w, ps)" "gw_pulse_once G w = (rc, w')" for w rc w'
  proof -
    have p: "promised i ty payload n G (w, ps)" by (rule that(1))
    obtain r u t where "gw_pulse_once G w = (Some r, u)" "tasks_ok (wo_db u)" "task_row i (wo_db u) = Some t"
      "tk_type t = ty" "tk_payload t = payload" "standing i n ps t"
      using drained_row [OF p] by blast
    with that show ?thesis by (auto simp: promised_def)
  qed
  show "promised i ty payload n G (w\<lparr>wo_db := d\<rparr>, ps)" if "promised i ty payload n G (w, ps)" "lg_tasks d = lg_tasks (wo_db w)" for w d
    using that task_row_same [OF that(2)] by (simp add: promised_def tasks_ok_def)
qed (simp_all add: promised_def)

lemma standing_started:
  "standing i n ps t \<Longrightarrow> standing i n (ps @ [pulse_start tick now]) t"
  unfolding standing_def by (auto simp: nth_append pulse_start_def less_Suc_eq)

lemma standing_idle:
  assumes "standing i n ps t" "k < length ps" "\<not> works_on i (pu_phase (ps ! k))" "\<not> works_on i (pu_phase p)"
    "tk_status t = ''pending'' \<Longrightarrow> still_comes i (pu_phase (ps ! k)) \<Longrightarrow> still_comes i (pu_phase p)"
  shows "standing i n (ps[k := p]) t"
proof -
  have same: "works_on i (pu_phase (ps[k := p] ! m)) \<longleftrightarrow> works_on i (pu_phase (ps ! m))" if "m < length ps" for m
    using assms(2-4) that by (cases "k = m") simp_all
  have comes: "still_comes i (pu_phase (ps[k := p] ! m))"
    if "tk_status t = ''pending''" "m < length ps" "still_comes i (pu_phase (ps ! m))" for m
    using assms(2,5) that by (simp add: nth_list_update)
  have uniq: "(\<exists>!m. m < length ps \<and> works_on i (pu_phase (ps[k := p] ! m))) \<longleftrightarrow> (\<exists>!m. m < length ps \<and> works_on i (pu_phase (ps ! m)))"
    using same by (metis (no_types))
  from assms(1) show ?thesis unfolding standing_def length_list_update uniq using same comes by blast
qed

lemma standing_claimed:
  assumes "\<forall>m<length ps. \<not> works_on i (pu_phase (ps ! m))" "k < length ps" "works_on i (pu_phase p)" "tk_status t = ''running''"
  shows "standing i n (ps[k := p]) t"
proof -
  have "\<exists>!m. m < length ps \<and> works_on i (pu_phase (ps[k := p] ! m))"
    using assms(1-3) by (intro ex1I [of _ k]) (auto simp: nth_list_update split: if_splits)
  with assms(4) show ?thesis by (simp add: standing_def)
qed

lemma promised_step:
  fixes G :: "'v gateway"
  assumes "live_step G s s'" "promised i ty payload n G s"
  shows "promised i ty payload n G s'"
proof (rule live_cases [OF assms(1) promised_keeps assms(2)])
  fix w ps
  assume "s = (w, ps)"
  with assms(2) show "promised i ty payload n G (w\<lparr>wo_ticks := wo_ticks w + 1\<rparr>, ps @ [pulse_start (wo_ticks w + 1) (gw_now_text G (wo_env w))])"
    by (auto simp: promised_def intro: standing_started)
next
  fix w ps k m p w'
  assume s: "s = (w, ps)" "k < length ps" and a: "pulse_advance G m (ps ! k) w = (p, w')"
  obtain t where calm: "calm_gateway G" and ok: "tasks_ok (wo_db w)" and n: "n \<le> length ps" and
    t: "task_row i (wo_db w) = Some t" "tk_type t = ty" "tk_payload t = payload" "standing i n ps t"
    using assms(2) s(1) by (auto simp: promised_def)
  obtain H :: "'v host" and E launched where st: "pulse_step H (gw_ldb G) E (ps ! k) (wo_db w) = ((p, launched), wo_db w')"
      and E: "ce_conn E = LcOk"
    by (rule advance_parts [OF a calm])
  have scan: "\<And>rs. mset (ll_scan_tasks (gw_ldb G) rs) = mset rs" using calm by (simp add: calm_gateway_def)
  have ok': "tasks_ok (wo_db w')" using pulse_grow [OF st] ok by (simp add: tasks_grow_def)
  have "\<exists>y. task_row i (wo_db w') = Some y \<and> tk_type y = ty \<and> tk_payload y = payload \<and> standing i n (ps[k := p]) y"
  proof (cases "works_on i (pu_phase (ps ! k))")
    case True
    then have run: "tk_status t = ''running''" "\<exists>!m. m < length ps \<and> works_on i (pu_phase (ps ! m))"
      using t(4) s(2) by (auto simp: standing_def)
    then have others: "\<not> works_on i (pu_phase (ps ! m))" if "m < length ps" "m \<noteq> k" for m using that True s(2) by blast
    then have ex: "\<exists>!m. m < length ps \<and> works_on i (pu_phase (ps[k := p] ! m))" if "works_on i (pu_phase p)"
      using that s(2) by (intro ex1I [of _ k]) (auto simp: nth_list_update split: if_splits)
    have none: "\<forall>m<length ps. \<not> works_on i (pu_phase (ps[k := p] ! m))" if "\<not> works_on i (pu_phase p)"
      using that others s(2) by (simp add: nth_list_update)
    show ?thesis using working_step [OF st E t(1) True] run(1) ex none t(2,3) by (auto simp: standing_def)
  next
    case False
    from idle_step [OF st E scan ok t(1) False] show ?thesis
    proof
      assume i: "task_row i (wo_db w') = Some t \<and> \<not> works_on i (pu_phase p) \<and>
        (tk_status t = ''pending'' \<longrightarrow> still_comes i (pu_phase (ps ! k)) \<longrightarrow> still_comes i (pu_phase p))"
      then have "standing i n (ps[k := p]) t" using t(4) s(2) False by (intro standing_idle) simp_all
      with i t show ?thesis by blast
    next
      assume i: "tk_status t = ''pending'' \<and> task_row i (wo_db w') = Some (t\<lparr>tk_status := ''running''\<rparr>) \<and> works_on i (pu_phase p)"
      have "standing i n (ps[k := p]) (t\<lparr>tk_status := ''running''\<rparr>)"
        by (rule standing_claimed [OF standing_pending [OF t(4)] s(2)]) (use i in simp_all)
      with i t show ?thesis by force
    qed
  qed
  with calm ok' n show "promised i ty payload n G (w', ps[k := p])" by (simp add: promised_def)
qed

text \<open>The pulse that works on a task completes it within two steps.\<close>

lemma two_moves:
  fixes G :: "'v gateway"
  assumes "promised i ty payload n G (w, ps)" "k < length ps" "works_on i (pu_phase (ps ! k))"
  obtains t where "task_row i (wo_db (snd (pulse_go G 2 (ps ! k) w))) = Some t" "tk_status t = ''completed''" "tk_result t \<noteq> None"
proof -
  obtain t where calm: "calm_gateway G" and ok: "tasks_ok (wo_db w)" and t: "task_row i (wo_db w) = Some t"
    using assms(1) by (auto simp: promised_def)
  have scan: "\<And>rs. mset (ll_scan_tasks (gw_ldb G) rs) = mset rs" using calm by (simp add: calm_gateway_def)
  obtain p1 w1 where a1: "pulse_advance G 1 (ps ! k) w = (p1, w1)" by force
  obtain p2 w2 where a2: "pulse_advance G 0 p1 w1 = (p2, w2)" by force
  obtain H1 :: "'v host" and E1 l1 where st1: "pulse_step H1 (gw_ldb G) E1 (ps ! k) (wo_db w) = ((p1, l1), wo_db w1)" "ce_conn E1 = LcOk"
    by (rule advance_parts [OF a1 calm])
  obtain H2 :: "'v host" and E2 l2 where st2: "pulse_step H2 (gw_ldb G) E2 p1 (wo_db w1) = ((p2, l2), wo_db w2)" "ce_conn E2 = LcOk"
    by (rule advance_parts [OF a2 calm])
  have ok1: "tasks_ok (wo_db w1)" using pulse_grow [OF st1(1)] ok by (simp add: tasks_grow_def)
  have over: "\<not> pulse_over (pu_phase (ps ! k))" using assms(3) by (cases "pu_phase (ps ! k)") auto
  have go: "snd (pulse_go G 2 (ps ! k) w) = (if pulse_over (pu_phase p1) then w1 else w2)"
    using a1 a2 over by (simp add: numeral_2_eq_2)
  from working_step [OF st1 t assms(3)] show ?thesis
  proof (elim disjE exE conjE)
    fix x res xs
    assume c: "pu_phase p1 = Completing x res xs" and r: "task_row i (wo_db w1) = Some t" and wk: "works_on i (pu_phase p1)"
    from working_step [OF st2 r wk] c that show ?thesis unfolding go by auto
  next
    fix y
    assume r: "task_row i (wo_db w1) = Some y" and y: "tk_status y = ''completed''" "tk_result y \<noteq> None" and "\<not> works_on i (pu_phase p1)"
    from idle_step [OF st2 scan ok1 r this(4)] y r that [of y] show ?thesis unfolding go by auto
  qed
qed

definition authorized :: "'v gateway \<Rightarrow> http_method \<Rightarrow> string \<Rightarrow> http_request \<Rightarrow> bool" where
  "authorized G m path req \<longleftrightarrow> rq_method req = m \<and> rq_path req = path \<and> oa_token (gw_auth G) \<noteq> None \<and>
     presented_token (request.truncate req) = oa_token (gw_auth G)"

lemma authorized_dispatch:
  "authorized G m path req \<Longrightarrow> m \<noteq> OtherMethod ''OPTIONS'' \<Longrightarrow> serve_request G req w = dispatch_request G req w"
  by (auto simp: authorized_def serve_request_def require_operator_decides)

lemma known_run: "(live_step G)\<^sup>*\<^sup>* s s' \<Longrightarrow> known G s \<Longrightarrow> known G s'"
  by (induction rule: rtranclp_induct) (auto intro: known_step)

lemma promised_run: "(live_step G)\<^sup>*\<^sup>* s s' \<Longrightarrow> promised i ty payload n G s \<Longrightarrow> promised i ty payload n G s'"
  by (induction rule: rtranclp_induct) (auto intro: promised_step)

lemma post_promises:
  assumes "known G (w, ps)" "''task-'' @ gw_uuid G (wo_env w) \<notin> tk_id ` set (lg_tasks (wo_db w))"
    "create_task_handler G (ty, payload) w = (rp, w1)"
  shows "(\<exists>b. rp = respond 200 (JsonBody b)) \<and> promised (''task-'' @ gw_uuid G (wo_env w)) ty payload (length ps) G (w1, ps)"
proof -
  let ?i = "''task-'' @ gw_uuid G (wo_env w)"
  have ok: "calm_gateway G" "tasks_ok (wo_db w)" using assms(1) by (simp_all add: known_def)
  then have calm: "ce_conn (gw_calls G (wo_env w) 0) = LcOk" by (simp add: calm_gateway_def)
  let ?t = "\<lparr>tk_id = ?i, tk_type = ty, tk_payload = payload, tk_status = ''pending'', tk_result = None,
    tk_created_at = ce_now (gw_calls G (wo_env w) 0), tk_completed_at = None\<rparr>"
  have "(\<exists>b. rp = respond 200 (JsonBody b)) \<and> lg_tasks (wo_db w1) = lg_tasks (wo_db w) @ [?t]"
    using assms(2,3) calm by (auto simp: create_task_handler_def Let_def on_db_def create_task_def locked_def)
  then obtain t where c: "\<exists>b. rp = respond 200 (JsonBody b)" "lg_tasks (wo_db w1) = lg_tasks (wo_db w) @ [t]"
      "tk_id t = ?i" "tk_type t = ty" "tk_payload t = payload" "tk_status t = ''pending''"
    by (intro that [of ?t]) simp_all
  have "tasks_ok (wo_db w1)" using ok(2) assms(2) c(2,3) by (simp add: tasks_ok_def)
  moreover have "task_row ?i (wo_db w1) = Some t"
    by (rule task_rowI [OF calculation]) (use c(2,3) in simp_all)
  moreover have "\<not> works_on ?i (pu_phase (ps ! k))" if "k < length ps" for k
    using assms(1,2) nth_mem [OF that] works_on_named unfolding known_def by fastforce
  then have "standing ?i (length ps) ps t" using c(6) by (simp add: standing_def)
  ultimately show ?thesis using c ok(1) by (simp add: promised_def)
qed

text \<open>
  C6: A task that was posted is run. A gateway whose database answers has served whatever requests and started whatever
  pulses; now a task is accepted on the tasks route under an identifier that is new. Then after whatever requests,
  messages, pulses, single steps of any pulses under way and changes of the outside follow, the task is in the queue
  with the type and payload of the request, and either it waits, and no pulse started since the request is over; or
  exactly one of the pulses under way works on it, and completes it when it is given two more steps; or it is
  completed with a result. A tick asked for then and served without interruption is answered with a receipt, leaves no
  task pending, and leaves this one completed or with the one pulse that already worked on it. Nothing here makes a
  pulse move: one that hangs or was dropped with its request keeps its task running.
\<close>

theorem posted_task_is_run:
  assumes "calm_gateway G" "tasks_ok (wo_db w0)" "(live_step G)\<^sup>*\<^sup>* (w0, []) (w, ps)"
    "''task-'' @ gw_uuid G (wo_env w) \<notin> tk_id ` set (lg_tasks (wo_db w))"
    and post: "authorized G Post ''/api/v1/tasks'' req" "rq_payload req = Inr j" "decode_task_request j = Some (ty, payload)"
      "serve_request G req w = (created, w1)"
    and since: "(live_step G)\<^sup>*\<^sup>* (w1, ps) (w2, ps2)"
    and tick: "authorized G Post ''/api/v1/heartbeat/tick'' tick" "serve_request G tick w2 = (ticked, w3)"
  defines "i \<equiv> ''task-'' @ gw_uuid G (wo_env w)"
  shows "(\<exists>b. created = respond 200 (JsonBody b)) \<and>
    (\<exists>t. task_row i (wo_db w2) = Some t \<and> tk_type t = ty \<and> tk_payload t = payload \<and>
       (tk_status t = ''pending'' \<and> (\<forall>k<length ps2. length ps \<le> k \<longrightarrow> \<not> pulse_over (pu_phase (ps2 ! k))) \<or>
        tk_status t = ''running'' \<and> (\<exists>!k. k < length ps2 \<and> works_on i (pu_phase (ps2 ! k))) \<or>
        tk_status t = ''completed'' \<and> tk_result t \<noteq> None)) \<and>
    (\<forall>k<length ps2. works_on i (pu_phase (ps2 ! k)) \<longrightarrow>
       (\<exists>t. task_row i (wo_db (snd (pulse_go G 2 (ps2 ! k) w2))) = Some t \<and> tk_status t = ''completed'' \<and> tk_result t \<noteq> None)) \<and>
    (\<exists>rc. ticked = respond 200 (ReceiptBody rc)) \<and> (\<forall>t\<in>set (lg_tasks (wo_db w3)). tk_status t \<noteq> ''pending'') \<and>
    (\<exists>t. task_row i (wo_db w3) = Some t \<and> tk_type t = ty \<and> tk_payload t = payload \<and>
       (tk_status t = ''completed'' \<and> tk_result t \<noteq> None \<or>
        tk_status t = ''running'' \<and> (\<exists>!k. k < length ps2 \<and> works_on i (pu_phase (ps2 ! k)))))"
proof -
  have "known G (w0, [])" using assms(1,2) by (simp add: known_def)
  then have k: "known G (w, ps)" by (rule known_run [OF assms(3)])
  have at: "serve_request G req w = create_task_handler G (ty, payload) w"
    using post(1-3) by (simp add: authorized_dispatch)
      (simp add: authorized_def dispatch_request_def routes_def serve_endpoint_def with_json_def split: prod.splits)
  from post_promises [OF k assms(4) post(4) [unfolded at]] have created: "\<exists>b. created = respond 200 (JsonBody b)"
    and "promised i ty payload (length ps) G (w1, ps)" by (simp_all add: i_def)
  then have p: "promised i ty payload (length ps) G (w2, ps2)" using promised_run [OF since] by blast
  then have now: "\<exists>t. task_row i (wo_db w2) = Some t \<and> tk_type t = ty \<and> tk_payload t = payload \<and> standing i (length ps) ps2 t"
    by (simp add: promised_def)
  have over: "\<not> pulse_over ph" if "still_comes i ph" for ph using that by (cases ph) simp_all
  have moves: "\<exists>t. task_row i (wo_db (snd (pulse_go G 2 (ps2 ! k) w2))) = Some t \<and> tk_status t = ''completed'' \<and> tk_result t \<noteq> None"
    if "k < length ps2" "works_on i (pu_phase (ps2 ! k))" for k
    using two_moves [OF p that] by metis
  obtain rc u t where u: "gw_pulse_once G w2 = (Some rc, u)" "\<forall>t\<in>set (lg_tasks (wo_db u)). tk_status t \<noteq> ''pending''"
    "task_row i (wo_db u) = Some t" "tk_type t = ty" "tk_payload t = payload" "standing i (length ps) ps2 t" "tk_status t \<noteq> ''pending''"
    using drained_row [OF p] by metis
  have "serve_request G tick w2 = trigger_heartbeat_handler G w2"
    using tick(1) by (simp add: authorized_dispatch)
      (simp add: authorized_def dispatch_request_def routes_def serve_endpoint_def split: prod.splits)
  then have "ticked = respond 200 (ReceiptBody rc)" "w3 = u"
    using tick(2) u(1) by (simp_all add: trigger_heartbeat_handler_def)
  then show ?thesis using created now over moves u(2-7) unfolding standing_def by blast
qed

definition token_request :: "string \<Rightarrow> json \<Rightarrow> http_request" where
  "token_request path j = \<lparr>rq_method = Post, rq_path = path,
     rq_header = (\<lambda>h. if h = ''authorization'' then Some (''Bearer '' @ sample_token) else None),
     rq_payload = Inr j, rq_upgrade = None\<rparr>"

definition telemetry_json :: json where
  "telemetry_json = json_object [(''task_type'', JString ''system_telemetry''), (''payload'', JString [])]"

lemma demo_calm: "calm_gateway demo_gateway"
  by (simp add: calm_gateway_def demo_gateway_def demo_env_def demo_legacy_def)

lemma token_request_authorized: "authorized demo_gateway Post path (token_request path j)"
proof -
  have "presented_token (request.truncate (token_request path j)) = Some sample_token"
    by code_simp
  then show ?thesis by (simp add: authorized_def token_request_def demo_gateway_def)
qed

text \<open>A task posted, a pulse started and moved on by two steps, so that it has claimed the task, and the tick.\<close>

abbreviation demo_posted :: "unit world" where
  "demo_posted \<equiv> snd (serve_request demo_gateway (token_request ''/api/v1/tasks'' telemetry_json) demo_world)"

abbreviation demo_begun :: "unit world" where
  "demo_begun \<equiv> demo_posted\<lparr>wo_ticks := wo_ticks demo_posted + 1\<rparr>"

abbreviation demo_listed :: "pulse \<times> unit world" where
  "demo_listed \<equiv> pulse_advance demo_gateway 0 (pulse_start (wo_ticks demo_posted + 1) (gw_now_text demo_gateway (wo_env demo_posted))) demo_begun"

abbreviation demo_claimed :: "pulse \<times> unit world" where
  "demo_claimed \<equiv> pulse_advance demo_gateway 0 (fst demo_listed) (snd demo_listed)"

abbreviation demo_ticked :: "reply \<times> unit world" where
  "demo_ticked \<equiv> serve_request demo_gateway (token_request ''/api/v1/heartbeat/tick'' JNull) (snd demo_claimed)"

theorem posted_task_is_run_witness:
  "(\<exists>t. task_row ''task-u'' (wo_db (snd demo_ticked)) = Some t \<and> tk_type t = ''system_telemetry'' \<and> tk_payload t = [] \<and>
     tk_status t \<in> {''completed'', ''running''}) \<and>
   (\<exists>t. task_row ''task-u'' (wo_db (snd (pulse_go demo_gateway 2 (fst demo_claimed) (snd demo_claimed)))) = Some t \<and>
     tk_status t = ''completed'' \<and> tk_result t \<noteq> None)"
proof -
  let ?s = "pulse_start (wo_ticks demo_posted + 1) (gw_now_text demo_gateway (wo_env demo_posted))"
  have "live_step demo_gateway (demo_posted, []) (demo_begun, [?s])" using lv_start [of demo_gateway demo_posted "[]"] by simp
  moreover have "live_step demo_gateway (demo_begun, [?s]) (snd demo_listed, [fst demo_listed])"
    using lv_advance [of 0 "[?s]" demo_gateway 0 demo_begun, OF _ prod.collapse [symmetric]] by simp
  moreover have "live_step demo_gateway (snd demo_listed, [fst demo_listed]) (snd demo_claimed, [fst demo_claimed])"
    using lv_advance [of 0 "[fst demo_listed]" demo_gateway 0 "snd demo_listed", OF _ prod.collapse [symmetric]] by simp
  ultimately have run: "(live_step demo_gateway)\<^sup>*\<^sup>* (demo_posted, []) (snd demo_claimed, [fst demo_claimed])" by simp
  have ok: "tasks_ok (wo_db demo_world)" and fresh: "''task-'' @ gw_uuid demo_gateway (wo_env demo_world) \<notin> tk_id ` set (lg_tasks (wo_db demo_world))"
    by (simp_all add: demo_world_def open_legacy_def tasks_ok_def)
  have dec: "decode_task_request telemetry_json = Some (''system_telemetry'', [])" by code_simp
  have load: "rq_payload (token_request p j) = Inr j" for p j by (simp add: token_request_def)
  have u: "''task-'' @ gw_uuid demo_gateway (wo_env demo_world) = ''task-u''" by (simp add: demo_gateway_def)
  note run_it = posted_task_is_run [OF demo_calm ok rtranclp.rtrancl_refl fresh token_request_authorized load dec prod.collapse [symmetric] run
      token_request_authorized prod.collapse [symmetric], unfolded u]
  from run_it have "\<forall>k<length [fst demo_claimed]. works_on ''task-u'' (pu_phase ([fst demo_claimed] ! k)) \<longrightarrow>
      (\<exists>t. task_row ''task-u'' (wo_db (snd (pulse_go demo_gateway 2 ([fst demo_claimed] ! k) (snd demo_claimed)))) = Some t \<and>
         tk_status t = ''completed'' \<and> tk_result t \<noteq> None)" by blast
  moreover from run_it have "\<exists>t. task_row ''task-u'' (wo_db (snd demo_ticked)) = Some t \<and> tk_type t = ''system_telemetry'' \<and>
      tk_payload t = [] \<and> tk_status t \<in> {''completed'', ''running''}" by blast
  moreover have "works_on ''task-u'' (pu_phase (fst demo_claimed))" by code_simp
  ultimately show ?thesis by fastforce
qed

end
