(* ===== verification/Restart.thy ===== *)
theory Restart
  imports StoreProps Skills Heartbeat
begin

text \<open>
  Opening a database (\<open>persistence/async_db.rs\<close>, \<open>persistence/legacy.rs\<close>, the statements of \<open>sqlite/schema.rs\<close>) and the
  lives of the runtime: a process ends at any moment and another one opens the same file. What was committed is in the
  file, the pulses and the counter of ticks are gone.
\<close>

section \<open>The file\<close>

text \<open>
  Two tables are created that no statement of the program uses.
\<close>

record audit_event_row =
  au_id :: string
  au_sequence :: i64
  au_session :: "string option"
  au_run :: "string option"
  au_event_type :: string
  au_payload_json :: string
  au_prev_hash :: string
  au_hash :: string
  au_created_at :: i64

record stored_skill_row =
  tb_name :: string
  tb_description :: string
  tb_command :: string
  tb_updated_at :: string

text \<open>
  The tables of a file that is opened, a table that was never created being \<open>None\<close>, and the last identifier given to
  a turn.
\<close>

record db_file =
  fi_sessions :: "session_row list option"
  fi_messages :: "message_row list option"
  fi_runs :: "run_row list option"
  fi_actions :: "action_row list option"
  fi_approvals :: "approval_row list option"
  fi_audit_events :: "audit_event_row list option"
  fi_turns :: "i64 turn_record list option"
  fi_turn_seq :: i64
  fi_heartbeats :: "heartbeat_row list option"
  fi_tasks :: "task_record list option"
  fi_crumbs :: "crumb_record list option"
  fi_skills :: "stored_skill_row list option"

definition empty_file :: db_file where
  "empty_file = \<lparr>fi_sessions = None, fi_messages = None, fi_runs = None, fi_actions = None, fi_approvals = None,
     fi_audit_events = None, fi_turns = None, fi_turn_seq = 0, fi_heartbeats = None, fi_tasks = None, fi_crumbs = None,
     fi_skills = None\<rparr>"

text \<open>A connection: the tables of the stores, those of the synchronous database, and the unused ones.\<close>

record connection =
  cn_stores :: db
  cn_legacy :: legacy_db
  cn_audit_events :: "audit_event_row list"
  cn_skills :: "stored_skill_row list"

text \<open>\<open>CREATE TABLE IF NOT EXISTS\<close>\<close>

definition create_if_missing :: "'r list option \<Rightarrow> 'r list" where
  "create_if_missing t = (case t of None \<Rightarrow> [] | Some rows \<Rightarrow> rows)"

text \<open>
  \<open>initialize_schema\<close>. The outcome of the pragma is ignored; \<open>foreign_keys\<close> says whether it took. \<open>lines\<close> is what the
  transcript beside the file holds, \<open>None\<close> for a database in memory.
\<close>

definition schema_over :: "bool \<Rightarrow> (string \<times> string \<times> json) list option \<Rightarrow> db_file \<Rightarrow> connection" where
  "schema_over foreign_keys lines F =
     \<lparr>cn_stores = \<lparr>db_foreign_keys = foreign_keys, db_sessions = create_if_missing (fi_sessions F),
        db_messages = create_if_missing (fi_messages F), db_runs = create_if_missing (fi_runs F),
        db_actions = create_if_missing (fi_actions F), db_approvals = create_if_missing (fi_approvals F)\<rparr>,
      cn_legacy = \<lparr>lg_turns = create_if_missing (fi_turns F), lg_turn_seq = fi_turn_seq F,
        lg_heartbeats = create_if_missing (fi_heartbeats F), lg_tasks = create_if_missing (fi_tasks F),
        lg_crumbs = create_if_missing (fi_crumbs F), lg_transcript = lines\<rparr>,
      cn_audit_events = create_if_missing (fi_audit_events F), cn_skills = create_if_missing (fi_skills F)\<rparr>"

section \<open>Opening it\<close>

text \<open>
  The surroundings: what connecting to a path gives (SQLite's error, or the file's tables), connecting in memory, the
  outcome of the statements that create the tables, the pragma, and the transcripts.
\<close>

record opener =
  op_connect :: "string \<Rightarrow> string + db_file"
  op_memory :: "string + unit"
  op_schema :: "string + unit"
  op_foreign_keys :: bool
  op_transcript :: "string \<Rightarrow> (string \<times> string \<times> json) list"

text \<open>
  \<open>Database\<close> and \<open>AsyncDatabase\<close> have the same fields: a shared connection, here its index among the connections of the
  process, and the path of the transcript.
\<close>

record handle =
  ha_conn :: nat
  ha_transcript_path :: "string option"

type_synonym 'e opened = "connection list \<Rightarrow> ('e + handle) \<times> connection list"

definition transcript_beside :: "string \<Rightarrow> string option" where
  "transcript_beside path = map_option (\<lambda>p. path_push p ''transcript.jsonl'') (path_parent path)"

definition open_tables :: "opener \<Rightarrow> string option \<Rightarrow> (string + db_file) \<Rightarrow> string opened" where
  "open_tables B transcript found conns =
     (case try_bind found (\<lambda>F. map_sum id (\<lambda>_. schema_over (op_foreign_keys B) (map_option (op_transcript B) transcript) F)
             (op_schema B)) of
        Inl e \<Rightarrow> (Inl e, conns)
      | Inr c \<Rightarrow> (Inr \<lparr>ha_conn = length conns, ha_transcript_path = transcript\<rparr>, conns @ [c]))"

text \<open>\<open>Database::open\<close>; the lock that \<open>init_tables\<close> takes is fresh, so it is not poisoned.\<close>

definition database_open :: "opener \<Rightarrow> string \<Rightarrow> string opened" where
  "database_open B path = open_tables B (transcript_beside path) (op_connect B path)"

definition database_open_in_memory :: "opener \<Rightarrow> string opened" where
  "database_open_in_memory B = open_tables B None (map_sum id (\<lambda>_. empty_file) (op_memory B))"

definition async_open :: "opener \<Rightarrow> string \<Rightarrow> persistence_error opened" where
  "async_open B path conns = (case open_tables B (transcript_beside path) (op_connect B path) conns of
     (r, conns') \<Rightarrow> (map_err PeSqlite r, conns'))"

definition async_open_in_memory :: "opener \<Rightarrow> persistence_error opened" where
  "async_open_in_memory B conns = (case open_tables B None (map_sum id (\<lambda>_. empty_file) (op_memory B)) conns of
     (r, conns') \<Rightarrow> (map_err PeSqlite r, conns'))"

definition from_connection_arc :: "nat \<Rightarrow> string option \<Rightarrow> handle" where
  "from_connection_arc conn transcript = \<lparr>ha_conn = conn, ha_transcript_path = transcript\<rparr>"

definition to_async :: "handle \<Rightarrow> handle" where
  "to_async h = from_connection_arc (ha_conn h) (ha_transcript_path h)"

text \<open>A handle made from another reaches the same connection and transcript.\<close>

lemma to_async_same: "to_async h = h"
  by (simp add: to_async_def from_connection_arc_def)

section \<open>Opening it again\<close>

text \<open>What a file holds of a connection to it: every table exists, with the rows that were committed.\<close>

definition file_of :: "connection \<Rightarrow> db_file" where
  "file_of c = \<lparr>fi_sessions = Some (db_sessions (cn_stores c)), fi_messages = Some (db_messages (cn_stores c)),
     fi_runs = Some (db_runs (cn_stores c)), fi_actions = Some (db_actions (cn_stores c)),
     fi_approvals = Some (db_approvals (cn_stores c)), fi_audit_events = Some (cn_audit_events c), fi_turns = Some (lg_turns (cn_legacy c)),
     fi_turn_seq = lg_turn_seq (cn_legacy c), fi_heartbeats = Some (lg_heartbeats (cn_legacy c)),
     fi_tasks = Some (lg_tasks (cn_legacy c)), fi_crumbs = Some (lg_crumbs (cn_legacy c)), fi_skills = Some (cn_skills c)\<rparr>"

lemma schema_over_file:
  "schema_over fk lines (file_of c) = c\<lparr>cn_stores := (cn_stores c)\<lparr>db_foreign_keys := fk\<rparr>,
     cn_legacy := (cn_legacy c)\<lparr>lg_transcript := lines\<rparr>\<rparr>"
  by (simp add: schema_over_def file_of_def create_if_missing_def)

lemma schema_over_empty:
  "schema_over True lines empty_file = \<lparr>cn_stores = initialize_schema, cn_legacy = (open_legacy True)\<lparr>lg_transcript := lines\<rparr>,
     cn_audit_events = [], cn_skills = []\<rparr>"
  by (simp add: schema_over_def empty_file_def create_if_missing_def initialize_schema_def open_legacy_def)

lemma open_keeps_rows:
  assumes "database_open B path conns = (Inr h, conns')" "op_connect B path = Inr (file_of c)"
  obtains c' where "conns' = conns @ [c']" "ha_conn h = length conns"
    "cn_stores c' = (cn_stores c)\<lparr>db_foreign_keys := op_foreign_keys B\<rparr>"
    "cn_legacy c' = (cn_legacy c)\<lparr>lg_transcript := map_option (op_transcript B) (transcript_beside path)\<rparr>"
proof (rule that)
  let ?c = "c\<lparr>cn_stores := (cn_stores c)\<lparr>db_foreign_keys := op_foreign_keys B\<rparr>,
     cn_legacy := (cn_legacy c)\<lparr>lg_transcript := map_option (op_transcript B) (transcript_beside path)\<rparr>\<rparr>"
  show "conns' = conns @ [?c]" "ha_conn h = length conns"
    using assms by (cases "op_schema B"; auto simp: database_open_def open_tables_def schema_over_file)+
qed simp_all

section \<open>The lives of the runtime\<close>

text \<open>The tables of the stores, and the heart over those of the synchronous database, in one file.\<close>

record runtime =
  rt_stores :: db
  rt_heart :: heart

text \<open>
  The process ends and the next one opens the file, which holds what was committed: no pulse is left and the counter
  starts over; the two ghost fields go on. The pragma takes, SQLite being built with foreign keys.
\<close>

definition restarted :: "connection \<Rightarrow> runtime \<Rightarrow> runtime" where
  "restarted c s = \<lparr>rt_stores = cn_stores c, rt_heart = (new_heart (cn_legacy c))
     \<lparr>ht_ran := ht_ran (rt_heart s), ht_launched := ht_launched (rt_heart s)\<rparr>\<rparr>"

definition committed :: "runtime \<Rightarrow> connection" where
  "committed s = \<lparr>cn_stores = rt_stores s, cn_legacy = ht_db (rt_heart s), cn_audit_events = [], cn_skills = []\<rparr>"

definition restart :: "string \<Rightarrow> runtime \<Rightarrow> runtime \<Rightarrow> bool" where
  "restart path s s' \<longleftrightarrow> (\<exists>B h c. op_connect B path = Inr (file_of (committed s)) \<and>
     op_foreign_keys B \<and> database_open B path [] = (Inr h, [c]) \<and> s' = restarted c s)"

inductive life_step :: "string \<Rightarrow> store_libs \<Rightarrow> 'w host \<Rightarrow> legacy_libs \<Rightarrow> runtime \<Rightarrow> runtime \<Rightarrow> bool"
  for path :: string and S :: store_libs and H :: "'w host" and L :: legacy_libs where
  lf_store: "store_step S (rt_stores s) d \<Longrightarrow> life_step path S H L s (s\<lparr>rt_stores := d\<rparr>)"
| lf_heart: "heart_step H L (rt_heart s) h \<Longrightarrow> life_step path S H L s (s\<lparr>rt_heart := h\<rparr>)"
| lf_restart: "restart path s s' \<Longrightarrow> life_step path S H L s s'"

inductive_cases life_stepE: "life_step path S H L s s'"

definition first_life :: "legacy_db \<Rightarrow> runtime" where
  "first_life d = \<lparr>rt_stores = initialize_schema, rt_heart = new_heart d\<rparr>"

lemma restart_fields:
  assumes "restart path s s'"
  shows "rt_stores s' = (rt_stores s)\<lparr>db_foreign_keys := True\<rparr>" "ht_pulses (rt_heart s') = []" "ht_ticks (rt_heart s') = 0"
    "lg_tasks (ht_db (rt_heart s')) = lg_tasks (ht_db (rt_heart s))" "ht_ran (rt_heart s') = ht_ran (rt_heart s)"
  using assms by (auto simp: restart_def restarted_def committed_def new_heart_def elim!: open_keeps_rows)

definition life_inv :: "store_libs \<Rightarrow> runtime \<Rightarrow> bool" where
  "life_inv S s \<longleftrightarrow> db_ok S (rt_stores s) \<and> heart_inv (rt_heart s)"

lemma restart_inv:
  assumes "restart path s s'" "life_inv S s"
  shows "life_inv S s'"
proof -
  note f = restart_fields [OF assms(1)]
  have "db_foreign_keys (rt_stores s)" using assms(2) by (simp add: life_inv_def db_ok_def)
  then have "rt_stores s' = rt_stores s" unfolding f(1) by (cases "rt_stores s") simp
  then have "db_ok S (rt_stores s')" using assms(2) by (simp add: life_inv_def)
  moreover have "heart_inv (rt_heart s')"
    using assms(2) by (simp add: life_inv_def heart_inv_def f(2,4,5) tasks_ok_def taken_def)
  ultimately show ?thesis by (simp add: life_inv_def)
qed

interpretation lives: invariant_system "\<lambda>s. \<exists>d. codecs_ok S \<and> tasks_ok d \<and> s = first_life d" "life_step path S H L" "life_inv S"
  for path :: string and S :: store_libs and H :: "'w host" and L :: legacy_libs
proof unfold_locales
  fix s
  assume "\<exists>d. codecs_ok S \<and> tasks_ok d \<and> s = first_life d"
  then obtain d where d: "codecs_ok S" "tasks_ok d" "s = first_life d" by blast
  have "heart_inv (new_heart d)" using heart.start_inv [of "new_heart d"] d(2) by blast
  with d stores.start_inv [of S] show "life_inv S s" by (simp add: life_inv_def first_life_def)
next
  fix s t
  assume st: "life_step path S H L s t" and s: "life_inv S s"
  from st show "life_inv S t"
  proof (cases rule: life_step.cases)
    case (lf_store d)
    with s stores.step_inv [of S "rt_stores s" d] show ?thesis by (simp add: life_inv_def)
  next
    case (lf_heart h)
    with s heart.step_inv [of H L "rt_heart s" h] show ?thesis by (simp add: life_inv_def)
  next
    case lf_restart
    then show ?thesis using s by (rule restart_inv)
  qed
qed

section \<open>What a life that ended was doing\<close>

text \<open>A claimed task that no pulse is at work on.\<close>

definition stranded :: "task_record \<Rightarrow> heart \<Rightarrow> bool" where
  "stranded t h \<longleftrightarrow> tasks_ok (ht_db h) \<and> t \<in> set (lg_tasks (ht_db h)) \<and> tk_status t = ''running'' \<and>
     (\<forall>p\<in>set (ht_pulses h). \<not> works_on (tk_id t) (pu_phase p))"

lemma complete_others:
  assumes "complete_task E i res d = (r, d')" "t \<in> set (lg_tasks d)" "tk_id t \<noteq> i"
  shows "t \<in> set (lg_tasks d')"
  using assms unfolding complete_task_def by (elim locked_cases) (auto simp: sql_update_def image_iff)

lemma claim_others:
  assumes "claim_task E i d = (r, d')" "t \<in> set (lg_tasks d)" "tk_status t \<noteq> ''pending''"
  shows "t \<in> set (lg_tasks d')"
  using assms unfolding claim_task_def by (elim locked_cases) (auto simp: sql_update_def image_iff)

lemma claimed_not_again:
  assumes "claim_task E i d = (Returned (Inr True), d')" "t \<in> set (lg_tasks d)" "tk_status t = ''running''" "tasks_ok d"
  shows "tk_id t \<noteq> i"
proof
  assume i: "tk_id t = i"
  have "x = t" if "x \<in> set (lg_tasks d)" "tk_id x = i" for x
    using tasks_ok_key [OF assms(4) that(1) assms(2)] that(2) i by simp
  then have "taken d i" using assms(2,3) i unfolding taken_def by force
  with claim_outcome(2) [OF assms(1,4)] show False by simp
qed

lemma pulse_stranded:
  assumes st: "pulse_step H L E p d = ((p', launched), d')" and t: "t \<in> set (lg_tasks d)" "tk_status t = ''running''" "tasks_ok d"
    and free: "\<not> works_on (tk_id t) (pu_phase p)"
  shows "t \<in> set (lg_tasks d') \<and> \<not> works_on (tk_id t) (pu_phase p')"
proof (cases "pu_phase p")
  case Listing
  with st t show ?thesis unfolding pulse_step_def
    by (auto split: prod.splits called.splits sum.splits dest: list_pending_same)
next
  case (Claiming ts)
  show ?thesis
  proof (cases ts)
    case Nil
    with Claiming st t show ?thesis unfolding pulse_step_def
      by (auto split: prod.splits called.splits dest: tick_tasks)
  next
    case (Cons x xs)
    obtain r where r: "claim_task E (tk_id x) d = (r, d')"
      and p': "p' = (case r of LockPanic \<Rightarrow> p\<lparr>pu_phase := Crashed\<rparr>
        | Returned (Inr True) \<Rightarrow> p\<lparr>pu_phase := Working x xs\<rparr> | _ \<Rightarrow> p\<lparr>pu_phase := Claiming xs\<rparr>)"
      using st unfolding pulse_step_def Claiming Cons
      by (auto split: prod.splits called.splits sum.splits bool.splits)
    have "t \<in> set (lg_tasks d')" using claim_others [OF r t(1)] t(2) by simp
    moreover have "r = Returned (Inr True) \<Longrightarrow> tk_id t \<noteq> tk_id x" using claimed_not_again [of E "tk_id x" d d' t] r t by blast
    ultimately show ?thesis unfolding p' by (auto split: called.splits sum.splits bool.splits)
  qed
next
  case (Working x xs)
  with st t free show ?thesis unfolding pulse_step_def
    by (auto split: prod.splits option.splits dest: run_task_tasks)
next
  case (Completing x res xs)
  with st t free show ?thesis unfolding pulse_step_def
    by (auto split: prod.splits called.splits dest: complete_others)
qed (use st t free in \<open>auto simp: pulse_step_def\<close>)

lemma heart_stranded:
  assumes "heart_step H L h h'" "stranded t h"
  shows "stranded t h'"
  using assms(1)
proof (cases rule: heart_step.cases)
  case (hs_start now)
  with assms(2) show ?thesis by (auto simp: stranded_def pulse_start_def)
next
  case (hs_pulse i env world shell healthy E p launched d)
  have t: "t \<in> set (lg_tasks (ht_db h))" "tk_status t = ''running''" "tasks_ok (ht_db h)"
    "\<not> works_on (tk_id t) (pu_phase (ht_pulses h ! i))"
    using assms(2) hs_pulse(2) by (simp_all add: stranded_def)
  have "tasks_ok d" using pulse_grow [OF hs_pulse(3)] t(3) by (simp add: tasks_grow_def)
  with pulse_stranded [OF hs_pulse(3) t] hs_pulse(1) assms(2) show ?thesis
    by (auto simp: stranded_def dest!: set_mp [OF set_update_subset_insert])
next
  case (hs_create E k ty payload r d)
  with assms(2) create_grow [OF hs_create(2)] create_adds [OF hs_create(2)] show ?thesis
    by (auto simp: stranded_def tasks_grow_def)
next
  case (hs_turn E rl prompt response ms r d)
  with assms(2) record_turn_tasks [OF hs_turn(2)] show ?thesis by (simp add: stranded_def tasks_ok_def)
next
  case (hs_crumb E k v ns r d)
  with assms(2) crumb_tasks [OF hs_crumb(2)] show ?thesis by (simp add: stranded_def tasks_ok_def)
qed

lemma restart_stranded: "restart path s s' \<Longrightarrow> stranded t (rt_heart s) \<Longrightarrow> stranded t (rt_heart s')"
  by (simp add: stranded_def restart_fields tasks_ok_def)

lemma life_stranded: "life_step path S H L s s' \<Longrightarrow> stranded t (rt_heart s) \<Longrightarrow> stranded t (rt_heart s')"
  by (elim life_stepE) (auto intro: heart_stranded restart_stranded)

interpretation left_running: invariant_system "\<lambda>s. stranded t (rt_heart s)" "life_step path S H L" "\<lambda>s. stranded t (rt_heart s)"
  for t and path :: string and S :: store_libs and H :: "'w host" and L :: legacy_libs
  by unfold_locales (assumption, rule life_stranded)

text \<open>
  C15: Over any number of lives of the runtime, each ended at any moment and followed by another on the same file, the
  stores stay consistent and no task is run twice: a task that was run is no longer pending in any later life. The
  price is that a task claimed when its process ended stays marked as running for ever, in whatever follows: it is
  neither run again nor completed.
\<close>

theorem tasks_over_restarts:
  assumes "codecs_ok S" "tasks_ok d" "(life_step path S H L)\<^sup>*\<^sup>* (first_life d) s"
  shows "keys_ok (rt_stores s) \<and> refs_ok (rt_stores s) \<and>
    distinct (ht_ran (rt_heart s)) \<and> (\<forall>i\<in>set (ht_ran (rt_heart s)). taken (ht_db (rt_heart s)) i) \<and>
    (\<forall>s1 s2. restart path s s1 \<longrightarrow> (life_step path S H L)\<^sup>*\<^sup>* s1 s2 \<longrightarrow>
       (\<forall>t\<in>set (lg_tasks (ht_db (rt_heart s))). tk_status t = ''running'' \<longrightarrow> t \<in> set (lg_tasks (ht_db (rt_heart s2)))))"
proof -
  have inv: "life_inv S s" using lives.reached_inv [OF _ assms(3)] assms(1,2) by blast
  have "t \<in> set (lg_tasks (ht_db (rt_heart s2)))"
    if r: "restart path s s1" and run: "(life_step path S H L)\<^sup>*\<^sup>* s1 s2"
      and t: "t \<in> set (lg_tasks (ht_db (rt_heart s)))" "tk_status t = ''running''" for s1 s2 t
  proof -
    have "stranded t (rt_heart s1)"
      using t inv by (simp add: stranded_def restart_fields [OF r] life_inv_def heart_inv_def tasks_ok_def)
    from left_running.reached_inv [OF this run] show ?thesis by (simp add: stranded_def)
  qed
  with inv show ?thesis by (auto simp: life_inv_def db_ok_def heart_inv_def)
qed

text \<open>The process ends while the first pulse of \<open>demo_done\<close> has run its task and not yet completed it.\<close>

lemma restart_possible: "\<exists>s'. restart path s s'"
proof -
  let ?c = "committed s"
  let ?B = "\<lparr>op_connect = (\<lambda>_. Inr (file_of ?c)), op_memory = Inr (), op_schema = Inr (), op_foreign_keys = True,
     op_transcript = (\<lambda>_. [])\<rparr>"
  have "\<exists>h c. database_open ?B path [] = (Inr h, [c])" by (simp add: database_open_def open_tables_def)
  then show ?thesis unfolding restart_def by (metis opener.select_convs(1,4))
qed

lemma heart_lives:
  assumes "(heart_step H L)\<^sup>*\<^sup>* h h'"
  shows "(life_step path S H L)\<^sup>*\<^sup>* \<lparr>rt_stores = d, rt_heart = h\<rparr> \<lparr>rt_stores = d, rt_heart = h'\<rparr>"
  using assms
proof (induction rule: rtranclp_induct)
  case (step y z)
  from lf_heart [of H L "\<lparr>rt_stores = d, rt_heart = y\<rparr>" z path S] step.hyps(2)
  have "life_step path S H L \<lparr>rt_stores = d, rt_heart = y\<rparr> \<lparr>rt_stores = d, rt_heart = z\<rparr>" by simp
  with step.IH show ?case by (rule rtranclp.rtrancl_into_rtrancl)
qed simp

theorem tasks_over_restarts_witness:
  "\<exists>s. restart ''aegis.sqlite'' \<lparr>rt_stores = initialize_schema, rt_heart = demo_done\<rparr> s \<and>
     (demo_task ''t1'' ''shell_exec'' ''ls'')\<lparr>tk_status := ''running''\<rparr> \<in> set (lg_tasks (ht_db (rt_heart s)))"
proof -
  let ?s = "\<lparr>rt_stores = initialize_schema, rt_heart = demo_done\<rparr>" and ?t = "(demo_task ''t1'' ''shell_exec'' ''ls'')\<lparr>tk_status := ''running''\<rparr>"
  have "(life_step ''aegis.sqlite'' demo_libs demo_host demo_legacy)\<^sup>*\<^sup>* (first_life demo_ls) ?s"
    unfolding first_life_def by (rule heart_lives [OF demo_done_steps])
  note w = tasks_over_restarts [OF demo_libs_ok(1) demo_ls_ok this]
  obtain s1 where s1: "restart ''aegis.sqlite'' ?s s1" using restart_possible by blast
  have "?t \<in> set (lg_tasks (ht_db (rt_heart ?s)))"
    by (simp add: demo_done_def advance_def demo_busy_eval pulse_step_def demo_pulse)
      (simp add: demo_busy_def advance_eval demo_task_def)
  with w s1 have "?t \<in> set (lg_tasks (ht_db (rt_heart s1)))" by simp
  with s1 show ?thesis by blast
qed

text \<open>
  The counter of ticks starts over with every life and the heartbeats are keyed by it, so the first receipt of a life
  replaces the first receipt of the one before.
\<close>

lemma heartbeat_history_overwritten:
  assumes "restart path s s'" "record_heartbeat_tick E r (ht_db (rt_heart s')) = (Returned (Inr ()), d)"
    "pc_tick r = ht_ticks (rt_heart s') + 1"
  shows "\<exists>row. hr_timestamp row = pc_timestamp r \<and> filter (\<lambda>x. hr_tick x = 1) (lg_heartbeats d) = [row]"
  using assms(2)
proof (cases "ce_conn E")
  case LcOk
  with assms(2,3) restart_fields(3) [OF assms(1)] show ?thesis
    by (auto simp: record_heartbeat_tick_def replace_row_def)
qed (auto simp: record_heartbeat_tick_def locked_def)

end
