(* ===== verification/Conformance.thy ===== *)
theory Conformance
  imports DagProps Failure Auth Agent Vault Enforcement Inference StoreContracts Heartbeat
begin

text \<open>
  The repository's own tests, replayed on the model. Each lemma names the test function whose inputs and
  assertions it repeats; the definitions are evaluated on them by the simplifier. Where a test uses something
  outside the source (an address parser, a JSON reader), the lemma takes a function that answers as the test expects
  of it. The lemmas are checks of the definitions against the code's expected outputs, beside the proofs.
\<close>

section \<open>\<open>tests/workflow_dag_tests.rs\<close>\<close>

definition build_calls :: "(task_id \<times> task_id list \<times> effect_certainty) list \<Rightarrow>
    (workflow_error + task_node list) option" where
  "build_calls calls = (case add_all [] calls of Inl e \<Rightarrow> Some (Inl e) | Inr ts \<Rightarrow> build ts)"

text \<open>\<open>rejects_cycle\<close>: the three tasks of the ring are named, the fourth is not.\<close>

lemma test_rejects_cycle:
  "(case build_calls [(''A'', [''C''], EcUncertain), (''B'', [''A''], EcUncertain), (''C'', [''B''], EcUncertain),
      (''Z'', [], EcUncertain)] of
      Some (Inl (Cycle c)) \<Rightarrow> length c = 3 \<and> ''Z'' \<notin> set c
    | _ \<Rightarrow> False)"
  by code_simp

text \<open>\<open>rejects_self_dependency\<close>, \<open>rejects_unknown_predecessor\<close>, \<open>rejects_duplicate_task_and_duplicate_edge\<close>.\<close>

lemma test_builder_errors:
  "build_calls [(''A'', [''A''], EcUncertain)] = Some (Inl (SelfDependency ''A''))"
  "build_calls [(''A'', [''ghost''], EcUncertain)] = Some (Inl (UnknownPredecessor ''A'' ''ghost''))"
  "build_calls [(''A'', [], EcUncertain), (''A'', [], EcUncertain)] = Some (Inl (DuplicateTask ''A''))"
  "build_calls [(''A'', [], EcUncertain), (''B'', [''A'', ''A''], EcUncertain)] = Some (Inl (DuplicateEdge ''B'' ''A''))"
  by code_simp+

text \<open>\<open>rejects_zero_parallelism\<close>\<close>

lemma test_rejects_zero_parallelism:
  "\<exists>m. new_executor L now stamp eid (new_workflow_config run sess 0) = Inl (InvalidConfig m)"
  by (simp add: new_executor_def new_workflow_config_def)

text \<open>
  \<open>skip_propagates_transitively\<close>: the task \<open>F\<close> is refused; \<open>X\<close> is skipped because of \<open>F\<close> and \<open>Y\<close> because of
  \<open>X\<close>.
\<close>

definition skip_tasks :: "task_node list" where
  "skip_tasks = (case add_all [] [(''F'', [], EcUncertain), (''X'', [''F''], EcUncertain), (''Y'', [''X''], EcUncertain)] of
       Inr ts \<Rightarrow> ts | Inl _ \<Rightarrow> [])"

definition skip_end :: exec where
  "skip_end = the (follow (demo_executor 2) skip_tasks (replicate 7 (Coord 0) @
     [BodyEnds 0 (Some (FinOutcome (OutFailed (fault_rejected ''no''))))] @ replicate 7 (Coord 0))
     (start_exec skip_tasks False False))"

lemma test_skip_propagates_transitively:
  "state_of (xs_ledger skip_end) ''X'' = TsSkipped ''F''"
  "state_of (xs_ledger skip_end) ''Y'' = TsSkipped ''X''"
  "map_option wr_status (reported_of (xs_pc skip_end)) = Some WsFailed"
  by code_simp+

section \<open>\<open>src/failure.rs\<close>\<close>

text \<open>\<open>eligibility_only_for_no_effect_idempotent_rejected_or_unavailable\<close>: the test's table, for every entry.\<close>

lemma test_eligibility:
  "retry_eligibility c e idem \<lparr>max_attempts = 3\<rparr> = Retryable 3 \<longleftrightarrow> c = FcUnavailable \<and> e = NoEffect \<and> idem"
  by (simp add: retry_eligibility_def MAX_ATTEMPTS_CEILING_def)

text \<open>\<open>default_policy_never_retries_and_ceiling_applies\<close>\<close>

lemma test_default_policy_and_ceiling:
  "retry_eligibility FcUnavailable NoEffect True default_retry_policy = NotRetryable"
  "retry_eligibility FcUnavailable NoEffect True \<lparr>max_attempts = 1000\<rparr> = Retryable MAX_ATTEMPTS_CEILING"
  by (simp_all add: retry_eligibility_def default_retry_policy_def MAX_ATTEMPTS_CEILING_def)

text \<open>\<open>root_cause_follows_parents_and_survives_cycles\<close>\<close>

definition test_record :: "nat \<Rightarrow> string \<Rightarrow> string option \<Rightarrow> failure_record" where
  "test_record sq call parent = new_failure_record sq ''run_1'' 1 call parent ''read_file'' 1 FcFailed NoEffect 0 0"

lemma test_root_cause:
  "map_option fr_tool_call_id (root_cause
     [test_record 1 ''a'' None, test_record 2 ''b'' (Some ''a''), test_record 3 ''c'' (Some ''b'')]
     (test_record 3 ''c'' (Some ''b''))) = Some ''a''"
  "root_cause [test_record 1 ''a'' (Some ''b''), test_record 2 ''b'' (Some ''a'')] (test_record 1 ''a'' (Some ''b'')) \<noteq> None"
  by code_simp+

text \<open>The multi byte part of \<open>cause_chain_is_bounded_and_messages_truncated\<close>: 600 times the two bytes of e-acute.\<close>

lemma test_truncated_on_a_boundary:
  "truncate_bytes (concat (replicate 600 [CHR 0xC3, CHR 0xA9])) 511 = concat (replicate 255 [CHR 0xC3, CHR 0xA9])"
  by code_simp

section \<open>\<open>src/auth.rs\<close>\<close>

text \<open>\<open>token_rules\<close>\<close>

definition test_auth :: operator_auth where
  "test_auth = \<lparr>oa_token = Some sample_token\<rparr>"

lemma test_token_rules:
  "\<not> is_ok (with_token ''short'')"
  "\<not> is_ok (with_token (sample_token @ '' x''))"
  "with_token sample_token = Inr test_auth"
  "verify_token test_auth (Some sample_token)"
  "\<not> verify_token test_auth None"
  "\<not> verify_token test_auth (Some [])"
  "\<not> verify_token test_auth (Some (take 31 sample_token))"
  "\<not> verify_token test_auth (Some (sample_token @ ''0''))"
  "\<not> verify_token auth_disabled (Some sample_token)"
  "\<not> verify_token auth_disabled (Some [])"
  by code_simp+

text \<open>\<open>only_listed_reads_are_public\<close>\<close>

lemma test_only_listed_reads_are_public:
  "is_public Get ''/health''"
  "\<not> is_public (OtherMethod ''POST'') ''/health''"
  "\<not> is_public (OtherMethod ''POST'') ''/api/v1/tasks''"
  "\<not> is_public Get ''/api/v1/tasks''"
  "\<not> is_public Get ''/ws''" "\<not> is_public Get ''/api/v1/ws''"
  "\<not> is_public Get ''/health/''" "\<not> is_public Get ''/HEALTH''"
  "\<not> is_public (OtherMethod ''OPTIONS'') ''/api/v1/shell''"
  by code_simp+

text \<open>\<open>bind_defaults_to_loopback_only\<close>; the addresses of the test are parsed by a table.\<close>

definition test_addr :: "string \<Rightarrow> ip_addr option" where
  "test_addr = map_of [(''127.0.0.1'', V4 127 0 0 1), (''::1'', V6 1), (''0.0.0.0'', V4 0 0 0 0), (''::'', V6 0),
     (''192.168.1.10'', V4 192 168 1 10)]"

definition binds :: "string \<Rightarrow> bool \<Rightarrow> bool" where
  "binds host allow = is_ok (resolve_bind_addr test_addr (\<lambda>_. []) id host 1 allow)"

lemma test_bind_defaults_to_loopback_only:
  "binds ''127.0.0.1'' False" "binds ''::1'' False" "\<not> binds ''0.0.0.0'' False" "\<not> binds ''::'' False"
  "\<not> binds ''192.168.1.10'' False" "\<not> binds ''localhost'' False" "binds ''0.0.0.0'' True"
  by code_simp+

section \<open>\<open>src/security.rs\<close> and \<open>src/enforcement.rs\<close>\<close>

text \<open>\<open>local_catalog_requires_the_whole_command\<close>\<close>

lemma test_local_catalog:
  "list_all (\<lambda>c. is_ok (admit_local_command c)) [''git status'', ''git diff'', ''ls'']"
  "list_all (\<lambda>c. \<not> is_ok (admit_local_command c)) [''git'', ''git push'', ''git status --porcelain'',
     ''curl example.invalid'', ''git status; curl example.invalid'', ''echo $(curl example.invalid)'']"
  by code_simp+

definition checks :: "string \<Rightarrow> json \<Rightarrow> bool" where
  "checks name args = is_ok (pre_dispatch_check id name args)"

definition command_arg :: "json \<Rightarrow> json" where
  "command_arg c = JObject [(''command'', c)]"

text \<open>\<open>destructive_shell_refused\<close> and \<open>catalogued_shell_allowed\<close>\<close>

lemma test_shell_membrane:
  "list_all (\<lambda>c. \<not> checks ''bash_eval'' (command_arg (JString c))) [''rm -rf / --no-preserve-root'', ''rm  -fr /'',
     ''rm -r -f /'', ''find / -delete'', ''shred -u /dev/sda'', ''curl http://example.invalid/x -o /tmp/x'',
     ''perl -e 1'', ''ls /'', ''ls;id'', ''ls -la'']"
  "list_all (\<lambda>c. checks ''bash_eval'' (command_arg (JString c))) [''git status'', ''git diff'',
     ''git log -1 --oneline'', ''ls'']"
  by code_simp+

text \<open>\<open>unknown_or_disguised_skill_names_refused\<close>, \<open>non_string_command_refused\<close>, \<open>rejects_empty_skill_name\<close>\<close>

lemma test_skill_names:
  "list_all (\<lambda>n. \<not> checks n (command_arg (JString ''ls''))) [''exec'', ''shell'', ''Bash_eval'', ''bash_eval '',
     '' bash_eval'', ''bash_eval'' @ [CHR 0x00], ''read_file/../bash'']"
  "checks ''read_file'' (JObject [(''path'', JString ''a'')])"
  "\<not> checks ''bash_eval'' (command_arg (JArray [JString ''ls'']))"
  "\<not> checks ''bash_eval'' (JString ''ls'')"
  "\<not> checks [] (JObject [])"
  by code_simp+

section \<open>\<open>src/vault.rs\<close>\<close>

text \<open>\<open>test_vault_empty_key_resolution\<close>\<close>

lemma test_vault_empty_key:
  "fst (resolve_secret W [] new_vault) = Inl ''Secret key cannot be empty''"
  "fst (resolve_secret W ''   '' new_vault) = Inl ''Secret key cannot be empty''"
proof -
  have "trim [] = []" "trim ''   '' = []" by code_simp+
  then show "fst (resolve_secret W [] new_vault) = Inl ''Secret key cannot be empty''"
    "fst (resolve_secret W ''   '' new_vault) = Inl ''Secret key cannot be empty''"
    by (simp_all add: resolve_secret_def)
qed

text \<open>\<open>test_vault_resolution_and_redaction\<close>: with the fallback on, the variable is read, cached and redacted.\<close>

definition test_vault_world :: vault_world where
  "test_vault_world = \<lparr>vw_atlas_vault = (\<lambda>_. None), vw_env = map_of [(''AIEN_DEV_SECRET_FALLBACK'', ''1''),
     (''TEST_TOKEN_SECRET'', ''super_secret_12345'')]\<rparr>"

lemma test_vault_resolution_and_redaction:
  "(case resolve_secret test_vault_world ''TEST_TOKEN_SECRET'' new_vault of (r, s) \<Rightarrow>
      r = Inr ''super_secret_12345'' \<and> va_cache s ''TEST_TOKEN_SECRET'' = Some ''super_secret_12345'' \<and>
      redact_sensitive_text [''super_secret_12345''] s ''Connecting with bearer super_secret_12345 to endpoint'' =
        ''Connecting with bearer '' @ REDACTED_MARKER @ '' to endpoint'')"
  by code_simp

section \<open>\<open>src/agent.rs\<close> and \<open>src/inference.rs\<close>\<close>

text \<open>\<open>test_agent_token_estimation_and_boundary_pruning\<close>\<close>

definition test_messages :: "json list" where
  "test_messages = [role_message ''system'' ''You are AEGIS.'', role_message ''user'' ''Initial user task.'',
     role_message ''assistant'' ''Executing intermediate action step 1.'',
     role_message ''tool'' ''Output of intermediate step 1 with lots of verbose debugging details here.'',
     role_message ''assistant'' ''Executing intermediate action step 2.'',
     role_message ''tool'' ''Output of intermediate step 2.'']"

lemma test_token_estimation_and_pruning:
  "20 < estimate_tokens one_text_libs test_messages"
  "prune_context_window one_text_libs test_messages 10000 = (False, test_messages)"
  "prune_context_window one_text_libs test_messages 10 = (True, take 2 test_messages)"
  "prune_context_window one_text_libs (take 2 test_messages) 0 = (False, take 2 test_messages)"
  by code_simp+

text \<open>\<open>test_parse_structured_tool_calls_tag\<close> and \<open>test_parse_structured_tool_calls_plain_response\<close>\<close>

definition tag_body :: string where
  "tag_body = ''{\"name\": \"bash_eval\", \"arguments\": {\"command\": \"ls\"}}''"

definition tag_libs :: libs where
  "tag_libs = \<lparr>lib_to_string = (\<lambda>_. Some ''{\"command\":\"ls\"}''),
     lib_from_str = map_of [(tag_body, JObject [(''name'', JString ''bash_eval''),
       (''arguments'', JObject [(''command'', JString ''ls'')])])],
     lib_sha256 = (\<lambda>_. [])\<rparr>"

lemma test_parse_structured_tool_calls:
  "(case parse_structured_tool_calls tag_libs ''1'' (''<tool_call>'' @ tag_body @ ''</tool_call>'') of
      (None, Some [c]) \<Rightarrow> tc_name c = ''bash_eval''
    | _ \<Rightarrow> False)"
  "parse_structured_tool_calls tag_libs ''1'' ''All tasks completed successfully with zero defects.'' =
     (Some ''All tasks completed successfully with zero defects.'', None)"
  by code_simp+

section \<open>\<open>tests/stage3_4_persistence_tests.rs\<close>\<close>

text \<open>\<open>test_legacy_task_claim_is_exclusive\<close>: the calls in order, with what each returns.\<close>

definition claim_script :: "bool called list \<times> task_record list called" where
  "claim_script =
     (let d1 = snd (create_task demo_legacy demo_env ''task_claim'' ''shell_exec'' ''echo once'' (open_legacy True));
          (c1, d2) = claim_task demo_env ''task_claim'' d1;
          (c2, d3) = claim_task demo_env ''task_claim'' d2;
          (c3, d4) = claim_task demo_env ''no_such_task'' d3;
          (pending, d5) = list_pending_tasks demo_legacy demo_env d4;
          d6 = snd (complete_task demo_env ''task_claim'' ''done'' d5);
          (c4, d7) = claim_task demo_env ''task_claim'' d6
      in ([c1, c2, c3, c4], pending))"

lemma test_legacy_task_claim_is_exclusive:
  "claim_script = ([Returned (Inr True), Returned (Inr False), Returned (Inr False), Returned (Inr False)],
     Returned (Inr []))"
  by code_simp

text \<open>\<open>test_sqlite_run_store_single_active_run_constraint\<close>\<close>

lemma test_single_active_run:
  "fst (run_create demo_libs ConnOk (demo_run ''r2'') demo_db) = Inl (PeActiveRunConflict ''s1'' ''r1'')"
  by code_simp

end
