(* ===== verification/Spec2Isabelle.thy ===== *)
theory Spec2Isabelle
  imports Prelude RustStr Json Ids Failure Cancel Events Domain DagBuild DagExec DagLedger DagRun DagProps DagSpec
    Security Enforcement Skills Inference Agent Auth Vault VectorMath Gateway GatewayProps Startup
    Tables Stores StoreFacts StoreProps StoreContracts StoreRefine Legacy Heartbeat PulseDrain HeartLoop TaskRow TaskLife Restart Conformance
begin

text \<open>
  A verification development for the AEGIS runtime, a local service (crate \<open>src/src\<close>) that runs an agent over
  a model, a registry of skills and a workspace, persists sessions and runs in SQLite, and executes graphs of
  dependent tasks.

  How the parts fit. \<open>main.rs\<close> starts the parts. A request or a socket message reaches the gateway (\<open>gateway.rs\<close>),
  which the operator token protects (\<open>auth.rs\<close>). Agent
  tasks (\<open>agent.rs\<close>) alternate calls of a model (\<open>inference.rs\<close>) with tool calls, which go through the probe
  gate and the membrane (\<open>enforcement.rs\<close>, \<open>policy_guard.rs\<close>) to the skills (\<open>skills.rs\<close>); a skill acts on the
  workspace through its capability (\<open>security.rs\<close>). Failed calls leave records (\<open>failure.rs\<close>), which are
  published as events (\<open>src/events\<close>). The workflow executor (\<open>orchestration/workflow.rs\<close>) runs tasks in the
  order of their graph; an agent task is one kind of task. The heartbeat (\<open>heartbeat.rs\<close>) claims and runs queued
  tasks of the synchronous database (\<open>persistence/legacy.rs\<close>); sessions, messages, runs, actions and approvals
  are in the stores (\<open>persistence/sqlite\<close>). Secrets are resolved and redacted by the vault (\<open>vault.rs\<close>).

  The theories, in the order of their imports.

  \<^item> \<open>Prelude\<close>: results as sums with \<open>try_bind\<close> for \<open>?\<close>, the generic lemmas, and the locales
    \<open>invariant_system\<close>, \<open>terminating_system\<close> (a step relation with an invariant, and with a measure) and
    \<open>str_codec\<close> (names of an enumeration). \<open>RustStr\<close>: the string functions of the standard library on UTF-8 bytes:
    a \<open>string\<close> is the list of the bytes of a Rust string. \<open>Json\<close>: \<open>serde_json\<close> values and accessors.
  \<^item> \<open>Ids\<close>, \<open>Events\<close>, \<open>Domain\<close>: identifiers and their canonical forms, the event type with its envelope and
    bus, and the data the stores persist, with its constructors.
  \<^item> \<open>Failure\<close>: the failure vocabulary, \<open>retry_loop\<close> (a recursion that ends because eligibility caps the attempts
    at the ceiling of 5), cause chains cut at character boundaries, redaction of echoed arguments, root causes.
    \<open>Cancel\<close>: the cancellation token, every access to its flag and its notifier a step, with the locale
    \<open>invariant_system\<close> interpreted on them.
  \<^item> \<open>DagBuild\<close>: \<open>WorkflowBuilder\<close> and \<open>build\<close>. The peeling loop \<open>kahn\<close> ends by the measure of twice the sum of
    the indegrees plus the queue's length; \<open>find_cycle\<close> walks with fuel one more than the number of tasks, and a
    lemma shows that a repetition comes before. \<open>DagExec\<close>: the ledger's operations and \<open>run\<close> as the step relation
    \<open>exec_step\<close>, one rule for each piece of the coordinator between two points where the bodies, the caller's
    cancellation or the deadline may act. \<open>DagLedger\<close>: the lifecycle of a task as an abstract relation \<open>move\<close> and
    the invariant that every move keeps. \<open>DagRun\<close>: the executor's invariant, that its steps refine \<open>move\<close>, and a
    measure that bounds every run of \<open>n\<close> tasks by \<open>(n + 6) * (3 * n + 6)\<close> steps. Runs are those whose \<open>max_parallel\<close> is at most
    \<open>MAX_PERMITS\<close> and whose deadline the clock can represent; others panic before the first task. \<open>DagProps\<close>: the promises over
    all specifications that \<open>build\<close> accepts and all schedules. \<open>DagSpec\<close>: the abstract \<open>plan\<close>, which says
    only what may become of a task given its prerequisites, and that the executor refines it and is over when it is.
  \<^item> \<open>Security\<close>, \<open>Enforcement\<close>: path resolution, with what a resolved path is in terms of the file system
    (\<open>real_inside\<close>, \<open>write_inside\<close>, \<open>dirs_inside\<close>), the command catalog and the shell entry; the allowlist, the
    argument checks and the probe gate over 64-bit floats with NaN and infinities.
  \<^item> \<open>Skills\<close>: the registry, the built-in handlers with the effects they have, and the three entries; \<open>effect_inside\<close> says of an
    effect that it is where the capability allows it.
    \<open>Inference\<close>: the engine interface and its backends, decoding of responses, the prompt template and the
    reading of tool calls. \<open>Agent\<close>: a task as its turns, the calls of a turn and the attempts of a call, with the
    invariant \<open>trail\<close> of the failure records; and \<open>agent_outcome\<close>, its result as a workflow task.
  \<^item> \<open>Auth\<close>, \<open>Vault\<close>: token rules, the middleware's decision and the listen address; resolution, cache and
    redaction of secrets.
  \<^item> \<open>Tables\<close>, \<open>Stores\<close>: the tables with SQLite's key and reference checks, and every operation of the five
    stores behind the connection's lock, which may be poisoned, lose its task, or fail at any use of the connection
    (\<open>conn_state\<close>). \<open>StoreFacts\<close>: successful operations, the invariant \<open>db_ok\<close> and its
    preservation. \<open>StoreProps\<close>, \<open>StoreContracts\<close>: reachable databases and the contracts of the stores (locale
    \<open>keyed_store\<close>, interpreted on all five). \<open>StoreRefine\<close>: stores with updates as partial maps (locale
    \<open>updating_store\<close>), the \<open>verdict\<close> of every write, and what happens to values that do not read back.
  \<^item> \<open>Legacy\<close>, \<open>Heartbeat\<close>: the synchronous database; a pulse as a state machine whose steps interleave with
    those of other pulses. \<open>PulseDrain\<close>: an undisturbed pulse ends within \<open>3 * n + 2\<close> steps for \<open>n\<close> pending tasks,
    the fuel of \<open>pulse_run\<close>, and completes them; proved in the locale \<open>pulse_system\<close>. \<open>HeartLoop\<close>: the callers of
    \<open>start_loop\<close> and the task it spawns, interleaved with the pulses; no bound is needed, that the task goes on is
    shown by a run to its next pulse. \<open>Restart\<close>: opening a database file, and the lives of the runtime, a process
    ending at any moment and another opening the same file with what SQLite committed.
  \<^item> \<open>VectorMath\<close>: 32-bit floats as rationals with NaN and infinities, rounded to nearest even after every operation,
    and the routines of \<open>vector_math.rs\<close> over them; a value once rounded is not changed by rounding again, which is
    what makes the four-lane routine and the loop agree.
  \<^item> \<open>Gateway\<close>: the state shared by the handlers as one \<open>world\<close>, a handler per route with its decoder and status
    codes, the messages of the WebSocket, the router and the middleware. The list of effects in the world is what
    the skills, the shell routes, the agent and the heartbeat caused, each with the outside in which its call began. The fuel of a pulse is \<open>phase_left\<close>, three
    steps per listed task and one. \<open>GatewayProps\<close>: the locale \<open>gateway_keeps\<close>, by which a property of the world that
    the called parts keep is kept by every request and every round of a socket (its tasks go through the locale
    \<open>task_keeps\<close> of \<open>Agent\<close>); \<open>gateway_step\<close>, with a rule for each whole request and for each piece that can overlap
    with others; and \<open>pulse_go_over\<close>, that the fuel is enough. \<open>TaskRow\<close>: what a step of a pulse
    does to one task's row. \<open>TaskLife\<close>: the gateway's pulse as a \<open>pulse_system\<close>, the gateway with any number of pulses
    under way (\<open>live_step\<close>), and a task from the request that posts it to its completion.
    \<open>Startup\<close>: the commands of \<open>main.rs\<close>; serving begins only behind an accepted address and token.
  \<^item> \<open>Conformance\<close>: the inputs and assertions of some of the repository's own tests, evaluated on the definitions.

  What is a parameter. Code outside the repository enters as fields of records that the definitions take:
  \<open>serde_json\<close>'s text functions and SHA-256 (\<open>libs\<close>), identifiers (\<open>uuid_lib\<close>), the broadcast channel, the file
  system (\<open>fs\<close>), processes, the probe engine (\<open>guard_libs\<close>), the HTTP client and the inference service
  (\<open>infer_libs\<close>, \<open>infer_service\<close>), SQLite's error texts, scan orders and the JSON codecs of rows (\<open>store_libs\<close>),
  clocks and environment variables. Hypotheses on them are named (\<open>uuid_lib_ok\<close>, \<open>codecs_ok\<close>, \<open>scans_ok\<close>) and
  hold for the concrete instances of the witnesses. \<open>codecs_ok\<close>, that a stored text reads back, holds of \<open>serde_json\<close> for
  values nested less deeply than 128 levels whose floating-point numbers read back. A 64-bit counter that the source increments without a check
  and that cannot wrap in practice (sequence numbers, turn numbers) is a natural number; where a width matters
  (versions, limits, durations in columns) it is a word.

  Concurrency. What one lock or one \<open>await\<close> makes atomic is one step; the interleavings are those of the step
  relations (\<open>exec_step\<close>, \<open>heart_step\<close>, \<open>loop_step\<close>, \<open>cancel_step\<close>, \<open>store_step\<close>, \<open>gateway_step\<close>,
  \<open>live_step\<close>). A dropped future is the world its parameter gives.

  What the lemmas do not cover, and what is not modelled. Parsing the command line and printing; \<open>lib.rs\<close> and the
  \<open>mod.rs\<close> files re-export; \<open>execution/broker.rs\<close> and \<open>sessions/store.rs\<close> declare traits only. The text order of the
  fields of a serialised record is not represented, CORS headers are not listed, and the transport of HTTP and of
  the event streams is the web framework's. A handler runs between two waits without interruption. Time is not
  modelled, a tick of the heartbeat may come at any moment; tracing output and the external crumb process have no effect on the modelled state. What a shell
  command or \<open>git\<close> does to the world once it is admitted is not bounded: the development shows which commands
  start, with which text and where.
\<close>

end
